(* ===== verification/Fota_Prelude.thy ===== *)
theory Fota_Prelude
  imports Main "HOL-Library.Word" "HOL-Library.Monad_Syntax"
begin

section \<open>Bytes, buffers and C strings\<close>

text \<open>
  What every component of the consumer shares: bytes, checked access to C buffers, C strings,
  splitting at a separator, and the generic list lemmas behind the component proofs.

  A C function of the model returns \<open>'a option\<close>.  \<open>None\<close> means that the C code has no
  defined result there: it read or wrote outside a buffer, or its loop never returned.  So a
  theorem that a function is never \<open>None\<close> is a statement of memory safety and, for the loops
  defined with \<^theory_text>\<open>partial_function (option)\<close>, of termination.  An error
  \<^emph>\<open>reported\<close> by the code is not \<open>None\<close>: it is an error code inside \<open>Some\<close>.
\<close>

type_synonym u8 = "8 word"
type_synonym u16 = "16 word"
type_synonym u32 = "32 word"
type_synonym u64 = "64 word"

named_theorems checked_access \<open>when a checked read or write of a C buffer is defined\<close>

subsection \<open>Checked access\<close>

definition rd :: "u8 list \<Rightarrow> nat \<Rightarrow> u8 option" where
  "rd buf i = (if i < length buf then Some (buf ! i) else None)"

definition rd_slice :: "u8 list \<Rightarrow> nat \<Rightarrow> nat \<Rightarrow> u8 list option" where
  "rd_slice buf off n = (if off + n \<le> length buf then Some (take n (drop off buf)) else None)"

definition wr_slice :: "u8 list \<Rightarrow> nat \<Rightarrow> u8 list \<Rightarrow> u8 list option" where
  "wr_slice buf off ys =
     (if off + length ys \<le> length buf
      then Some (take off buf @ ys @ drop (off + length ys) buf) else None)"

lemma rd_Some [checked_access]: "i < length buf \<Longrightarrow> rd buf i = Some (buf ! i)"
  by (simp add: rd_def)

lemma rd_eq_Some: "rd buf i = Some b \<longleftrightarrow> i < length buf \<and> b = buf ! i"
  by (auto simp: rd_def)

lemma rd_slice_Some [checked_access]:
  "off + n \<le> length buf \<Longrightarrow> rd_slice buf off n = Some (take n (drop off buf))"
  by (simp add: rd_slice_def)

lemma rd_slice_eq_Some:
  "rd_slice buf off n = Some ys \<longleftrightarrow> off + n \<le> length buf \<and> ys = take n (drop off buf)"
  by (auto simp: rd_slice_def)

lemma rd_slice_length: "rd_slice buf off n = Some ys \<Longrightarrow> length ys = n"
  by (auto simp: rd_slice_eq_Some)

lemma wr_slice_eq_Some:
  "wr_slice buf off ys = Some zs \<longleftrightarrow>
     off + length ys \<le> length buf \<and> zs = take off buf @ ys @ drop (off + length ys) buf"
  by (auto simp: wr_slice_def)

lemma wr_slice_length: "wr_slice buf off ys = Some zs \<Longrightarrow> length zs = length buf"
  by (auto simp: wr_slice_eq_Some)

text \<open>A read below \<open>n\<close> sees only the first \<open>n\<close> bytes.\<close>

lemma rd_take: "i < n \<Longrightarrow> n \<le> length buf \<Longrightarrow> rd (take n buf) i = rd buf i"
  by (simp add: rd_def)

lemma rd_slice_take: "off + k \<le> n \<Longrightarrow> n \<le> length buf \<Longrightarrow> rd_slice (take n buf) off k = rd_slice buf off k"
  by (simp add: rd_slice_def drop_take min_def)

lemma ucast_of_nat_u64: "t < 2 ^ 32 \<Longrightarrow> ucast (of_nat t :: u64) = (of_nat t :: u32)"
  by (simp add: word_unat_eq_iff unsigned_ucast_eq unsigned_of_nat take_bit_eq_mod)

subsection \<open>Segments\<close>

definition seg :: "'a list \<Rightarrow> nat \<Rightarrow> nat \<Rightarrow> 'a list" where
  "seg d i j = take (j - i) (drop i d)"

lemma seg_Cons: "i < j \<Longrightarrow> j \<le> length d \<Longrightarrow> seg d i j = d ! i # seg d (Suc i) j"
  by (simp add: seg_def Cons_nth_drop_Suc [symmetric] Suc_diff_Suc [symmetric])

lemma seg_snoc: "i \<le> j \<Longrightarrow> j < length d \<Longrightarrow> seg d i (Suc j) = seg d i j @ [d ! j]"
  by (simp add: seg_def Suc_diff_le take_Suc_conv_app_nth)

lemma seg_refl [simp]: "seg d i i = []"
  by (simp add: seg_def)

lemma length_seg: "j \<le> length d \<Longrightarrow> length (seg d i j) = j - i"
  by (simp add: seg_def)

subsection \<open>C strings\<close>

text \<open>The C string that starts at a buffer ends before its first NUL.\<close>

definition cstr :: "u8 list \<Rightarrow> u8 list" where
  "cstr buf = takeWhile (\<lambda>b. b \<noteq> 0) buf"

definition ascii :: "string \<Rightarrow> u8 list" where
  "ascii s = map of_char s"

lemma cstr_Nil [simp]: "cstr [] = []"
  by (simp add: cstr_def)

lemma cstr_no_nul: "0 \<notin> set (cstr buf)"
  by (auto simp: cstr_def dest: set_takeWhileD)

lemma cstr_id: "0 \<notin> set s \<Longrightarrow> cstr s = s"
  by (auto simp: cstr_def takeWhile_eq_all_conv)

lemma cstr_append_nul: "0 \<notin> set s \<Longrightarrow> cstr (s @ 0 # r) = s"
  by (induction s) (auto simp: cstr_def)

lemma cstr_length_le: "length (cstr buf) \<le> length buf"
  by (simp add: cstr_def length_takeWhile_le)

subsection \<open>Splitting at a separator\<close>

fun split_on :: "'a \<Rightarrow> 'a list \<Rightarrow> 'a list list" where
  "split_on c [] = [[]]"
| "split_on c (x # xs) =
     (if x = c then [] # split_on c xs
      else (case split_on c xs of [] \<Rightarrow> [[x]] | y # ys \<Rightarrow> (x # y) # ys))"

lemma split_on_not_Nil [simp]: "split_on c xs \<noteq> []"
  by (induction xs) (auto split: list.splits)

lemma split_on_no_sep: "c \<notin> set xs \<Longrightarrow> split_on c xs = [xs]"
  by (induction xs) auto

lemma split_on_append_sep: "c \<notin> set xs \<Longrightarrow> split_on c (xs @ c # ys) = xs # split_on c ys"
  by (induction xs) auto

lemma split_on_sep_append: "split_on c (xs @ c # ys) = split_on c xs @ split_on c ys"
  by (induction xs) (auto split: list.splits)

lemma split_on_parts_no_sep: "p \<in> set (split_on c xs) \<Longrightarrow> c \<notin> set p"
  by (induction xs arbitrary: p) (fastforce split: list.splits if_splits)+

lemma length_split_on: "length (split_on c xs) = Suc (count_list xs c)"
  by (induction xs) (auto split: list.splits)

end
