(* ===== verification/Fota_World.thy ===== *)
theory Fota_World
  imports Fota_Prelude
begin

section \<open>The device: files, stdio, allocation and the call log\<close>

text \<open>
  The part of the C library and of POSIX that the consumer uses: reading and writing whole files
  with stdio, \<open>mkdir\<close>, \<open>statvfs\<close> and the allocator.  A file lives at a \<^emph>\<open>location\<close>, the list
  of its path components after the kernel has walked the path: empty components and \<open>.\<close> stay,
  \<open>..\<close> goes to the parent, and every component walked through must be a directory.  The tree
  holds no symbolic links.

  Every failure the code can meet is in the state, so that a theorem for all worlds is a theorem for
  all failures: locations that cannot be opened, read errors after some bytes
  (\<open>read_stop\<close>), writes that stop short (\<open>write_stop\<close>: device full, quota, I/O error), and
  an \<open>fclose\<close> that reports a failed flush.

  \<open>log\<close> records the calls whose order matters for security.
\<close>

type_synonym loc = "u8 list list"

datatype event =
    Ev_verify bool
  | Ev_unwrap bool
  | Ev_decrypt bool
  | Ev_validated
  | Ev_mkdir loc
  | Ev_write loc

record world =
  cwd :: loc
  dirs :: "loc \<Rightarrow> bool"
  files :: "loc \<Rightarrow> u8 list option"
  no_read :: "loc \<Rightarrow> bool"
  no_write :: "loc \<Rightarrow> bool"
  read_stop :: "loc \<Rightarrow> nat option"
  write_stop :: "loc \<Rightarrow> nat option"
  close_fails :: "loc \<Rightarrow> bool"
  vfs_space :: "loc \<Rightarrow> (u64 \<times> u64) option"
  log :: "event list"

definition emit :: "event \<Rightarrow> world \<Rightarrow> world" where
  "emit e w = w\<lparr>log := log w @ [e]\<rparr>"

subsection \<open>The allocator\<close>

text \<open>
  \<open>malloc\<close>, \<open>calloc\<close> and \<open>realloc\<close> return a block or NULL.  The outcome of a request is a predicate on
  the call site and the number of elements asked for.  Within one run every site asks for a given
  number at most once (the growing buffers double), so the predicate can describe every pattern
  of successes and failures.
\<close>

datatype alloc_site =
    Site_read_all | Site_signed_data | Site_unwrap_tmp | Site_plaintext | Site_gunzip
  | Site_tar_entries | Site_manifest_files | Site_matched

type_synonym allocator = "alloc_site \<Rightarrow> nat \<Rightarrow> bool"

definition unlimited :: allocator where "unlimited = (\<lambda>s n. True)"

lemma unlimited_grants [simp]: "unlimited s n"
  by (simp add: unlimited_def)

subsection \<open>Path walking\<close>

abbreviation slash :: u8 where "slash \<equiv> 47"

abbreviation dot_comp :: "u8 list" where "dot_comp \<equiv> [46]"

abbreviation dotdot_comp :: "u8 list" where "dotdot_comp \<equiv> [46, 46]"

fun walk :: "(loc \<Rightarrow> bool) \<Rightarrow> u8 list list \<Rightarrow> loc \<Rightarrow> loc option" where
  "walk ds [] here = Some here"
| "walk ds (c # cs) here =
     (if \<not> ds here then None
      else if c = [] \<or> c = dot_comp then walk ds cs here
      else if c = dotdot_comp then walk ds cs (butlast here)
      else walk ds cs (here @ [c]))"

definition resolve :: "world \<Rightarrow> u8 list \<Rightarrow> loc option" where
  "resolve w path =
     (if path = [] then None
      else walk (dirs w) (split_on slash path) (if hd path = slash then [] else cwd w))"

lemma resolve_dirs_cwd:
  "dirs w' = dirs w \<Longrightarrow> cwd w' = cwd w \<Longrightarrow> resolve w' path = resolve w path"
  by (simp add: resolve_def)

subsection \<open>stdio\<close>

text \<open>
  An open input stream: the bytes that can still be read, whether an error (rather than the end of
  the file) follows them, and the error flag that \<open>ferror\<close> reads.
\<close>

record stream =
  avail :: "u8 list"
  fails :: bool
  err_flag :: bool

definition open_stream :: "u8 list \<Rightarrow> nat option \<Rightarrow> stream" where
  "open_stream content stop =
     (case stop of
        None \<Rightarrow> \<lparr>avail = content, fails = False, err_flag = False\<rparr>
      | Some k \<Rightarrow> \<lparr>avail = take k content, fails = k < length content, err_flag = False\<rparr>)"

text \<open>\<open>fread\<close> returns fewer bytes than asked for only at the end of the file or at an error.\<close>

definition fread :: "nat \<Rightarrow> stream \<Rightarrow> u8 list \<times> stream" where
  "fread n s =
     (take n (avail s),
      s\<lparr>avail := drop n (avail s), err_flag := err_flag s \<or> (fails s \<and> length (avail s) < n)\<rparr>)"

text \<open>\<open>fopen (path, "rb")\<close>: opening a directory succeeds on POSIX, and reading it fails.\<close>

definition fopen_rb :: "world \<Rightarrow> u8 list \<Rightarrow> stream option" where
  "fopen_rb w path =
     (case resolve w path of
        None \<Rightarrow> None
      | Some l \<Rightarrow>
          if no_read w l then None
          else if dirs w l then Some \<lparr>avail = [], fails = True, err_flag = False\<rparr>
          else map_option (\<lambda>c. open_stream c (read_stop w l)) (files w l))"

text \<open>\<open>fopen (path, "wb")\<close> creates or truncates a file in an existing directory.\<close>

definition fopen_wb :: "world \<Rightarrow> u8 list \<Rightarrow> (loc \<times> world) option" where
  "fopen_wb w path =
     (case resolve w path of
        None \<Rightarrow> None
      | Some l \<Rightarrow>
          if no_write w l \<or> dirs w l \<or> \<not> dirs w (butlast l) then None
          else Some (l, emit (Ev_write l) (w\<lparr>files := (files w)(l := Some [])\<rparr>)))"

definition fwrite :: "u8 list \<Rightarrow> loc \<Rightarrow> world \<Rightarrow> nat \<times> world" where
  "fwrite bytes l w =
     (let k = (case write_stop w l of None \<Rightarrow> length bytes | Some s \<Rightarrow> min s (length bytes));
          old = (case files w l of None \<Rightarrow> [] | Some c \<Rightarrow> c)
      in (k, w\<lparr>files := (files w)(l := Some (old @ take k bytes))\<rparr>))"

definition fclose_ok :: "world \<Rightarrow> loc \<Rightarrow> bool" where
  "fclose_ok w l = (\<not> close_fails w l)"

datatype mkdir_result = Mkdir_ok | Mkdir_EEXIST | Mkdir_error

definition mkdir :: "u8 list \<Rightarrow> world \<Rightarrow> mkdir_result \<times> world" where
  "mkdir path w =
     (case resolve w path of
        None \<Rightarrow> (Mkdir_error, w)
      | Some l \<Rightarrow>
          if dirs w l \<or> files w l \<noteq> None then (Mkdir_EEXIST, w)
          else if no_write w l \<or> \<not> dirs w (butlast l) then (Mkdir_error, w)
          else (Mkdir_ok, emit (Ev_mkdir l) (w\<lparr>dirs := (dirs w)(l := True)\<rparr>)))"

definition statvfs :: "world \<Rightarrow> u8 list \<Rightarrow> (u64 \<times> u64) option" where
  "statvfs w path = (case resolve w path of None \<Rightarrow> None | Some l \<Rightarrow> vfs_space w l)"

subsection \<open>Writing a whole file\<close>

text \<open>
  The sequence \<open>fopen "wb"\<close>, \<open>fwrite\<close>, \<open>fclose\<close> with the checks that
  \<open>fota_version_write_installed\<close> and \<open>write_entry_file\<close> both make: all bytes were taken and the
  close succeeded.
\<close>

definition put_file :: "u8 list \<Rightarrow> u8 list \<Rightarrow> world \<Rightarrow> bool \<times> world" where
  "put_file path bytes w =
     (case fopen_wb w path of
        None \<Rightarrow> (False, w)
      | Some (l, w1) \<Rightarrow>
          let (written_bytes, w2) = fwrite bytes l w1;
              close_ok = fclose_ok w2 l
          in (written_bytes = length bytes \<and> close_ok, w2))"

text \<open>What a reader finds at a path: the whole content, when no read fails.\<close>

definition get_file :: "world \<Rightarrow> u8 list \<Rightarrow> u8 list option" where
  "get_file w path =
     (case fopen_rb w path of
        None \<Rightarrow> None
      | Some s \<Rightarrow> if fails s then None else Some (avail s))"

definition readable :: "world \<Rightarrow> u8 list \<Rightarrow> bool" where
  "readable w path =
     (case resolve w path of None \<Rightarrow> False | Some l \<Rightarrow> \<not> no_read w l \<and> read_stop w l = None)"

lemmas stdio_defs = fopen_wb_def fopen_rb_def fwrite_def fclose_ok_def put_file_def get_file_def
  emit_def open_stream_def

lemma resolve_emit [simp]: "resolve (emit e w) path = resolve w path"
  by (rule resolve_dirs_cwd) (simp_all add: emit_def)

lemma resolve_files [simp]: "resolve (w\<lparr>files := f\<rparr>) path = resolve w path"
  by (rule resolve_dirs_cwd) simp_all

lemma put_file_resolve:
  assumes "put_file path bytes w = (ok, w')"
  shows "resolve w' q = resolve w q"
  using assms
  by (intro resolve_dirs_cwd)
     (auto simp: stdio_defs Let_def split: option.splits if_splits)

lemma put_file_frame:
  assumes "put_file path bytes w = (ok, w')" and "Some l \<noteq> resolve w path"
  shows "files w' l = files w l"
  using assms by (auto simp: stdio_defs Let_def split: option.splits if_splits)

lemma put_file_dirs:
  assumes "put_file path bytes w = (ok, w')"
  shows "dirs w' = dirs w" "no_read w' = no_read w" "read_stop w' = read_stop w" "cwd w' = cwd w"
    "no_write w' = no_write w" "write_stop w' = write_stop w" "close_fails w' = close_fails w"
    "vfs_space w' = vfs_space w"
  using assms by (auto simp: stdio_defs Let_def split: option.splits if_splits)

lemma put_file_stored:
  assumes "put_file path bytes w = (True, w')"
  shows "\<exists>l. resolve w path = Some l \<and> \<not> dirs w l \<and> files w' l = Some bytes"
  using assms
  by (auto simp: stdio_defs Let_def min_def split: option.splits if_splits)

lemma put_file_log:
  assumes "put_file path bytes w = (ok, w')"
  shows "log w' = log w \<and> w' = w \<or>
    (\<exists>l. resolve w path = Some l \<and> log w' = log w @ [Ev_write l])"
  using assms by (auto simp: stdio_defs Let_def split: option.splits if_splits)

lemma put_file_logged:
  assumes "put_file path bytes w = (True, w')"
  shows "log w' \<noteq> log w"
  using assms by (auto simp: stdio_defs Let_def split: option.splits if_splits)

subsection \<open>The file store as an interface\<close>

text \<open>
  What the version component needs of storage: a store that reports success is read back, and a
  store leaves every other place alone.
\<close>

locale file_store =
  fixes store :: "'p \<Rightarrow> u8 list \<Rightarrow> 'w \<Rightarrow> bool \<times> 'w"
    and load :: "'w \<Rightarrow> 'p \<Rightarrow> u8 list option"
    and place :: "'w \<Rightarrow> 'p \<Rightarrow> 'l option"
    and can_load :: "'w \<Rightarrow> 'p \<Rightarrow> bool"
  assumes load_store: "store p c w = (True, w') \<Longrightarrow> can_load w p \<Longrightarrow> load w' p = Some c"
    and load_other: "store p c w = (ok, w') \<Longrightarrow> place w q \<noteq> place w p \<Longrightarrow> load w' q = load w q"
    and place_store: "store p c w = (ok, w') \<Longrightarrow> place w' q = place w q"
    and can_load_store: "store p c w = (ok, w') \<Longrightarrow> can_load w' q = can_load w q"
begin

lemma last_store_wins:
  assumes "store p c w = (ok, w1)" and "store p c' w1 = (True, w2)" and "can_load w p"
  shows "load w2 p = Some c'"
  using assms load_store can_load_store by metis

lemma store_elsewhere:
  assumes "store p c w = (True, w1)" and "can_load w p"
    and "store q c' w1 = (ok, w2)" and "place w q \<noteq> place w p"
  shows "load w2 p = Some c"
  using assms load_store load_other place_store by metis

end

text \<open>A value kept in a file through an encoding.\<close>

locale file_cell = file_store store load place can_load
  for store :: "'p \<Rightarrow> u8 list \<Rightarrow> 'w \<Rightarrow> bool \<times> 'w"
    and load :: "'w \<Rightarrow> 'p \<Rightarrow> u8 list option"
    and place :: "'w \<Rightarrow> 'p \<Rightarrow> 'l option"
    and can_load :: "'w \<Rightarrow> 'p \<Rightarrow> bool" +
  fixes encode :: "'v \<Rightarrow> u8 list"
    and decode :: "u8 list \<Rightarrow> 'v option"
  assumes decode_encode: "decode (encode v) = Some v"
begin

lemma reload:
  assumes "store p (encode v) w = (True, w')" and "can_load w p"
  shows "Option.bind (load w' p) decode = Some v"
  using load_store [OF assms] decode_encode by simp

lemma reload_after_other:
  assumes "store p (encode v) w = (True, w1)" and "can_load w p"
    and "store q c w1 = (ok, w2)" and "place w q \<noteq> place w p"
  shows "Option.bind (load w2 p) decode = Some v"
  using store_elsewhere [OF assms] decode_encode by simp

end

interpretation fs: file_store put_file get_file resolve readable
proof unfold_locales
  fix p c w w' assume st: "put_file p c w = (True, w')" and "readable w p"
  from put_file_stored [OF st] obtain l
    where "resolve w p = Some l" "\<not> dirs w l" "files w' l = Some c" by blast
  then show "get_file w' p = Some c"
    using put_file_dirs [OF st] put_file_resolve [OF st] \<open>readable w p\<close>
    by (simp add: get_file_def fopen_rb_def readable_def open_stream_def)
next
  fix p c w ok w' q
  assume st: "put_file p c w = (ok, w')" and ne: "resolve w q \<noteq> resolve w p"
  have "files w' l = files w l" if "resolve w q = Some l" for l
    using put_file_frame [OF st] ne that by metis
  then show "get_file w' q = get_file w q"
    using put_file_dirs [OF st] put_file_resolve [OF st]
    by (cases "resolve w q") (simp_all add: get_file_def fopen_rb_def)
next
  fix p c w ok w' q
  assume st: "put_file p c w = (ok, w')"
  show "resolve w' q = resolve w q" by (rule put_file_resolve [OF st])
next
  fix p c w ok w' q
  assume st: "put_file p c w = (ok, w')"
  show "readable w' q = readable w q"
    using put_file_dirs [OF st] put_file_resolve [OF st]
    by (simp add: readable_def split: option.splits)
qed

end
