(* ===== verification/Fota_Gunzip.thy ===== *)
theory Fota_Gunzip
  imports Fota_World
begin

section \<open>Decompression (fota_gunzip of installer.c)\<close>

text \<open>
  The inflate loop of \<open>fota_gunzip\<close> with its growing, capped output buffer.  zlib is not part of the
  repository: it is the record \<open>zlib\<close> of the two functions the code calls.  The lemmas show that the
  output never exceeds the cap, that it is exactly what zlib produced, and that the loop ends for every
  zlib that makes progress as documented.
\<close>

subsection \<open>Result codes of the installer\<close>

datatype fota_install_result =
    FOTA_INSTALL_OK
  | FOTA_INSTALL_ERR_INVALID_ARG
  | FOTA_INSTALL_ERR_DECOMPRESS_FAILED
  | FOTA_INSTALL_ERR_DECOMPRESSED_TOO_LARGE
  | FOTA_INSTALL_ERR_MALFORMED_TAR
  | FOTA_INSTALL_ERR_UNSAFE_PATH
  | FOTA_INSTALL_ERR_UNSUPPORTED_ENTRY
  | FOTA_INSTALL_ERR_MANIFEST_MISSING
  | FOTA_INSTALL_ERR_MANIFEST_PARSE
  | FOTA_INSTALL_ERR_MANIFEST_MISMATCH
  | FOTA_INSTALL_ERR_IO

subsection \<open>zlib as a parameter\<close>

text \<open>
  \<open>inflate st input avail_out\<close> returns the code, the number of input bytes consumed, the bytes written and the
  new stream state.
\<close>

record 'z zlib =
  inflateInit2 :: "int \<Rightarrow> int \<times> 'z"
  inflate :: "'z \<Rightarrow> u8 list \<Rightarrow> nat \<Rightarrow> int \<times> nat \<times> u8 list \<times> 'z"

definition Z_OK :: int where "Z_OK = 0"

definition Z_STREAM_END :: int where "Z_STREAM_END = 1"

definition MAX_WBITS :: int where "MAX_WBITS = 15"

lemmas z_codes = Z_OK_def Z_STREAM_END_def MAX_WBITS_def

text \<open>
  Documented behaviour of \<open>inflate\<close>: it stays inside the input and output it was given, and \<open>Z_OK\<close> means
  that there was progress (otherwise it returns \<open>Z_BUF_ERROR\<close>).
\<close>

definition zlib_contract :: "'z zlib \<Rightarrow> bool" where
  "zlib_contract Z \<longleftrightarrow>
     (\<forall>st inp k ret used out st'. inflate Z st inp k = (ret, used, out, st') \<longrightarrow>
        used \<le> length inp \<and> length out \<le> k \<and> (ret = Z_OK \<longrightarrow> 0 < used \<or> out \<noteq> []))"

subsection \<open>The loop\<close>

definition FOTA_GUNZIP_CHUNK :: nat where "FOTA_GUNZIP_CHUNK = 65536"

text \<open>
  The growth step at the head of the loop: the new capacity, or the reason to give up.  Capacities are
  \<open>nat\<close>: only a capacity below the cap is doubled, and the only caller's cap is 512 MiB, so the product stays
  below \<open>2 ^ 30\<close> and within a \<open>size_t\<close> of 32 bits.
\<close>

definition gunzip_grow :: "allocator \<Rightarrow> nat \<Rightarrow> nat \<Rightarrow> nat \<Rightarrow> fota_install_result + nat" where
  "gunzip_grow alloc max_output_size filled capacity =
     (if filled = capacity then
        if capacity \<ge> max_output_size then Inl FOTA_INSTALL_ERR_DECOMPRESSED_TOO_LARGE
        else let new_capacity = capacity * 2;
                 new_capacity = (if new_capacity > max_output_size then max_output_size else new_capacity)
             in if \<not> alloc Site_gunzip new_capacity then Inl FOTA_INSTALL_ERR_DECOMPRESS_FAILED
                else Inr new_capacity
      else Inr capacity)"

text \<open>
  One call of \<open>inflate\<close> into the free part of the buffer: \<open>avail_out\<close> is cut to 32 bits.  The result is the code,
  the input left, the buffer filled so far, the output space left and the stream state.
\<close>

definition gunzip_inflate ::
    "'z zlib \<Rightarrow> 'z \<Rightarrow> u8 list \<Rightarrow> u8 list \<Rightarrow> nat \<Rightarrow> (int \<times> u8 list \<times> u8 list \<times> nat \<times> 'z) option"
where
  "gunzip_inflate Z st inp buf capacity =
     (let avail_out = unat (of_nat (capacity - length buf) :: u32);
          (zret, used, out, st') = inflate Z st inp avail_out
      in if length out > avail_out \<or> used > length inp then None
         else Some (zret, drop used inp, buf @ out, avail_out - length out, st'))"

partial_function (option) gunzip_loop ::
    "'z zlib \<Rightarrow> allocator \<Rightarrow> nat \<Rightarrow> 'z \<Rightarrow> u8 list \<Rightarrow> u8 list \<Rightarrow> nat \<Rightarrow>
     (fota_install_result + u8 list) option"
where
  "gunzip_loop Z alloc max_output_size st inp buf capacity =
     (case gunzip_grow alloc max_output_size (length buf) capacity of
        Inl e \<Rightarrow> Some (Inl e)
      | Inr capacity' \<Rightarrow>
          Option.bind (gunzip_inflate Z st inp buf capacity') (\<lambda>(zret, inp', buf', avail_out', st').
            if zret \<noteq> Z_OK \<and> zret \<noteq> Z_STREAM_END then Some (Inl FOTA_INSTALL_ERR_DECOMPRESS_FAILED)
            else if zret = Z_OK \<and> inp' = [] \<and> avail_out' > 0
            then Some (Inl FOTA_INSTALL_ERR_DECOMPRESS_FAILED)
            else if zret = Z_STREAM_END then Some (Inr buf')
            else gunzip_loop Z alloc max_output_size st' inp' buf' capacity'))"

text \<open>
  \<open>out_ok\<close> says that \<open>out_data\<close> and \<open>out_len\<close> are not NULL; on success they receive the buffer of the result.
  \<open>avail_in\<close> is \<open>gz_len\<close> cut to 32 bits.
\<close>

definition fota_gunzip ::
    "'z zlib \<Rightarrow> allocator \<Rightarrow> u8 list option \<Rightarrow> nat \<Rightarrow> nat \<Rightarrow> bool \<Rightarrow> (fota_install_result + u8 list) option"
where
  "fota_gunzip Z alloc gz_data gz_len max_output_size out_ok =
     (case gz_data of
        None \<Rightarrow> Some (Inl FOTA_INSTALL_ERR_INVALID_ARG)
      | Some gz \<Rightarrow>
          if \<not> out_ok \<or> gz_len = 0 \<or> max_output_size = 0 then Some (Inl FOTA_INSTALL_ERR_INVALID_ARG)
          else let (r, st) = inflateInit2 Z (16 + MAX_WBITS) in
            if r \<noteq> Z_OK then Some (Inl FOTA_INSTALL_ERR_DECOMPRESS_FAILED)
            else do {
              inp \<leftarrow> rd_slice gz 0 (unat (of_nat gz_len :: u32));
              let capacity = (if FOTA_GUNZIP_CHUNK < max_output_size then FOTA_GUNZIP_CHUNK
                              else max_output_size);
              if \<not> alloc Site_gunzip capacity then Some (Inl FOTA_INSTALL_ERR_DECOMPRESS_FAILED)
              else gunzip_loop Z alloc max_output_size st inp [] capacity
            })"

subsection \<open>What zlib produced\<close>

text \<open>
  \<open>inflates Z st inp out\<close>: some sequence of \<open>inflate\<close> calls on the input, each continuing after the bytes the one
  before consumed, ends the stream and writes \<open>out\<close> in all.
\<close>

inductive inflates :: "'z zlib \<Rightarrow> 'z \<Rightarrow> u8 list \<Rightarrow> u8 list \<Rightarrow> bool" for Z :: "'z zlib" where
  inflates_end: "inflate Z st inp k = (Z_STREAM_END, used, out, st') \<Longrightarrow> inflates Z st inp out"
| inflates_more: "inflate Z st inp k = (Z_OK, used, out, st') \<Longrightarrow> inflates Z st' (drop used inp) out' \<Longrightarrow>
    inflates Z st inp (out @ out')"

lemma gunzip_grow_Inr:
  assumes "gunzip_grow alloc m filled cap = Inr cap'" and "filled \<le> cap" and "cap \<le> m"
  shows "filled \<le> cap' \<and> cap' \<le> m"
  using assms by (auto simp: gunzip_grow_def Let_def split: if_splits)

lemma unat_of_nat_u32_le: "unat (of_nat n :: u32) \<le> n"
  by (simp add: unat_of_nat)

lemma gunzip_inflate_Some:
  assumes "gunzip_inflate Z st inp buf cap = Some (zret, inp', buf', left, st')" and "length buf \<le> cap"
  obtains used out k where "inflate Z st inp k = (zret, used, out, st')" "inp' = drop used inp"
    "buf' = buf @ out" "length buf' \<le> cap" "k = unat (of_nat (cap - length buf) :: u32)"
proof -
  let ?k = "unat (of_nat (cap - length buf) :: u32)"
  obtain used out where i: "inflate Z st inp ?k = (zret, used, out, st')" "inp' = drop used inp"
      "buf' = buf @ out" "length out \<le> ?k"
    using assms(1) by (auto simp: gunzip_inflate_def Let_def split: prod.splits if_splits)
  moreover have "length buf' \<le> cap"
    using i(3,4) assms(2) unat_of_nat_u32_le [of "cap - length buf"] by simp
  ultimately show ?thesis using that by blast
qed

lemma gunzip_loop_sound:
  assumes "gunzip_loop Z alloc m st inp buf cap = Some r" and "length buf \<le> cap" and "cap \<le> m"
  shows "case r of
      Inr out \<Rightarrow> length out \<le> m \<and> (\<exists>o'. out = buf @ o' \<and> inflates Z st inp o')
    | Inl e \<Rightarrow> e = FOTA_INSTALL_ERR_DECOMPRESSED_TOO_LARGE \<or> e = FOTA_INSTALL_ERR_DECOMPRESS_FAILED"
proof (rule gunzip_loop.raw_induct [where P = "\<lambda>Z alloc m st inp buf cap r.
      length buf \<le> cap \<longrightarrow> cap \<le> m \<longrightarrow> (case r of
      Inr out \<Rightarrow> length out \<le> m \<and> (\<exists>o'. out = buf @ o' \<and> inflates Z st inp o')
    | Inl e \<Rightarrow> e = FOTA_INSTALL_ERR_DECOMPRESSED_TOO_LARGE \<or> e = FOTA_INSTALL_ERR_DECOMPRESS_FAILED)",
      OF _ assms(1), THEN mp, THEN mp, OF _ assms(2,3)])
  fix loop :: "'z zlib \<Rightarrow> allocator \<Rightarrow> nat \<Rightarrow> 'z \<Rightarrow> u8 list \<Rightarrow> u8 list \<Rightarrow> nat \<Rightarrow> (fota_install_result + u8 list) option"
  fix Z :: "'z zlib" and alloc m st inp buf cap r
  assume IH: "\<And>Z alloc m st inp buf cap r. loop Z alloc m st inp buf cap = Some r \<Longrightarrow>
      length buf \<le> cap \<longrightarrow> cap \<le> m \<longrightarrow> (case r of
        Inr out \<Rightarrow> length out \<le> m \<and> (\<exists>o'. out = buf @ o' \<and> inflates Z st inp o')
      | Inl e \<Rightarrow> e = FOTA_INSTALL_ERR_DECOMPRESSED_TOO_LARGE \<or> e = FOTA_INSTALL_ERR_DECOMPRESS_FAILED)"
    and eq: "(case gunzip_grow alloc m (length buf) cap of
        Inl e \<Rightarrow> Some (Inl e)
      | Inr cap' \<Rightarrow>
          Option.bind (gunzip_inflate Z st inp buf cap') (\<lambda>(zret, inp', buf', left, st').
            if zret \<noteq> Z_OK \<and> zret \<noteq> Z_STREAM_END then Some (Inl FOTA_INSTALL_ERR_DECOMPRESS_FAILED)
            else if zret = Z_OK \<and> inp' = [] \<and> left > 0
            then Some (Inl FOTA_INSTALL_ERR_DECOMPRESS_FAILED)
            else if zret = Z_STREAM_END then Some (Inr buf')
            else loop Z alloc m st' inp' buf' cap')) = Some r"
  show "length buf \<le> cap \<longrightarrow> cap \<le> m \<longrightarrow> (case r of
        Inr out \<Rightarrow> length out \<le> m \<and> (\<exists>o'. out = buf @ o' \<and> inflates Z st inp o')
      | Inl e \<Rightarrow> e = FOTA_INSTALL_ERR_DECOMPRESSED_TOO_LARGE \<or> e = FOTA_INSTALL_ERR_DECOMPRESS_FAILED)"
  proof (intro impI)
    assume inv: "length buf \<le> cap" "cap \<le> m"
    show "case r of
        Inr out \<Rightarrow> length out \<le> m \<and> (\<exists>o'. out = buf @ o' \<and> inflates Z st inp o')
      | Inl e \<Rightarrow> e = FOTA_INSTALL_ERR_DECOMPRESSED_TOO_LARGE \<or> e = FOTA_INSTALL_ERR_DECOMPRESS_FAILED"
    proof (cases "gunzip_grow alloc m (length buf) cap")
      case (Inl e)
      then show ?thesis using eq by (auto simp: gunzip_grow_def Let_def split: if_splits)
    next
      case (Inr cap')
      note cap' = gunzip_grow_Inr [OF Inr inv]
      obtain zret inp' buf' left st'
        where gi: "gunzip_inflate Z st inp buf cap' = Some (zret, inp', buf', left, st')"
        using eq Inr by (auto split: Option.bind_split_asm)
      obtain used out k where i: "inflate Z st inp k = (zret, used, out, st')"
          "inp' = drop used inp" "buf' = buf @ out" "length buf' \<le> cap'"
        by (rule gunzip_inflate_Some [OF gi]) (use cap' in auto)
      show ?thesis
      proof (cases "zret = Z_STREAM_END")
        case True
        then have "inflates Z st inp out" using i(1) by (simp add: inflates_end)
        then show ?thesis using True eq Inr gi i cap' by (auto simp: z_codes)
      next
        case False
        show ?thesis
        proof (cases "zret \<noteq> Z_OK \<or> inp' = [] \<and> left > 0")
          case True
          then show ?thesis using eq Inr gi False by (auto split: if_splits)
        next
          case ok: False
          then have "loop Z alloc m st' inp' buf' cap' = Some r"
            using eq Inr gi False by (auto split: if_splits)
          from IH [OF this] i(4) cap' have rec: "case r of
              Inr out \<Rightarrow> length out \<le> m \<and> (\<exists>o'. out = buf' @ o' \<and> inflates Z st' inp' o')
            | Inl e \<Rightarrow> e = FOTA_INSTALL_ERR_DECOMPRESSED_TOO_LARGE \<or> e = FOTA_INSTALL_ERR_DECOMPRESS_FAILED"
            by blast
          have "zret = Z_OK" using ok by simp
          with i have "inflates Z st' inp' o' \<Longrightarrow> inflates Z st inp (out @ o')" for o'
            using inflates_more by fastforce
          then show ?thesis using rec i(3) by (cases r) auto
        qed
      qed
    qed
  qed
qed

lemma gunzip_loop_returns:
  assumes "zlib_contract Z" and "length buf \<le> cap" and "cap \<le> m"
  shows "\<exists>r. gunzip_loop Z alloc m st inp buf cap = Some r"
  using assms(2,3)
proof (induction "length inp + (m - length buf)" arbitrary: st inp buf cap rule: less_induct)
  case less
  show ?case
  proof (cases "gunzip_grow alloc m (length buf) cap")
    case (Inl e)
    then show ?thesis by (simp add: gunzip_loop.simps)
  next
    case (Inr cap')
    note cap' = gunzip_grow_Inr [OF Inr less.prems]
    let ?k = "unat (of_nat (cap' - length buf) :: u32)"
    obtain zret used out st' where i: "inflate Z st inp ?k = (zret, used, out, st')"
      by (metis prod_cases4)
    have c: "used \<le> length inp" "length out \<le> ?k" "zret = Z_OK \<Longrightarrow> 0 < used \<or> out \<noteq> []"
      using assms(1) i unfolding zlib_contract_def by blast+
    then have gi: "gunzip_inflate Z st inp buf cap' =
        Some (zret, drop used inp, buf @ out, ?k - length out, st')"
      using i by (simp add: gunzip_inflate_def Let_def)
    have "length out \<le> cap' - length buf"
      using c(2) unat_of_nat_u32_le by (rule le_trans)
    then have len: "length (buf @ out) \<le> cap'" using cap' by (auto simp: le_diff_conv2)
    show ?thesis
    proof (cases "zret = Z_OK")
      case True
      with c have "0 < used \<or> 0 < length out" by simp
      then have "length (drop used inp) + (m - length (buf @ out)) < length inp + (m - length buf)"
        using c(1) len cap' by (simp only: length_drop length_append) arith
      from less.hyps [OF this len] cap'
      obtain r where "gunzip_loop Z alloc m st' (drop used inp) (buf @ out) cap' = Some r" by blast
      then show ?thesis using Inr gi True
        by (subst gunzip_loop.simps) (simp add: z_codes)
    next
      case False
      then show ?thesis using Inr gi by (subst gunzip_loop.simps) simp
    qed
  qed
qed

text \<open>A zlib for evaluating the model: the stream is its own content, copied in pieces.\<close>

definition sample_zlib :: "unit zlib" where
  "sample_zlib =
     \<lparr>inflateInit2 = (\<lambda>_. (Z_OK, ())),
      inflate = (\<lambda>_ inp k. (if length inp \<le> k then Z_STREAM_END else if k = 0 then -5 else Z_OK,
                             min k (length inp), take k inp, ()))\<rparr>"

lemma sample_zlib_contract: "zlib_contract sample_zlib"
  by (auto simp: zlib_contract_def sample_zlib_def z_codes split: if_splits)

lemma gunzip_cases:
  assumes "zlib_contract Z" and "gz_len \<le> length gz"
  obtains r where "fota_gunzip Z alloc (Some gz) gz_len m True = Some r"
    and "case r of
      Inr out \<Rightarrow> length out \<le> m \<and>
        inflates Z (snd (inflateInit2 Z (16 + MAX_WBITS))) (take (gz_len mod 2 ^ 32) gz) out
    | Inl e \<Rightarrow> e \<in> {FOTA_INSTALL_ERR_INVALID_ARG, FOTA_INSTALL_ERR_DECOMPRESSED_TOO_LARGE,
                     FOTA_INSTALL_ERR_DECOMPRESS_FAILED}"
proof (cases "gz_len = 0 \<or> m = 0 \<or> fst (inflateInit2 Z (16 + MAX_WBITS)) \<noteq> Z_OK \<or>
    \<not> alloc Site_gunzip (if FOTA_GUNZIP_CHUNK < m then FOTA_GUNZIP_CHUNK else m)")
  case True
  have "unat (of_nat gz_len :: u32) \<le> length gz"
    using assms(2) unat_of_nat_u32_le [of gz_len] by (rule le_trans [rotated])
  with True have "fota_gunzip Z alloc (Some gz) gz_len m True = Some (Inl FOTA_INSTALL_ERR_INVALID_ARG) \<or>
      fota_gunzip Z alloc (Some gz) gz_len m True = Some (Inl FOTA_INSTALL_ERR_DECOMPRESS_FAILED)"
    by (cases "inflateInit2 Z (16 + MAX_WBITS)") (auto simp: fota_gunzip_def checked_access)
  then show ?thesis by (rule disjE) (erule that, simp)+
next
  case False
  let ?n = "unat (of_nat gz_len :: u32)" and ?st = "snd (inflateInit2 Z (16 + MAX_WBITS))"
  let ?cap = "if FOTA_GUNZIP_CHUNK < m then FOTA_GUNZIP_CHUNK else m"
  have n: "?n = gz_len mod 2 ^ 32" by (simp add: unat_of_nat)
  then have "?n \<le> length gz" using assms(2) by simp
  then have eq: "fota_gunzip Z alloc (Some gz) gz_len m True = gunzip_loop Z alloc m ?st (take ?n gz) [] ?cap"
    using False by (simp add: fota_gunzip_def checked_access case_prod_unfold Let_def)
  obtain r where r: "gunzip_loop Z alloc m ?st (take ?n gz) [] ?cap = Some r"
    using gunzip_loop_returns [OF assms(1), of "[]" ?cap m] by fastforce
  show ?thesis
    using gunzip_loop_sound [OF r] n eq r by (intro that) (auto split: sum.splits)
qed

subsection \<open>A complete stream\<close>

text \<open>
  \<open>decodes Z st inp out\<close>: the input is a complete stream for \<open>out\<close>.  Documented behaviour of \<open>inflate\<close> on one: whatever
  space it is given, it either ends the stream with all of the output, or fills the space and has the rest to go.
\<close>

inductive decodes :: "'z zlib \<Rightarrow> 'z \<Rightarrow> u8 list \<Rightarrow> u8 list \<Rightarrow> bool" for Z :: "'z zlib" where
  "(\<And>k. 0 < k \<Longrightarrow> \<exists>ret used o1 st'. inflate Z st inp k = (ret, used, o1, st') \<and> used \<le> length inp \<and>
      (ret = Z_STREAM_END \<and> o1 = out \<and> length out \<le> k \<or>
       ret = Z_OK \<and> length o1 = k \<and> (\<exists>o2. out = o1 @ o2 \<and> decodes Z st' (drop used inp) o2))) \<Longrightarrow>
   decodes Z st inp out"

lemma gunzip_grow_room:
  assumes "filled \<le> cap" and "cap \<le> m" and "0 < cap" and "\<forall>n. alloc Site_gunzip n"
  obtains "filled = m" "gunzip_grow alloc m filled cap = Inl FOTA_INSTALL_ERR_DECOMPRESSED_TOO_LARGE"
  | cap' where "gunzip_grow alloc m filled cap = Inr cap'" "filled < cap'" "cap' \<le> m"
proof (cases "filled = cap \<and> m \<le> cap")
  case True
  then show ?thesis using assms(2) by (intro that(1)) (simp_all add: gunzip_grow_def)
next
  case False
  then show ?thesis
    using assms by (intro that(2) [of "if filled = cap then min (cap * 2) m else cap"]) (auto simp: gunzip_grow_def Let_def)
qed

lemma gunzip_loop_decodes:
  assumes "decodes Z st inp out" and "length buf \<le> cap" and "cap \<le> m" and "0 < cap" and "m < 2 ^ 32"
    and "\<forall>n. alloc Site_gunzip n"
  shows "(length buf + length out < m \<longrightarrow> gunzip_loop Z alloc m st inp buf cap = Some (Inr (buf @ out))) \<and>
    (m < length buf + length out \<longrightarrow>
       gunzip_loop Z alloc m st inp buf cap = Some (Inl FOTA_INSTALL_ERR_DECOMPRESSED_TOO_LARGE))"
  using assms(1-4)
proof (induction arbitrary: buf cap)
  case (1 st inp out)
  show ?case
  proof (rule gunzip_grow_room [where alloc = alloc, OF "1.prems" assms(6)])
    assume "length buf = m"
      "gunzip_grow alloc m (length buf) cap = Inl FOTA_INSTALL_ERR_DECOMPRESSED_TOO_LARGE"
    then show ?thesis by (simp add: gunzip_loop.simps)
  next
    fix cap' assume grow: "gunzip_grow alloc m (length buf) cap = Inr cap'" and cap': "length buf < cap'" "cap' \<le> m"
    let ?k = "cap' - length buf"
    have k: "0 < ?k" "unat (of_nat ?k :: u32) = ?k" using cap' assms(5) by (simp_all add: unat_of_nat del: of_nat_diff)
    from "1.IH" [OF k(1)] obtain ret used o1 st' where
      i: "inflate Z st inp ?k = (ret, used, o1, st')" "used \<le> length inp" and
      cs: "ret = Z_STREAM_END \<and> o1 = out \<and> length out \<le> ?k \<or>
        ret = Z_OK \<and> length o1 = ?k \<and> (\<exists>o2. out = o1 @ o2 \<and> decodes Z st' (drop used inp) o2 \<and>
          (\<forall>x xa. length x \<le> xa \<longrightarrow> xa \<le> m \<longrightarrow> 0 < xa \<longrightarrow>
             (length x + length o2 < m \<longrightarrow> gunzip_loop Z alloc m st' (drop used inp) x xa = Some (Inr (x @ o2))) \<and>
             (m < length x + length o2 \<longrightarrow> gunzip_loop Z alloc m st' (drop used inp) x xa =
                Some (Inl FOTA_INSTALL_ERR_DECOMPRESSED_TOO_LARGE))))" by blast
    have gi: "gunzip_inflate Z st inp buf cap' = Some (ret, drop used inp, buf @ o1, ?k - length o1, st')"
      using i cs by (auto simp: gunzip_inflate_def k(2) simp del: of_nat_diff)
    from cs show ?thesis
    proof (elim disjE conjE exE)
      assume "ret = Z_STREAM_END" "o1 = out" "length out \<le> ?k"
      then show ?thesis using cap' by (simp add: gunzip_loop.simps [of _ _ _ st] grow gi z_codes)
    next
      fix o2 assume ok: "ret = Z_OK" "length o1 = ?k" "out = o1 @ o2"
        and IH: "\<forall>x xa. length x \<le> xa \<longrightarrow> xa \<le> m \<longrightarrow> 0 < xa \<longrightarrow>
             (length x + length o2 < m \<longrightarrow> gunzip_loop Z alloc m st' (drop used inp) x xa = Some (Inr (x @ o2))) \<and>
             (m < length x + length o2 \<longrightarrow> gunzip_loop Z alloc m st' (drop used inp) x xa =
                Some (Inl FOTA_INSTALL_ERR_DECOMPRESSED_TOO_LARGE))"
      have "gunzip_loop Z alloc m st inp buf cap = gunzip_loop Z alloc m st' (drop used inp) (buf @ o1) cap'"
        using ok(1,2) by (simp add: gunzip_loop.simps [of _ _ _ st] grow gi z_codes)
      then show ?thesis using IH [rule_format, of "buf @ o1" cap'] cap' ok(2,3) by simp
    qed
  qed
qed

lemma gunzip_decodes:
  assumes "inflateInit2 Z (16 + MAX_WBITS) = (Z_OK, st)" and "decodes Z st gz out"
    and "gz \<noteq> []" and "length gz < 2 ^ 32" and "0 < m" and "m < 2 ^ 32" and "\<forall>n. alloc Site_gunzip n"
  shows "length out < m \<Longrightarrow> fota_gunzip Z alloc (Some gz) (length gz) m True = Some (Inr out)"
    and "m < length out \<Longrightarrow>
      fota_gunzip Z alloc (Some gz) (length gz) m True = Some (Inl FOTA_INSTALL_ERR_DECOMPRESSED_TOO_LARGE)"
proof -
  let ?cap = "if FOTA_GUNZIP_CHUNK < m then FOTA_GUNZIP_CHUNK else m"
  have cap: "?cap \<le> m" "0 < ?cap" using assms(5) by (simp_all add: FOTA_GUNZIP_CHUNK_def)
  have "unat (of_nat (length gz) :: u32) = length gz" using assms(4) by (simp add: unat_of_nat)
  then have "fota_gunzip Z alloc (Some gz) (length gz) m True = gunzip_loop Z alloc m st gz [] ?cap"
    using assms(1,3,5,7) by (simp add: fota_gunzip_def checked_access Let_def)
  then show "length out < m \<Longrightarrow> fota_gunzip Z alloc (Some gz) (length gz) m True = Some (Inr out)"
    "m < length out \<Longrightarrow>
      fota_gunzip Z alloc (Some gz) (length gz) m True = Some (Inl FOTA_INSTALL_ERR_DECOMPRESSED_TOO_LARGE)"
    using gunzip_loop_decodes [where alloc = alloc and buf = "[]", OF assms(2) _ cap assms(6,7)] by simp_all
qed

lemma sample_decodes: "decodes sample_zlib () gz gz"
proof (induction "length gz" arbitrary: gz rule: less_induct)
  case less
  show ?case
  proof (rule decodes.intros)
    fix k :: nat assume "0 < k"
    then have "length (drop k gz) < length gz \<and> decodes sample_zlib () (drop k gz) (drop k gz)" if "\<not> length gz \<le> k"
      using that less [of "drop k gz"] by simp
    then show "\<exists>ret used o1 st'. inflate sample_zlib () gz k = (ret, used, o1, st') \<and> used \<le> length gz \<and>
      (ret = Z_STREAM_END \<and> o1 = gz \<and> length gz \<le> k \<or>
       ret = Z_OK \<and> length o1 = k \<and> (\<exists>o2. gz = o1 @ o2 \<and> decodes sample_zlib st' (drop used gz) o2))"
      using \<open>0 < k\<close> by (cases "length gz \<le> k") (auto simp: sample_zlib_def intro!: exI [of _ "drop k gz"])
  qed
qed

subsection \<open>Properties\<close>

text \<open>
  C21. Decompression always returns, never writes outside its buffer, and never hands out more than
  \<open>max_output_size\<close> bytes; what it hands out is exactly the output of a complete run of zlib over the input (its
  first \<open>gz_len mod 2 ^ 32\<close> bytes, since \<open>avail_in\<close> is an \<open>unsigned int\<close>).
\<close>

theorem gunzip_bounded_and_faithful:
  assumes "zlib_contract Z" and "gz_len \<le> length gz"
  shows "\<exists>r. fota_gunzip Z alloc (Some gz) gz_len m True = Some r \<and>
    (case r of
       Inr out \<Rightarrow> length out \<le> m \<and>
         inflates Z (snd (inflateInit2 Z (16 + MAX_WBITS))) (take (gz_len mod 2 ^ 32) gz) out
     | Inl e \<Rightarrow> e \<in> {FOTA_INSTALL_ERR_INVALID_ARG, FOTA_INSTALL_ERR_DECOMPRESSED_TOO_LARGE,
                      FOTA_INSTALL_ERR_DECOMPRESS_FAILED})"
  by (rule gunzip_cases [OF assms, where alloc = alloc and m = m]) (intro exI conjI)

theorem gunzip_bounded_and_faithful_witness:
  "\<exists>r. fota_gunzip sample_zlib unlimited (Some [1, 2, 3]) 3 2 True = Some r \<and>
    (case r of Inr out \<Rightarrow> length out \<le> 2 | Inl e \<Rightarrow> e \<noteq> FOTA_INSTALL_ERR_IO)"
proof -
  have "3 \<le> length [1, 2, 3 :: u8]" by simp
  from gunzip_bounded_and_faithful [OF sample_zlib_contract this, of unlimited 2]
  show ?thesis
    by (rule ex_forward) (rule conj_forward, assumption, auto split: sum.split_asm)
qed

text \<open>
  C22. The cap is exact: a complete gzip stream of less than 4 GiB that unpacks to fewer than \<open>max_output_size\<close> bytes is
  unpacked to exactly those bytes, in however many pieces zlib produces them, and one that unpacks to more is refused as too
  large, when the allocator grants the buffers.
\<close>

theorem gunzip_complete:
  assumes "inflateInit2 Z (16 + MAX_WBITS) = (Z_OK, st)" and "decodes Z st gz out"
    and "gz \<noteq> []" and "length gz < 2 ^ 32" and "0 < m" and "m < 2 ^ 32" and "\<forall>n. alloc Site_gunzip n"
    and "length out \<noteq> m"
  shows "fota_gunzip Z alloc (Some gz) (length gz) m True =
    Some (if length out < m then Inr out else Inl FOTA_INSTALL_ERR_DECOMPRESSED_TOO_LARGE)"
  using gunzip_decodes [where alloc = alloc, OF assms(1-7)] assms(8) by auto

theorem gunzip_complete_witness:
  "fota_gunzip sample_zlib unlimited (Some (replicate 100000 7)) 100000 1000000 True = Some (Inr (replicate 100000 7))"
  using gunzip_complete [of sample_zlib "()" "replicate 100000 7" "replicate 100000 7" 1000000 unlimited] sample_decodes
  by (simp add: sample_zlib_def)

end
