(* ===== verification/Fota_Tar.thy ===== *)
theory Fota_Tar
  imports Fota_Gunzip
begin

section \<open>The in-memory tar parser (installer.c)\<close>

text \<open>
  \<open>fota_tar_path_is_safe\<close>, the field readers and \<open>fota_tar_parse\<close> of \<open>consumer/src/installer.c\<close>.
  The width of \<open>size_t\<close> (and of \<open>unsigned long\<close>, the same on LP64 and ILP32) is the type parameter
  \<open>'s\<close>: sizes and offsets are \<open>'s word\<close>, so wrap-around is where the code has it.  The parser's loop is
  a \<^theory_text>\<open>partial_function\<close>, because on a 32-bit \<open>size_t\<close> it need not end.

  An entry's \<open>data\<close> pointer is an offset into the tar buffer; its \<open>path\<close> is the C string.
\<close>

subsection \<open>Path safety\<close>

function path_loop :: "u8 list \<Rightarrow> nat \<Rightarrow> nat \<Rightarrow> bool option" where
  "path_loop p i component_start = do {
     c \<leftarrow> rd p i;
     if c = slash \<or> c = 0 then do {
       is_dotdot \<leftarrow>
         (if i - component_start = 2 then do {
            a \<leftarrow> rd p component_start;
            if a = 46 then do { b \<leftarrow> rd p (component_start + 1); Some (b = 46) } else Some False
          } else Some False);
       if is_dotdot then Some False
       else if c = 0 then Some True
       else path_loop p (Suc i) (Suc i)
     }
     else path_loop p (Suc i) component_start
   }"
  by pat_completeness auto
termination
  by (relation "measure (\<lambda>(p, i, component_start). length p - i)") (auto simp: rd_eq_Some)

declare path_loop.simps [simp del]

text \<open>The argument is the buffer that holds the NUL-terminated path.\<close>

definition fota_tar_path_is_safe :: "u8 list option \<Rightarrow> bool option" where
  "fota_tar_path_is_safe path =
     (case path of
        None \<Rightarrow> Some False
      | Some p \<Rightarrow> do {
          c \<leftarrow> rd p 0;
          if c = 0 then Some False
          else if c = slash then Some False
          else path_loop p 0 0
        })"

subsection \<open>Header fields\<close>

definition FOTA_TAR_BLOCK_SIZE :: nat where "FOTA_TAR_BLOCK_SIZE = 512"

definition FOTA_TAR_TYPEFLAG_OFFSET :: nat where "FOTA_TAR_TYPEFLAG_OFFSET = 156"

definition FOTA_TAR_PREFIX_OFFSET :: nat where "FOTA_TAR_PREFIX_OFFSET = 345"

definition FOTA_TAR_PREFIX_SIZE :: nat where "FOTA_TAR_PREFIX_SIZE = 155"

definition FOTA_TAR_SIZE_OFFSET :: nat where "FOTA_TAR_SIZE_OFFSET = 124"

definition FOTA_TAR_SIZE_FIELD_SIZE :: nat where "FOTA_TAR_SIZE_FIELD_SIZE = 12"

definition FOTA_TAR_CHKSUM_OFFSET :: nat where "FOTA_TAR_CHKSUM_OFFSET = 148"

definition FOTA_TAR_CHKSUM_FIELD_SIZE :: nat where "FOTA_TAR_CHKSUM_FIELD_SIZE = 8"

definition FOTA_TAR_NAME_MAX :: nat where "FOTA_TAR_NAME_MAX = 100"

lemmas tar_sizes = FOTA_TAR_BLOCK_SIZE_def FOTA_TAR_TYPEFLAG_OFFSET_def FOTA_TAR_PREFIX_OFFSET_def
  FOTA_TAR_PREFIX_SIZE_def FOTA_TAR_SIZE_OFFSET_def FOTA_TAR_SIZE_FIELD_SIZE_def
  FOTA_TAR_CHKSUM_OFFSET_def FOTA_TAR_CHKSUM_FIELD_SIZE_def FOTA_TAR_NAME_MAX_def

function bounded_strlen :: "u8 list \<Rightarrow> nat \<Rightarrow> nat \<Rightarrow> nat option" where
  "bounded_strlen s max_len i =
     (if i < max_len then do {
        c \<leftarrow> rd s i;
        if c \<noteq> 0 then bounded_strlen s max_len (Suc i) else Some i
      } else Some i)"
  by pat_completeness auto
termination by (relation "measure (\<lambda>(s, max_len, i). max_len - i)") auto

function zero_loop :: "u8 list \<Rightarrow> nat \<Rightarrow> nat \<Rightarrow> bool option" where
  "zero_loop block len i =
     (if i < len then do {
        b \<leftarrow> rd block i;
        if b \<noteq> 0 then Some False else zero_loop block len (Suc i)
      } else Some True)"
  by pat_completeness auto
termination by (relation "measure (\<lambda>(block, len, i). len - i)") auto

definition is_all_zero :: "u8 list \<Rightarrow> nat \<Rightarrow> bool option" where
  "is_all_zero block len = zero_loop block len 0"

text \<open>
  \<open>parse_octal_field\<close>: the inner \<open>None\<close> is the return value -1.  The value is shifted and added to
  at the width of \<open>size_t\<close>.
\<close>

function octal_loop ::
    "u8 list \<Rightarrow> nat \<Rightarrow> nat \<Rightarrow> bool \<Rightarrow> 's::len word \<Rightarrow> 's word option option" where
  "octal_loop field field_len i seen_digit value =
     (if i < field_len then do {
        c \<leftarrow> rd field i;
        if c = 0 \<or> c = 32 then
          (if seen_digit then Some (Some value)
           else octal_loop field field_len (Suc i) seen_digit value)
        else if c < 48 \<or> c > 55 then Some None
        else octal_loop field field_len (Suc i) True (push_bit 3 value + ucast (c - 48))
      } else Some (if seen_digit then Some value else None))"
  by pat_completeness auto
termination
  by (relation "measure (\<lambda>(field, field_len, i, seen_digit, value). field_len - i)") auto

definition parse_octal_field :: "u8 list \<Rightarrow> nat \<Rightarrow> 's::len word option option" where
  "parse_octal_field field field_len = octal_loop field field_len 0 False 0"

function checksum_loop :: "u8 list \<Rightarrow> nat \<Rightarrow> 's::len word \<Rightarrow> 's word option" where
  "checksum_loop header i acc =
     (if i < FOTA_TAR_BLOCK_SIZE then
        if i \<ge> FOTA_TAR_CHKSUM_OFFSET \<and> i < FOTA_TAR_CHKSUM_OFFSET + FOTA_TAR_CHKSUM_FIELD_SIZE
        then checksum_loop header (Suc i) (acc + 32)
        else do {
          b \<leftarrow> rd header i;
          checksum_loop header (Suc i) (acc + ucast b)
        }
      else Some acc)"
  by pat_completeness auto
termination by (relation "measure (\<lambda>(header, i, acc). FOTA_TAR_BLOCK_SIZE - i)") auto

declare bounded_strlen.simps [simp del] zero_loop.simps [simp del] octal_loop.simps [simp del]
  checksum_loop.simps [simp del]

definition compute_header_checksum :: "u8 list \<Rightarrow> 's::len word option" where
  "compute_header_checksum header = checksum_loop header 0 0"

subsection \<open>Entries\<close>

datatype fota_tar_entry_type = FOTA_TAR_ENTRY_FILE | FOTA_TAR_ENTRY_DIRECTORY

record fota_tar_entry =
  path :: "u8 list"
  etype :: fota_tar_entry_type
  data_off :: nat
  esize :: nat

definition tar_entry_type :: "u8 \<Rightarrow> fota_tar_entry_type option" where
  "tar_entry_type typeflag =
     (if typeflag = 48 \<or> typeflag = 0 then Some FOTA_TAR_ENTRY_FILE
      else if typeflag = 53 then Some FOTA_TAR_ENTRY_DIRECTORY
      else None)"

text \<open>
  The checks of the loop body on one header block, in the code's order: checksum, name, prefix, path, type
  and size.  The result is the entry's path, type and size.
\<close>

definition tar_check_header ::
    "u8 list \<Rightarrow> (fota_install_result + u8 list \<times> fota_tar_entry_type \<times> 's::len word) option"
where
  "tar_check_header header = do {
     stored_chksum \<leftarrow> parse_octal_field (drop FOTA_TAR_CHKSUM_OFFSET header) FOTA_TAR_CHKSUM_FIELD_SIZE;
     chksum \<leftarrow> (compute_header_checksum header :: 's word option);
     if stored_chksum \<noteq> Some chksum then Some (Inl FOTA_INSTALL_ERR_MALFORMED_TAR)
     else do {
       raw \<leftarrow> rd_slice header 0 FOTA_TAR_NAME_MAX;
       let name0 = raw @ [0];
       name_len \<leftarrow> bounded_strlen name0 FOTA_TAR_NAME_MAX 0;
       name \<leftarrow> wr_slice name0 name_len [0];
       no_prefix \<leftarrow> is_all_zero (drop FOTA_TAR_PREFIX_OFFSET header) FOTA_TAR_PREFIX_SIZE;
       if \<not> no_prefix then Some (Inl FOTA_INSTALL_ERR_UNSUPPORTED_ENTRY)
       else do {
         safe \<leftarrow> fota_tar_path_is_safe (Some name);
         if \<not> safe then Some (Inl FOTA_INSTALL_ERR_UNSAFE_PATH)
         else do {
           typeflag \<leftarrow> rd header FOTA_TAR_TYPEFLAG_OFFSET;
           (case tar_entry_type typeflag of
              None \<Rightarrow> Some (Inl FOTA_INSTALL_ERR_UNSUPPORTED_ENTRY)
            | Some entry_type \<Rightarrow> do {
                entry_size \<leftarrow> parse_octal_field (drop FOTA_TAR_SIZE_OFFSET header) FOTA_TAR_SIZE_FIELD_SIZE;
                (case entry_size of
                   None \<Rightarrow> Some (Inl FOTA_INSTALL_ERR_MALFORMED_TAR)
                 | Some sz \<Rightarrow>
                     Some (Inr (take name_len name, entry_type,
                                if entry_type = FOTA_TAR_ENTRY_DIRECTORY then 0 else sz)))
              })
         }
       }
     }
   }"

text \<open>Where the data and the next header are; \<open>None\<close> when the range check rejects the entry.\<close>

definition tar_extent :: "'s::len word \<Rightarrow> 's word \<Rightarrow> 's word \<Rightarrow> ('s word \<times> 's word) option" where
  "tar_extent offset entry_size tar_len =
     (let data_blocks = (entry_size + of_nat FOTA_TAR_BLOCK_SIZE - 1) div of_nat FOTA_TAR_BLOCK_SIZE;
          data_offset = offset + of_nat FOTA_TAR_BLOCK_SIZE;
          next_offset = data_offset + data_blocks * of_nat FOTA_TAR_BLOCK_SIZE
      in if next_offset < offset \<or> next_offset > tar_len then None
         else Some (data_offset, next_offset))"

text \<open>
  The array of entries.  \<open>capacity\<close> and the byte count \<open>new_capacity * sizeof (*out->entries)\<close> are \<open>size_t\<close> and wrap.
  The struct holds \<open>char path[101]\<close>, an \<open>enum\<close>, a pointer and a \<open>size_t\<close>: 116 bytes on the usual 32-bit ABI, 128 on the
  64-bit one.  The block has as many bytes as the last \<open>realloc\<close> asked for, which the capacity determines;
  \<open>tar_slot\<close> is \<open>None\<close> when element \<open>n\<close> does not lie in it, that is, when the code writes out of bounds.
\<close>

definition sizeof_tar_entry :: "'s::len itself \<Rightarrow> nat" where
  "sizeof_tar_entry width = (if LENGTH('s) \<le> 32 then 116 else 128)"

definition entries_bytes :: "'s::len word \<Rightarrow> nat" where
  "entries_bytes capacity = unat (capacity * of_nat (sizeof_tar_entry TYPE('s)))"

definition tar_grow :: "allocator \<Rightarrow> 's::len word \<Rightarrow> 's word \<Rightarrow> 's word option" where
  "tar_grow alloc count capacity =
     (if count = capacity then
        let new_capacity = (if capacity = 0 then 16 else capacity * 2)
        in if \<not> alloc Site_tar_entries (entries_bytes new_capacity) then None else Some new_capacity
      else Some capacity)"

definition tar_slot :: "'s::len word \<Rightarrow> nat \<Rightarrow> unit option" where
  "tar_slot capacity n = (if Suc n * sizeof_tar_entry TYPE('s) \<le> entries_bytes capacity then Some () else None)"

partial_function (option) tar_loop ::
    "allocator \<Rightarrow> u8 list \<Rightarrow> 's::len word \<Rightarrow> 's word \<Rightarrow> fota_tar_entry list \<Rightarrow> 's word \<Rightarrow>
     (fota_install_result + fota_tar_entry list) option"
where
  "tar_loop alloc tar_data tar_len offset entries capacity =
     (if offset < tar_len then
        if tar_len - offset < of_nat FOTA_TAR_BLOCK_SIZE then Some (Inl FOTA_INSTALL_ERR_MALFORMED_TAR)
        else do {
          header \<leftarrow> rd_slice tar_data (unat offset) FOTA_TAR_BLOCK_SIZE;
          end_of_archive \<leftarrow> is_all_zero header FOTA_TAR_BLOCK_SIZE;
          if end_of_archive then Some (Inr entries)
          else do {
            r \<leftarrow> tar_check_header header;
            (case r of
               Inl e \<Rightarrow> Some (Inl e)
             | Inr (name, entry_type, entry_size) \<Rightarrow>
                 (case tar_extent offset entry_size tar_len of
                    None \<Rightarrow> Some (Inl FOTA_INSTALL_ERR_MALFORMED_TAR)
                  | Some (data_offset, next_offset) \<Rightarrow>
                      (case tar_grow alloc (of_nat (length entries)) capacity of
                         None \<Rightarrow> Some (Inl FOTA_INSTALL_ERR_IO)
                       | Some capacity' \<Rightarrow> do {
                           _ \<leftarrow> tar_slot capacity' (length entries);
                           tar_loop alloc tar_data tar_len next_offset
                             (entries @ [\<lparr>path = name, etype = entry_type,
                                          data_off = unat data_offset, esize = unat entry_size\<rparr>])
                             capacity'
                         })))
          }
        }
      else Some (Inl FOTA_INSTALL_ERR_MALFORMED_TAR))"

text \<open>
  The first argument only fixes the width of \<open>size_t\<close>.  \<open>out_ok\<close> says that \<open>out\<close> is not NULL; on an error
  \<open>*out\<close> is the empty list, since the code frees it.
\<close>

definition fota_tar_parse ::
    "'s::len itself \<Rightarrow> allocator \<Rightarrow> u8 list option \<Rightarrow> nat \<Rightarrow> bool \<Rightarrow>
     (fota_install_result + fota_tar_entry list) option"
where
  "fota_tar_parse width alloc tar_data tar_len out_ok =
     (case tar_data of
        None \<Rightarrow> Some (Inl FOTA_INSTALL_ERR_INVALID_ARG)
      | Some d \<Rightarrow>
          if \<not> out_ok then Some (Inl FOTA_INSTALL_ERR_INVALID_ARG)
          else tar_loop alloc d (of_nat tar_len :: 's word) 0 [] 0)"

subsection \<open>The field readers against specifications\<close>

text \<open>A safe path: not empty, not absolute, no component \<open>..\<close>.\<close>

definition safe_path :: "u8 list \<Rightarrow> bool" where
  "safe_path s \<longleftrightarrow> s \<noteq> [] \<and> hd s \<noteq> slash \<and> dotdot_comp \<notin> set (split_on slash s)"

lemma dotdot_seg:
  assumes "i \<le> length p" and "j \<le> i"
  shows "i - j = 2 \<and> p ! j = 46 \<and> p ! (j + 1) = 46 \<longleftrightarrow> seg p j i = dotdot_comp"
proof (cases "i - j = 2")
  case True
  then have "i = j + 2" by simp
  then have "seg p j i = [p ! j, p ! (j + 1)]" using assms by (simp add: seg_Cons)
  then show ?thesis using True by simp
next
  case False
  then have "length (seg p j i) \<noteq> length dotdot_comp" using assms by (simp add: length_seg)
  then show ?thesis using False by metis
qed

lemma path_loop_step:
  assumes "i < length p" and "j \<le> i"
  shows "path_loop p i j =
    (if p ! i = slash \<or> p ! i = 0 then
       if seg p j i = dotdot_comp then Some False
       else if p ! i = 0 then Some True else path_loop p (Suc i) (Suc i)
     else path_loop p (Suc i) j)"
proof (cases "i - j = 2")
  case True
  then have "j < length p" "Suc j < length p" using assms by simp_all
  then show ?thesis
    using assms True dotdot_seg [of i p j] by (auto simp: path_loop.simps [of p i j] rd_def)
next
  case False
  then have "seg p j i \<noteq> dotdot_comp" using assms dotdot_seg [of i p j] by auto
  then show ?thesis using assms False by (simp add: path_loop.simps [of p i j] rd_def)
qed

lemma path_loop_spec:
  assumes "p = s @ 0 # r" and "0 \<notin> set s" and "j \<le> i" and "i \<le> length s"
    and "slash \<notin> set (seg s j i)"
  shows "path_loop p i j = Some (dotdot_comp \<notin> set (split_on slash (drop j s)))"
  using assms(3-5)
proof (induction "length s - i" arbitrary: i j)
  case 0
  then have i: "i = length s" by simp
  have "seg p j i = drop j s" using i assms(1) 0 by (simp add: seg_def)
  moreover have "slash \<notin> set (drop j s)" using 0 i by (simp add: seg_def)
  ultimately show ?case
    using path_loop_step [of i p j] i 0 assms(1) by (auto simp: split_on_no_sep nth_append)
next
  case (Suc k)
  then have i: "i < length s" by simp
  have sp: "seg p j i = seg s j i" and pi: "p ! i = s ! i"
    using assms(1) i Suc.prems by (simp_all add: seg_def nth_append)
  have nz: "s ! i \<noteq> 0" using assms(2) i nth_mem by metis
  have cut: "drop j s = seg s j i @ s ! i # drop (Suc i) s"
    using i Suc.prems by (metis Cons_nth_drop_Suc append_take_drop_id drop_drop le_add_diff_inverse2 seg_def)
  show ?case
  proof (cases "s ! i = slash")
    case True
    then show ?thesis
      using path_loop_step [of i p j] sp pi nz cut Suc.prems Suc.hyps i assms(1)
      by (simp add: split_on_append_sep)
  next
    case False
    then show ?thesis
      using path_loop_step [of i p j] sp pi nz Suc.prems Suc.hyps(1) [of "Suc i" j] Suc.hyps(2) i assms(1)
      by (simp add: seg_snoc)
  qed
qed

lemma path_is_safe_eq:
  assumes "0 \<notin> set s"
  shows "fota_tar_path_is_safe (Some (s @ 0 # r)) = Some (safe_path s)"
proof (cases s)
  case Nil
  then show ?thesis by (simp add: fota_tar_path_is_safe_def rd_def safe_path_def)
next
  case (Cons a t)
  then show ?thesis
    using path_loop_spec [of "s @ 0 # r" s r 0 0] assms
    by (auto simp: fota_tar_path_is_safe_def rd_def safe_path_def)
qed

lemma bounded_strlen_cstr:
  "n \<le> length s \<Longrightarrow> bounded_strlen s n i = Some (i + length (cstr (drop i (take n s))))"
proof (induction s n i rule: bounded_strlen.induct)
  case (1 s n i)
  show ?case
  proof (cases "i < n")
    case True
    then have "drop i (take n s) = s ! i # drop (Suc i) (take n s)"
      using "1.prems" by (simp add: Cons_nth_drop_Suc [symmetric])
    then show ?thesis
      using True "1.prems" "1.IH" [OF True]
      by (auto simp: bounded_strlen.simps [of s n i] rd_def cstr_def)
  qed (simp add: bounded_strlen.simps [of s n i] cstr_def)
qed

definition all_zero :: "u8 list \<Rightarrow> bool" where
  "all_zero bs \<longleftrightarrow> (\<forall>b \<in> set bs. b = 0)"

lemma zero_loop_seg: "len \<le> length block \<Longrightarrow> zero_loop block len i = Some (all_zero (seg block i len))"
proof (induction block len i rule: zero_loop.induct)
  case (1 block len i)
  show ?case
  proof (cases "i < len")
    case True
    then show ?thesis
      using 1 seg_Cons [OF True "1.prems"]
      by (auto simp: zero_loop.simps [of block len i] rd_def all_zero_def)
  qed (simp add: zero_loop.simps [of block len i] seg_def all_zero_def)
qed

lemma is_all_zero_eq: "len \<le> length block \<Longrightarrow> is_all_zero block len = Some (all_zero (take len block))"
  by (simp add: is_all_zero_def zero_loop_seg seg_def)

text \<open>Octal fields: leading padding, then digits up to the next padding byte or the end.\<close>

abbreviation is_pad :: "u8 \<Rightarrow> bool" where "is_pad c \<equiv> c = 0 \<or> c = 32"

abbreviation is_octal :: "u8 \<Rightarrow> bool" where "is_octal c \<equiv> 48 \<le> c \<and> c \<le> 55"

definition oct_val :: "nat \<Rightarrow> u8 list \<Rightarrow> nat" where
  "oct_val v ds = foldl (\<lambda>v c. 8 * v + (unat c - 48)) v ds"

definition octal_spec :: "u8 list \<Rightarrow> nat option" where
  "octal_spec field =
     (let ds = takeWhile (\<lambda>c. \<not> is_pad c) (dropWhile is_pad field) in
      if ds = [] \<or> (\<exists>c \<in> set ds. \<not> is_octal c) then None else Some (oct_val 0 ds))"

fun octal_list :: "bool \<Rightarrow> 's::len word \<Rightarrow> u8 list \<Rightarrow> 's word option" where
  "octal_list seen v [] = (if seen then Some v else None)"
| "octal_list seen v (c # cs) =
     (if is_pad c then (if seen then Some v else octal_list seen v cs)
      else if is_octal c then octal_list True (push_bit 3 v + ucast (c - 48)) cs
      else None)"

lemma octal_loop_list:
  "len \<le> length field \<Longrightarrow> octal_loop field len i seen v = Some (octal_list seen v (seg field i len))"
proof (induction field len i seen v rule: octal_loop.induct)
  case (1 field len i seen v)
  show ?case
  proof (cases "i < len")
    case True
    then show ?thesis
      using 1 seg_Cons [OF True "1.prems"]
      by (auto simp: octal_loop.simps [of field len i] rd_def not_less dest: leD)
  qed (simp add: octal_loop.simps [of field len i] seg_def)
qed

lemma octal_step:
  assumes "is_octal c"
  shows "push_bit 3 (of_nat v) + ucast (c - 48) = (of_nat (8 * v + (unat c - 48)) :: 's::len word)"
proof -
  have "48 \<le> unat c" using assms by (simp add: word_le_nat_alt)
  moreover have "unat (c - 48) = unat c - 48" using assms by (simp add: unat_sub)
  then have "ucast (c - 48) = (of_nat (unat c - 48) :: 's word)" by (metis of_nat_unat)
  ultimately show ?thesis by (simp add: push_bit_eq_mult)
qed

lemma oct_val_Cons: "oct_val v (c # ds) = oct_val (8 * v + (unat c - 48)) ds"
  by (simp add: oct_val_def)

lemma octal_list_seen_step:
  assumes "is_octal c" and "\<not> is_pad c"
  shows "octal_list True (of_nat v :: 's::len word) (c # cs) = octal_list True (of_nat (8 * v + (unat c - 48))) cs"
  using assms octal_step [OF assms(1), of v, where 's = 's] by (simp only: octal_list.simps if_True if_False simp_thms)

lemma octal_list_seen:
  "octal_list True (of_nat v :: 's::len word) cs =
    (let ds = takeWhile (\<lambda>c. \<not> is_pad c) cs in
     if \<exists>c \<in> set ds. \<not> is_octal c then None else Some (of_nat (oct_val v ds)))"
proof (induction cs arbitrary: v)
  case (Cons c cs)
  show ?case
  proof (cases "is_octal c \<and> \<not> is_pad c")
    case True
    then have step: "octal_list True (of_nat v :: 's word) (c # cs)
        = octal_list True (of_nat (8 * v + (unat c - 48))) cs"
      using octal_list_seen_step by blast
    show ?thesis unfolding trans [OF step Cons] using True by (simp add: oct_val_Cons)
  qed (auto simp: Let_def oct_val_def)
qed (simp add: oct_val_def)

lemma octal_list_spec: "octal_list False 0 cs = map_option of_nat (octal_spec cs)"
proof (induction cs)
  case (Cons c cs)
  show ?case
  proof (cases "is_pad c")
    case pad: False
    show ?thesis
    proof (cases "is_octal c")
      case True
      have "push_bit 3 0 + ucast (c - 48) = (of_nat (unat c - 48) :: 'a word)"
        using octal_step [OF True, of 0, where 's = 'a] by simp
      then have "octal_list False (0 :: 'a word) (c # cs) = octal_list True (of_nat (unat c - 48)) cs"
        using True pad by (simp only: octal_list.simps if_True if_False simp_thms)
      then show ?thesis
        using True pad octal_list_seen [of "unat c - 48" cs, where 's = 'a]
        by (simp only: Let_def octal_spec_def) (simp add: oct_val_Cons)
    qed (use pad in \<open>auto simp: octal_spec_def Let_def\<close>)
  qed (use Cons in \<open>simp add: octal_spec_def\<close>)
qed (simp add: octal_spec_def)

lemma parse_octal_field_eq:
  "len \<le> length field \<Longrightarrow> parse_octal_field field len = Some (map_option of_nat (octal_spec (take len field)))"
  by (simp add: parse_octal_field_def octal_loop_list octal_list_spec seg_def)

lemma oct_val_bound:
  "\<forall>c \<in> set ds. is_octal c \<Longrightarrow> oct_val v ds < (v + 1) * 8 ^ length ds"
proof (induction ds arbitrary: v)
  case (Cons c ds)
  then have "unat c \<le> 55" by (simp add: word_le_nat_alt)
  then have "unat c - 48 \<le> 7" by simp
  then have "(8 * v + (unat c - 48) + 1) * 8 ^ length ds \<le> (8 * (v + 1)) * 8 ^ length ds"
    by (intro mult_right_mono) simp_all
  moreover have "oct_val (8 * v + (unat c - 48)) ds < (8 * v + (unat c - 48) + 1) * 8 ^ length ds"
    using Cons by simp
  ultimately have "oct_val (8 * v + (unat c - 48)) ds < (8 * (v + 1)) * 8 ^ length ds"
    by (rule order_less_le_trans [rotated])
  then show ?case by (simp add: oct_val_Cons algebra_simps)
qed (simp add: oct_val_def)

lemma octal_spec_bound:
  assumes "octal_spec field = Some v" shows "v < 8 ^ length field"
proof -
  let ?ds = "takeWhile (\<lambda>c. \<not> is_pad c) (dropWhile is_pad field)"
  have "v < 8 ^ length ?ds"
    using assms oct_val_bound [of ?ds 0] by (auto simp: octal_spec_def Let_def split: if_splits)
  also have "length ?ds \<le> length field"
    by (rule order_trans [OF length_takeWhile_le length_dropWhile_le])
  then have "(8 :: nat) ^ length ?ds \<le> 8 ^ length field" by (simp add: power_increasing)
  finally show ?thesis .
qed

text \<open>The checksum: the sum of the 512 bytes, the checksum field counted as spaces.\<close>

definition chk_byte :: "u8 list \<Rightarrow> nat \<Rightarrow> nat" where
  "chk_byte h i = (if 148 \<le> i \<and> i < 156 then 32 else unat (h ! i))"

definition chk_sum :: "u8 list \<Rightarrow> nat" where
  "chk_sum h = (\<Sum>i = 0..<512. chk_byte h i)"

lemma checksum_loop_sum:
  "512 \<le> length h \<Longrightarrow> checksum_loop h i acc = Some (acc + of_nat (\<Sum>k = i..<512. chk_byte h k))"
proof (induction "512 - i" arbitrary: i acc)
  case 0
  then show ?case by (simp add: checksum_loop.simps tar_sizes)
next
  case (Suc n)
  then have i: "i < 512" by simp
  then have "(\<Sum>k = i..<512. chk_byte h k) = chk_byte h i + (\<Sum>k = Suc i..<512. chk_byte h k)"
    by (simp add: sum.atLeast_Suc_lessThan)
  then show ?case
    using Suc.hyps(1) [of "Suc i"] Suc.hyps(2) Suc.prems i
    by (simp add: checksum_loop.simps [of h i] tar_sizes rd_def chk_byte_def add.assoc)
qed

lemma compute_header_checksum_eq:
  "512 \<le> length h \<Longrightarrow> compute_header_checksum h = Some (of_nat (chk_sum h))"
  by (simp add: compute_header_checksum_def checksum_loop_sum chk_sum_def)

lemma chk_sum_bound: "chk_sum h < 2 ^ 18"
proof -
  have "chk_byte h i \<le> 255" for i
    using unsigned_less [of "h ! i", where 'a = nat] by (simp add: chk_byte_def)
  then have "chk_sum h \<le> (\<Sum>i :: nat = 0..<512. 255)" unfolding chk_sum_def by (intro sum_mono)
  then show ?thesis by simp
qed

end
