(* ===== verification/Fota_Tar_Spec.thy ===== *)
theory Fota_Tar_Spec
  imports Fota_Tar
begin

section \<open>What the tar parser computes\<close>

text \<open>
  A reference description of \<open>fota_tar_parse\<close> over natural numbers (\<open>header_spec\<close>, \<open>tar_items\<close>), with no
  word, no capacity and no allocation; the proof that the code computes it whenever \<open>size_t\<close> has
  more than 36 bits (a size field is at most \<open>8 ^ 12 - 1 = 2 ^ 36 - 1\<close>); what every accepted archive satisfies; and
  what goes wrong on a 32-bit \<open>size_t\<close>.
\<close>

subsection \<open>Reference description\<close>

definition field :: "nat \<Rightarrow> nat \<Rightarrow> u8 list \<Rightarrow> u8 list" where
  "field off width h = take width (drop off h)"

definition header_spec :: "u8 list \<Rightarrow> fota_install_result + u8 list \<times> fota_tar_entry_type \<times> nat" where
  "header_spec h =
     (if octal_spec (field 148 8 h) \<noteq> Some (chk_sum h) then Inl FOTA_INSTALL_ERR_MALFORMED_TAR
      else if \<not> all_zero (field 345 155 h) then Inl FOTA_INSTALL_ERR_UNSUPPORTED_ENTRY
      else if \<not> safe_path (cstr (take 100 h)) then Inl FOTA_INSTALL_ERR_UNSAFE_PATH
      else case tar_entry_type (h ! 156) of
          None \<Rightarrow> Inl FOTA_INSTALL_ERR_UNSUPPORTED_ENTRY
        | Some ty \<Rightarrow>
            (case octal_spec (field 124 12 h) of
               None \<Rightarrow> Inl FOTA_INSTALL_ERR_MALFORMED_TAR
             | Some n \<Rightarrow> Inr (cstr (take 100 h), ty, if ty = FOTA_TAR_ENTRY_DIRECTORY then 0 else n)))"

text \<open>The size of a member with its header, its data rounded up to whole blocks.\<close>

definition member_span :: "nat \<Rightarrow> nat" where
  "member_span n = 512 + (n + 511) div 512 * 512"

lemma member_span_bounds: "512 + n \<le> member_span n" "member_span n \<le> n + 1023"
  by (simp_all add: member_span_def)

lemma member_span_dvd: "512 dvd member_span n"
  by (simp add: member_span_def)

function tar_items :: "u8 list \<Rightarrow> nat \<Rightarrow> fota_install_result + fota_tar_entry list" where
  "tar_items d off =
     (if length d < off + 512 then Inl FOTA_INSTALL_ERR_MALFORMED_TAR
      else if all_zero (field off 512 d) then Inr []
      else case header_spec (field off 512 d) of
          Inl e \<Rightarrow> Inl e
        | Inr (name, ty, n) \<Rightarrow>
            if length d < off + member_span n then Inl FOTA_INSTALL_ERR_MALFORMED_TAR
            else map_sum id ((#) \<lparr>path = name, etype = ty, data_off = off + 512, esize = n\<rparr>)
                   (tar_items d (off + member_span n)))"
  by pat_completeness auto
termination by (relation "measure (\<lambda>(d, off). length d - off)") (auto simp: member_span_def)

declare tar_items.simps [simp del]

subsection \<open>One header\<close>

lemma take_cstr: "take (length (cstr s)) s = cstr s"
  unfolding cstr_def by (metis takeWhile_dropWhile_id append_eq_conv_conj)

lemma of_nat_eq_small:
  assumes "a < 2 ^ LENGTH('s)" and "b < 2 ^ LENGTH('s)"
  shows "(of_nat a :: 's::len word) = of_nat b \<longleftrightarrow> a = b"
  using assms by (simp add: word_of_nat_eq_iff take_bit_nat_eq_self)

lemma octal_field_eq:
  assumes "off + n \<le> length h"
  shows "parse_octal_field (drop off h) n = Some (map_option of_nat (octal_spec (field off n h)))"
  using assms by (simp add: parse_octal_field_eq field_def)

lemma octal_field_bound: "octal_spec (field off n h) = Some v \<Longrightarrow> v < 8 ^ n"
  using octal_spec_bound [of "field off n h" v]
  by (simp add: field_def) (meson le_less_trans less_le_trans min.cobounded1 min.cobounded2 one_le_numeral power_increasing)

lemma tar_check_header_eq:
  assumes "length h = 512" and "24 \<le> LENGTH('s)"
  shows "tar_check_header h =
    Some (map_sum id (\<lambda>(name, ty, n). (name, ty, of_nat n :: 's::len word)) (header_spec h))"
proof -
  have le: "(2 :: nat) ^ 24 \<le> 2 ^ LENGTH('s)" using assms(2) by (intro power_increasing) simp_all
  have chk: "map_option of_nat (octal_spec (field 148 8 h)) = Some (of_nat (chk_sum h) :: 's word) \<longleftrightarrow>
      octal_spec (field 148 8 h) = Some (chk_sum h)"
  proof (cases "octal_spec (field 148 8 h)")
    case (Some v)
    then have "v < 2 ^ LENGTH('s)" using octal_field_bound [of 148 8 h v] le by simp
    moreover have "chk_sum h < 2 ^ LENGTH('s)" using chk_sum_bound [of h] le by simp
    ultimately show ?thesis using Some by (simp add: of_nat_eq_small)
  qed simp
  let ?raw = "take 100 h"
  have len: "bounded_strlen (?raw @ [0]) 100 0 = Some (length (cstr ?raw))"
    using assms(1) by (simp add: bounded_strlen_cstr)
  have cut: "take (length (cstr ?raw)) (?raw @ [0]) = cstr ?raw"
    using cstr_length_le [of ?raw] take_cstr [of ?raw] by (simp del: take_take length_take)
  define r where "r = drop (length (cstr ?raw) + 1) (?raw @ [0])"
  have "length (cstr ?raw) + length [0 :: u8] \<le> length (?raw @ [0])"
    using cstr_length_le [of ?raw] by simp
  then have name: "wr_slice (?raw @ [0]) (length (cstr ?raw)) [0] = Some (cstr ?raw @ 0 # r)"
    unfolding wr_slice_def r_def by (simp only: cut if_True append.simps list.size) simp
  have safe: "fota_tar_path_is_safe (Some (cstr ?raw @ 0 # r)) = Some (safe_path (cstr ?raw))"
    by (rule path_is_safe_eq [OF cstr_no_nul])
  have facts: "parse_octal_field (drop 148 h) 8 = Some (map_option of_nat (octal_spec (field 148 8 h)) :: 's word option)"
      "parse_octal_field (drop 124 h) 12 = Some (map_option of_nat (octal_spec (field 124 12 h)) :: 's word option)"
      "compute_header_checksum h = Some (of_nat (chk_sum h) :: 's word)"
      "rd_slice h 0 100 = Some ?raw"
      "is_all_zero (drop 345 h) 155 = Some (all_zero (field 345 155 h))"
      "rd h 156 = Some (h ! 156)"
    using assms(1) by (simp_all add: octal_field_eq compute_header_checksum_eq rd_slice_Some rd_Some
        is_all_zero_eq field_def)
  show ?thesis
    unfolding tar_check_header_def header_spec_def tar_sizes Let_def facts
      bind.bind_lunit len name safe chk
    by (simp add: len name safe split: option.split)
qed

lemma header_spec_Inr:
  assumes "header_spec h = Inr (name, ty, n)"
  shows "safe_path name \<and> 0 \<notin> set name \<and> length name \<le> 100 \<and> n < 2 ^ 36 \<and>
    (ty = FOTA_TAR_ENTRY_DIRECTORY \<longrightarrow> n = 0)"
  using assms octal_field_bound [of 124 12 h] cstr_no_nul [of "take 100 h"] cstr_length_le [of "take 100 h"]
  by (auto simp: header_spec_def split: if_splits option.splits)

subsection \<open>The range check\<close>

lemma tar_extent_eq:
  fixes off n len :: nat
  assumes "36 < LENGTH('s)" and "n < 2 ^ 36" and "len < 2 ^ LENGTH('s)" and "off + 512 \<le> len"
  shows "tar_extent (of_nat off :: 's::len word) (of_nat n) (of_nat len) =
    (if len < off + member_span n then None
     else Some (of_nat (off + 512), of_nat (off + member_span n)))"
proof -
  let ?W = "2 ^ LENGTH('s) :: nat" and ?B = "(n + 511) div 512 * 512 :: nat"
  have W: "2 ^ 37 \<le> ?W" using assms(1) by (intro power_increasing) simp_all
  have B: "?B \<le> 2 ^ 36" using assms(2) by simp
  have blocks: "(of_nat n + of_nat 512 - 1 :: 's word) div of_nat 512 = of_nat ((n + 511) div 512)"
  proof -
    have "(of_nat n + of_nat 512 - 1 :: 's word) = of_nat (n + 511)" by simp
    moreover have "unat (of_nat (n + 511) :: 's word) = n + 511" "unat (of_nat 512 :: 's word) = 512"
      using assms(2) W by (simp_all only: unat_of_nat) simp_all
    ultimately show ?thesis by (simp only: word_arith_nat_div)
  qed
  have next_eq: "(of_nat off + of_nat 512 :: 's word) + of_nat ((n + 511) div 512) * of_nat 512
      = of_nat (off + member_span n)"
    by (simp add: member_span_def)
  show ?thesis
  proof (cases "off + member_span n < ?W")
    case True
    then have "(of_nat len :: 's word) < of_nat (off + member_span n) \<longleftrightarrow> len < off + member_span n"
        "\<not> (of_nat (off + member_span n) :: 's word) < of_nat off"
      using assms by (simp_all add: word_less_nat_alt unat_of_nat del: of_nat_add)
    then show ?thesis
      unfolding tar_extent_def Let_def tar_sizes blocks next_eq by simp
  next
    case False
    have lt: "off + member_span n - ?W < off"
    proof -
      have "512 + ?B < ?W" using B W by (rule_tac le_less_trans [OF _ less_le_trans [of "2 ^ 36 + 513" "2 ^ 37"]]) simp_all
      then show ?thesis using False unfolding member_span_def by linarith
    qed
    then have lt': "off + member_span n - ?W < ?W" using assms by linarith
    have "unat (of_nat (off + member_span n) :: 's word) = off + member_span n - ?W"
      using False lt' by (simp add: unat_of_nat le_mod_geq del: of_nat_add)
    then have "(of_nat (off + member_span n) :: 's word) < of_nat off"
      using lt assms by (simp add: word_less_nat_alt unat_of_nat del: of_nat_add)
    then show ?thesis
      using False assms unfolding tar_extent_def Let_def tar_sizes blocks next_eq by simp
  qed
qed

subsection \<open>The whole parse\<close>

text \<open>
  The only other outcome of the code is the allocation failure, so the reference result and
  \<open>FOTA_INSTALL_ERR_IO\<close> are all there is.
\<close>

definition prefixed ::
    "fota_tar_entry list \<Rightarrow> fota_install_result + fota_tar_entry list \<Rightarrow> fota_install_result + fota_tar_entry list"
where
  "prefixed acc = map_sum id ((@) acc)"

lemma prefixed_simps [simp]: "prefixed acc (Inl e) = Inl e" "prefixed acc (Inr es) = Inr (acc @ es)"
  by (simp_all add: prefixed_def)

lemma prefixed_Cons: "prefixed acc (map_sum id ((#) e) r) = prefixed (acc @ [e]) r"
  by (cases r) simp_all

text \<open>
  The array of entries on a wide \<open>size_t\<close>: there is at least one header block of 512 bytes behind every entry, and the
  capacity stays below twice the number of entries, so neither the capacity nor the byte count wraps, and the block
  is always large enough.
\<close>

definition capacity_ok :: "'s::len word \<Rightarrow> nat \<Rightarrow> bool" where
  "capacity_ok cap n \<longleftrightarrow> n \<le> unat cap \<and> unat cap \<le> max 16 (2 * n)"

lemma capacity_ok_0 [simp]: "capacity_ok 0 0"
  by (simp add: capacity_ok_def)

lemma tar_grow_room:
  fixes cap :: "'s::len word"
  assumes width: "36 < LENGTH('s)" and "512 * n < 2 ^ LENGTH('s)" and "capacity_ok cap n"
    and "tar_grow alloc (of_nat n) cap = Some cap'"
  shows "tar_slot cap' n = Some () \<and> capacity_ok cap' (Suc n)"
proof -
  let ?W = "2 ^ LENGTH('s) :: nat"
  have "(2 :: nat) ^ 37 \<le> ?W" using width by (intro power_increasing) simp_all
  then have W: "137438953472 \<le> ?W" by simp
  have full: "of_nat n = cap \<longleftrightarrow> unat cap = n"
    using assms(2) by (auto simp: unat_of_nat word_unat_eq_iff)
  have u16: "unat (16 :: 's word) = 16" "unat (2 :: 's word) = 2" "unat (128 :: 's word) = 128"
    using W unat_of_nat [of 16, where 'a = 's] unat_of_nat [of 2, where 'a = 's] unat_of_nat [of 128, where 'a = 's]
    by simp_all
  have cap': "Suc n \<le> unat cap'" "unat cap' \<le> max 16 (2 * n)"
  proof -
    have dbl: "unat (cap * 2) = 2 * unat cap" if "unat cap = n"
      using that assms(2) u16(2) by (simp add: unat_word_ariths)
    have "Suc n \<le> unat cap' \<and> unat cap' \<le> max 16 (2 * n)"
    proof (cases "unat cap = n")
      case True
      then have "cap' = (if cap = 0 then 16 else cap * 2)"
        using assms(4) full by (simp add: tar_grow_def Let_def split: if_split_asm)
      moreover have "cap \<noteq> 0 \<Longrightarrow> 0 < unat cap" by (simp add: unat_gt_0)
      ultimately show ?thesis using True dbl [OF True] u16(1) by (cases "cap = 0") auto
    next
      case False
      then have "cap' = cap" using assms(4) full by (simp add: tar_grow_def)
      then show ?thesis using False assms(3) by (simp add: capacity_ok_def)
    qed
    then show "Suc n \<le> unat cap'" "unat cap' \<le> max 16 (2 * n)" by simp_all
  qed
  have "unat cap' * 128 < ?W" using cap'(2) assms(2) W by (simp add: max_def split: if_split_asm)
  then have "entries_bytes cap' = unat cap' * 128"
    using width u16(3) by (simp add: entries_bytes_def sizeof_tar_entry_def unat_word_ariths)
  then have "tar_slot cap' n = Some ()"
    using cap'(1) width by (simp add: tar_slot_def sizeof_tar_entry_def)
  then show ?thesis using cap' by (simp add: capacity_ok_def)
qed

lemma tar_loop_eq:
  fixes off :: nat
  assumes width: "36 < LENGTH('s)" and "length d < 2 ^ LENGTH('s)" and "off \<le> length d"
    and "512 * length acc \<le> off" and "capacity_ok cap (length acc)"
  shows "\<exists>r. tar_loop alloc d (of_nat (length d) :: 's::len word) (of_nat off) acc cap = Some r \<and>
    (r = prefixed acc (tar_items d off) \<or>
     r = Inl FOTA_INSTALL_ERR_IO \<and> (\<exists>n. \<not> alloc Site_tar_entries n))"
  using assms(2-5)
proof (induction d off arbitrary: acc cap rule: tar_items.induct)
  case (1 d off)
  let ?len = "of_nat (length d) :: 's word" and ?off = "of_nat off :: 's word"
  note loop = tar_loop.simps [of alloc d ?len ?off acc cap] and items = tar_items.simps [of d off]
  have u: "unat ?len = length d" "unat ?off = off"
    using "1.prems" by (simp_all add: unat_of_nat)
  have W: "(512 :: nat) < 2 ^ LENGTH('s)"
    using power_increasing [of 10 "LENGTH('s)" "2 :: nat"] width by simp
  have lt: "?off < ?len \<longleftrightarrow> off < length d" using u by (simp add: word_less_nat_alt)
  have short: "?len - ?off < of_nat 512 \<longleftrightarrow> length d < off + 512"
  proof -
    have "unat (?len - ?off) = length d - off" using u "1.prems" by (simp add: unat_sub word_le_nat_alt)
    moreover have "unat (of_nat 512 :: 's word) = 512" using W by (simp only: unat_of_nat mod_less)
    ultimately show ?thesis using "1.prems" by (simp only: word_less_nat_alt) linarith
  qed
  show ?case
  proof (cases "length d < off + 512")
    case True
    then show ?thesis unfolding loop items lt tar_sizes short by simp
  next
    case room: False
    let ?h = "field off 512 d"
    have h: "rd_slice d off 512 = Some ?h" "length ?h = 512" "off < length d"
      using room by (simp_all add: rd_slice_Some field_def)
    have z: "is_all_zero ?h 512 = Some (all_zero ?h)" using h by (simp add: is_all_zero_eq)
    have "24 \<le> LENGTH('s)" using width by simp
    note chk = tar_check_header_eq [OF h(2) this]
    note eqs = loop lt short u tar_sizes h(1) z chk bind.bind_lunit
    show ?thesis
    proof (cases "all_zero ?h \<or> (\<exists>e. header_spec ?h = Inl e)")
      case True
      then show ?thesis using room h(3) unfolding eqs items by auto
    next
      case False
      then obtain name ty n where hs: "header_spec ?h = Inr (name, ty, n)"
        by (cases "header_spec ?h") auto
      have n: "n < 2 ^ 36" using header_spec_Inr [OF hs] by simp
      have "(2 :: nat) ^ 36 \<le> 2 ^ LENGTH('s)" using width by (intro power_increasing) simp_all
      then have un: "unat (of_nat n :: 's word) = n" using n by (simp add: unat_of_nat)
      have udo: "unat (of_nat (off + 512) :: 's word) = off + 512"
        using room "1.prems" by (simp add: unat_of_nat del: of_nat_add)
      have ext: "tar_extent ?off (of_nat n) ?len =
          (if length d < off + member_span n then None
           else Some (of_nat (off + 512), of_nat (off + member_span n)))"
        using tar_extent_eq [OF width n "1.prems"(1), of off] room by simp
      let ?e = "\<lparr>path = name, etype = ty, data_off = off + 512, esize = n\<rparr>"
      show ?thesis
      proof (cases "length d < off + member_span n")
        case True
        then show ?thesis using room h(3) False hs unfolding eqs items by (simp add: ext)
      next
        case fits: False
        show ?thesis
        proof (cases "tar_grow alloc (of_nat (length acc)) cap")
          case None
          then show ?thesis
            using room h(3) False hs fits unfolding eqs items
            by (auto simp: ext tar_grow_def Let_def split: if_splits)
        next
          case (Some cap')
          have "512 * length acc < 2 ^ LENGTH('s)" using "1.prems" by linarith
          note grown = tar_grow_room [OF width this "1.prems"(4) Some]
          have span: "512 * length (acc @ [?e]) \<le> off + member_span n"
            using "1.prems"(3) member_span_bounds(1) [of n] by simp
          have cap': "capacity_ok cap' (length (acc @ [?e]))" using grown by simp
          have "tar_loop alloc d ?len ?off acc cap =
              tar_loop alloc d ?len (of_nat (off + member_span n)) (acc @ [?e]) cap'"
            using room h(3) False hs fits Some grown unfolding eqs by (simp add: ext un udo del: of_nat_add)
          moreover have "prefixed acc (tar_items d off) = prefixed (acc @ [?e]) (tar_items d (off + member_span n))"
            using room False hs fits unfolding items by (simp add: prefixed_Cons)
          moreover note "1.IH" [OF room _ hs refl refl fits "1.prems"(1) _ span cap']
          ultimately show ?thesis using False fits by simp
        qed
      qed
    qed
  qed
qed

subsection \<open>What an accepted archive satisfies\<close>

definition entry_ok :: "u8 list \<Rightarrow> fota_tar_entry \<Rightarrow> bool" where
  "entry_ok d e \<longleftrightarrow>
     data_off e + esize e \<le> length d \<and> 512 dvd data_off e \<and>
     safe_path (path e) \<and> 0 \<notin> set (path e) \<and> length (path e) \<le> 100 \<and>
     (etype e = FOTA_TAR_ENTRY_DIRECTORY \<longrightarrow> esize e = 0)"

definition wf_entries :: "u8 list \<Rightarrow> fota_tar_entry list \<Rightarrow> bool" where
  "wf_entries d es \<longleftrightarrow>
     (\<forall>e \<in> set es. entry_ok d e) \<and> sorted_wrt (\<lambda>a b. data_off a + esize a + 512 \<le> data_off b) es"

lemma tar_items_ok:
  assumes "tar_items d off = Inr es" and "512 dvd off"
  shows "wf_entries d es \<and> (\<forall>e \<in> set es. off + 512 \<le> data_off e)"
  using assms
proof (induction d off arbitrary: es rule: tar_items.induct)
  case (1 d off)
  note items = tar_items.simps [of d off]
  have room: "\<not> length d < off + 512" using "1.prems" unfolding items by (auto split: if_splits)
  show ?case
  proof (cases "all_zero (field off 512 d)")
    case True
    then show ?thesis using "1.prems" room unfolding items by (simp add: wf_entries_def)
  next
    case nz: False
    obtain name ty n where hs: "header_spec (field off 512 d) = Inr (name, ty, n)"
      using "1.prems"(1) room nz unfolding items by (auto split: sum.splits)
    have fits: "\<not> length d < off + member_span n"
      using "1.prems"(1) room nz hs unfolding items by (auto split: if_splits)
    let ?e = "\<lparr>path = name, etype = ty, data_off = off + 512, esize = n\<rparr>"
    obtain es' where es': "tar_items d (off + member_span n) = Inr es'" "es = ?e # es'"
      using "1.prems"(1) room nz hs fits unfolding items
      by (cases "tar_items d (off + member_span n)") simp_all
    have "512 dvd off + member_span n" using "1.prems"(2) member_span_dvd by (rule dvd_add)
    note IH = "1.IH" [OF room nz hs refl refl fits es'(1) this]
    have "entry_ok d ?e"
      using header_spec_Inr [OF hs] fits member_span_bounds(1) [of n] "1.prems"(2)
      by (simp add: entry_ok_def)
    moreover have "off + 512 + n + 512 \<le> data_off e" if "e \<in> set es'" for e
      using IH that member_span_bounds(1) [of n] by fastforce
    ultimately show ?thesis
      using IH es'(2) by (fastforce simp: wf_entries_def)
  qed
qed

text \<open>The bytes of an entry, and the content of the first regular file at a path.\<close>

definition entry_data :: "u8 list \<Rightarrow> fota_tar_entry \<Rightarrow> u8 list" where
  "entry_data d e = take (esize e) (drop (data_off e) d)"

text \<open>
  What the rest of the installer needs of a parser of archives: it returns, and it accepts only
  entries that lie in the buffer and have safe paths.
\<close>

locale archive_parser =
  fixes parse :: "allocator \<Rightarrow> u8 list \<Rightarrow> (fota_install_result + fota_tar_entry list) option"
    and fits :: "u8 list \<Rightarrow> bool"
  assumes returns: "fits d \<Longrightarrow> \<exists>r. parse alloc d = Some r"
    and accepted: "fits d \<Longrightarrow> parse alloc d = Some (Inr es) \<Longrightarrow> wf_entries d es"
begin

lemma data_readable:
  assumes "fits d" and "parse alloc d = Some (Inr es)" and "e \<in> set es"
  shows "rd_slice d (data_off e) (esize e) = Some (entry_data d e)"
  using accepted [OF assms(1,2)] assms(3) by (simp add: wf_entries_def entry_ok_def rd_slice_def entry_data_def)

lemma path_safe:
  assumes "fits d" and "parse alloc d = Some (Inr es)" and "e \<in> set es"
  shows "safe_path (path e)" "0 \<notin> set (path e)" "length (path e) \<le> 100"
  using accepted [OF assms(1,2)] assms(3) by (simp_all add: wf_entries_def entry_ok_def)

lemma disjoint_data:
  assumes "fits d" and "parse alloc d = Some (Inr es)" and "i < j" and "j < length es"
  shows "data_off (es ! i) + esize (es ! i) < data_off (es ! j)"
  using accepted [OF assms(1,2)] assms(3,4) sorted_wrt_nth_less [of _ es i j]
  by (fastforce simp: wf_entries_def)

end

lemma fota_tar_parse_cases:
  assumes "36 < LENGTH('s)" and "length d < 2 ^ LENGTH('s)"
  shows "\<exists>r. fota_tar_parse TYPE('s::len) alloc (Some d) (length d) True = Some r \<and>
    (r = tar_items d 0 \<or> r = Inl FOTA_INSTALL_ERR_IO \<and> (\<exists>n. \<not> alloc Site_tar_entries n))"
proof -
  have "prefixed [] r = r" for r by (cases r) simp_all
  then show ?thesis
    using tar_loop_eq [OF assms, of 0 "[]" 0 alloc] by (simp add: fota_tar_parse_def)
qed

interpretation tar: archive_parser
  "\<lambda>alloc d. fota_tar_parse TYPE('s::len) alloc (Some d) (length d) True"
  "\<lambda>d. 36 < LENGTH('s) \<and> length d < 2 ^ LENGTH('s)"
proof unfold_locales
  fix d :: "u8 list" and alloc
  assume "36 < LENGTH('s) \<and> length d < 2 ^ LENGTH('s)"
  then show "\<exists>r. fota_tar_parse TYPE('s) alloc (Some d) (length d) True = Some r"
    using fota_tar_parse_cases [of d, where 's = 's] by blast
next
  fix d :: "u8 list" and alloc es
  assume "36 < LENGTH('s) \<and> length d < 2 ^ LENGTH('s)"
    and "fota_tar_parse TYPE('s) alloc (Some d) (length d) True = Some (Inr es)"
  then have "tar_items d 0 = Inr es"
    using fota_tar_parse_cases [of d, where 's = 's] by (metis option.inject sum.distinct(1))
  then show "wf_entries d es" using tar_items_ok [of d 0 es] by simp
qed

subsection \<open>Two archives for a 32-bit size\<close>

text \<open>The checksum as two sums over the bytes around its field.\<close>

lemma chk_sum_list:
  assumes "length h = 512"
  shows "chk_sum h = sum_list (map unat (take 148 h)) + 256 + sum_list (map unat (drop 156 h))"
proof -
  have split: "chk_sum h = (\<Sum>i = 0..<148. chk_byte h i) + (\<Sum>i = 148..<156. chk_byte h i) + (\<Sum>i = 156..<512. chk_byte h i)"
    by (simp add: chk_sum_def sum.atLeastLessThan_concat)
  have "(\<Sum>i = 148..<156. chk_byte h i) = (\<Sum>i :: nat = 148..<156. 32)"
    by (rule sum.cong) (simp_all add: chk_byte_def)
  then have a: "(\<Sum>i = 148..<156. chk_byte h i) = 256" by simp
  have b: "(\<Sum>i = 0..<148. chk_byte h i) = sum_list (map unat (take 148 h))"
    using assms by (simp add: sum_list_sum_nth chk_byte_def cong: sum.cong_simp)
  have c: "(\<Sum>i = 156..<512. chk_byte h i) = sum_list (map unat (drop 156 h))"
  proof -
    have "(\<Sum>i = 156..<512. chk_byte h i) = (\<Sum>i = 0 + 156..<356 + 156. chk_byte h i)" by simp
    also have "\<dots> = (\<Sum>i = 0..<356. chk_byte h (i + 156))" by (rule sum.shift_bounds_nat_ivl)
    also have "\<dots> = sum_list (map unat (drop 156 h))"
      using assms by (simp add: sum_list_sum_nth chk_byte_def add.commute cong: sum.cong_simp)
    finally show ?thesis .
  qed
  show ?thesis unfolding split a b c ..
qed

text \<open>A header of one regular file \<open>a\<close> with the given size and checksum digits.\<close>

definition ilp32_header :: "string \<Rightarrow> string \<Rightarrow> u8 list" where
  "ilp32_header sz chk =
     ascii ''a'' @ replicate 123 0 @ ascii sz @ replicate 13 0 @ ascii chk @ [0, 32] @ ascii ''0'' @ replicate 355 0"

lemma ilp32_header_spec:
  assumes "length sz = 11" and "length chk = 6"
    and "octal_spec (ascii chk @ [0, 32]) = Some (401 + sum_list (map unat (ascii sz)))"
    and "octal_spec (ascii sz @ [0]) = Some n"
  shows "length (ilp32_header sz chk) = 512 \<and>
    header_spec (ilp32_header sz chk) = Inr (ascii ''a'', FOTA_TAR_ENTRY_FILE, n)"
proof -
  let ?h = "ilp32_header sz chk"
  have l: "length ?h = 512" using assms(1,2) by (simp add: ilp32_header_def ascii_def)
  have f: "field 148 8 ?h = ascii chk @ [0, 32]" "field 124 12 ?h = ascii sz @ [0]"
    "field 345 155 ?h = replicate 155 0"
    "take 100 ?h = ascii ''a'' @ replicate 99 0" "?h ! 156 = 48"
    "take 148 ?h = ascii ''a'' @ replicate 123 0 @ ascii sz @ replicate 13 0"
    "drop 156 ?h = ascii ''0'' @ replicate 355 0"
    using assms(1,2)
    by (simp_all add: field_def ilp32_header_def ascii_def take_Cons' drop_Cons' nth_append nth_Cons')
  have c: "chk_sum ?h = 401 + sum_list (map unat (ascii sz))"
    unfolding chk_sum_list [OF l] f by (simp add: ascii_def sum_list_replicate)
  have n: "cstr (ascii ''a'' @ replicate 99 0) = ascii ''a''"
    using cstr_append_nul [of "ascii ''a''" "replicate 98 0"] by (simp add: ascii_def flip: replicate_Suc)
  show ?thesis unfolding header_spec_def f c n assms(3,4)
    by (simp add: l all_zero_def safe_path_def ascii_def tar_entry_type_def)
qed

definition oob_archive :: "u8 list" where
  "oob_archive = ilp32_header ''37777777777'' ''001752'' @ replicate 512 0"

definition endless_archive :: "u8 list" where
  "endless_archive = ilp32_header ''37777777000'' ''001725''"

lemma oob_header: 
  "length (ilp32_header ''37777777777'' ''001752'') = 512"
  "header_spec (ilp32_header ''37777777777'' ''001752'') = Inr (ascii ''a'', FOTA_TAR_ENTRY_FILE, 4294967295)"
  by (simp_all add: ilp32_header_spec octal_spec_def ascii_def oct_val_def)

lemma endless_header: 
  "length endless_archive = 512"
  "header_spec endless_archive = Inr (ascii ''a'', FOTA_TAR_ENTRY_FILE, 4294966784)"
  by (simp_all add: endless_archive_def ilp32_header_spec octal_spec_def ascii_def oct_val_def)

lemma header_not_zero: "header_spec h = Inr x \<Longrightarrow> length h = 512 \<Longrightarrow> \<not> all_zero h"
proof
  assume h: "header_spec h = Inr x" and l: "length h = 512" and z: "all_zero h"
  then have "field 148 8 h = replicate 8 0" 
    by (intro replicate_eqI) (auto simp: field_def all_zero_def dest: in_set_takeD in_set_dropD)
  then have "octal_spec (field 148 8 h) = None" by (simp add: octal_spec_def)
  then show False using h by (simp add: header_spec_def)
qed

text \<open>The loop on the archive whose next offset is the current one: every round stores the same entry.\<close>

definition endless_entry :: fota_tar_entry where
  "endless_entry = \<lparr>path = ascii ''a'', etype = FOTA_TAR_ENTRY_FILE, data_off = 512, esize = 4294966784\<rparr>"

definition endless_entries :: "nat \<Rightarrow> fota_tar_entry list" where
  "endless_entries n = replicate n endless_entry"

lemma length_endless: "length (endless_entries n) = n"
  by (simp add: endless_entries_def)

lemma endless_snoc: "endless_entries n @ [endless_entry] = endless_entries (Suc n)"
  by (simp add: endless_entries_def replicate_append_same)

lemma endless_round:
  "rd_slice endless_archive 0 512 = Some endless_archive" "is_all_zero endless_archive 512 = Some False"
  "tar_check_header endless_archive = Some (Inr (ascii ''a'', FOTA_TAR_ENTRY_FILE, 4294966784 :: 32 word))"
  "tar_extent 0 4294966784 (512 :: 32 word) = Some (512, 0)"
proof -
  show "rd_slice endless_archive 0 512 = Some endless_archive" by (simp add: rd_slice_def endless_header)
  show "is_all_zero endless_archive 512 = Some False"
    using header_not_zero [OF endless_header(2,1)] by (simp add: is_all_zero_eq endless_header(1))
  show "tar_check_header endless_archive = Some (Inr (ascii ''a'', FOTA_TAR_ENTRY_FILE, 4294966784 :: 32 word))"
    using tar_check_header_eq [OF endless_header(1), where 's = 32] by (simp add: endless_header(2))
  show "tar_extent 0 4294966784 (512 :: 32 word) = Some (512, 0)" by (simp add: tar_extent_def tar_sizes)
qed

lemma endless_step:
  "tar_loop alloc endless_archive (512 :: 32 word) 0 es cap =
    (case tar_grow alloc (of_nat (length es)) cap of
       None \<Rightarrow> Some (Inl FOTA_INSTALL_ERR_IO)
     | Some cap' \<Rightarrow> do {
         _ \<leftarrow> tar_slot cap' (length es);
         tar_loop alloc endless_archive (512 :: 32 word) 0 (es @ [endless_entry]) cap'
       })"
proof -
  have "unat (512 :: 32 word) = 512" "unat (4294966784 :: 32 word) = 4294966784" by simp_all
  then show ?thesis
    by (subst tar_loop.simps) (simp add: tar_sizes endless_round endless_entry_def split: option.split)
qed

lemma endless_fails:
  assumes "fota_tar_parse TYPE(32) alloc (Some endless_archive) 512 True = Some r"
  shows "r = Inl FOTA_INSTALL_ERR_IO"
proof -
  have "tar_loop alloc endless_archive (512 :: 32 word) 0 [] 0 = Some r"
    using assms by (simp add: fota_tar_parse_def)
  then have "endless_archive = endless_archive \<longrightarrow> (512 :: 32 word) = 512 \<longrightarrow> (0 :: 32 word) = 0 \<longrightarrow> r = Inl FOTA_INSTALL_ERR_IO"
  proof (rule tar_loop.raw_induct [where P = "\<lambda>alloc d len off es cap r.
      d = endless_archive \<longrightarrow> len = (512 :: 32 word) \<longrightarrow> off = 0 \<longrightarrow> r = Inl FOTA_INSTALL_ERR_IO", rotated], intro impI)
    fix loop :: "allocator \<Rightarrow> u8 list \<Rightarrow> 32 word \<Rightarrow> 32 word \<Rightarrow> fota_tar_entry list \<Rightarrow> 32 word \<Rightarrow>
        (fota_install_result + fota_tar_entry list) option"
    fix alloc d and len off :: "32 word" and es cap r
    assume IH: "\<And>alloc d len off es cap r. loop alloc d len off es cap = Some r \<Longrightarrow>
        d = endless_archive \<longrightarrow> len = 512 \<longrightarrow> off = 0 \<longrightarrow> r = Inl FOTA_INSTALL_ERR_IO"
      and eq: "(if off < len then
        if len - off < of_nat FOTA_TAR_BLOCK_SIZE then Some (Inl FOTA_INSTALL_ERR_MALFORMED_TAR)
        else do {
          header \<leftarrow> rd_slice d (unat off) FOTA_TAR_BLOCK_SIZE;
          end_of_archive \<leftarrow> is_all_zero header FOTA_TAR_BLOCK_SIZE;
          if end_of_archive then Some (Inr es)
          else do {
            r \<leftarrow> tar_check_header header;
            (case r of
               Inl e \<Rightarrow> Some (Inl e)
             | Inr (name, entry_type, entry_size) \<Rightarrow>
                 (case tar_extent off entry_size len of
                    None \<Rightarrow> Some (Inl FOTA_INSTALL_ERR_MALFORMED_TAR)
                  | Some (data_offset, next_offset) \<Rightarrow>
                      (case tar_grow alloc (of_nat (length es)) cap of
                         None \<Rightarrow> Some (Inl FOTA_INSTALL_ERR_IO)
                       | Some capacity' \<Rightarrow> do {
                           _ \<leftarrow> tar_slot capacity' (length es);
                           loop alloc d len next_offset
                             (es @ [\<lparr>path = name, etype = entry_type,
                                     data_off = unat data_offset, esize = unat entry_size\<rparr>])
                             capacity'
                         })))
          }
        }
      else Some (Inl FOTA_INSTALL_ERR_MALFORMED_TAR)) = Some r"
      and at: "d = endless_archive" "len = 512" "off = 0"
    show "r = Inl FOTA_INSTALL_ERR_IO"
      using eq IH [of alloc endless_archive 512 0] unfolding at
      by (auto simp: tar_sizes endless_round split: option.split_asm Option.bind_split_asm)
  qed
  then show ?thesis by simp
qed

lemma entries_bytes_ilp32:
  assumes "c * 116 < 2 ^ 32" shows "entries_bytes (of_nat c :: 32 word) = c * 116"
proof -
  have "(of_nat c :: 32 word) * of_nat 116 = of_nat (c * 116)" by (simp only: of_nat_mult)
  moreover have "unat (of_nat (c * 116) :: 32 word) = c * 116"
    using assms by (simp only: unat_of_nat) simp
  ultimately show ?thesis by (simp add: entries_bytes_def sizeof_tar_entry_def)
qed

lemma endless_fill:
  assumes "k \<le> 25" and "n \<le> 2 ^ k"
  shows "tar_loop unlimited endless_archive (512 :: 32 word) 0 (endless_entries n) (of_nat (2 ^ k)) =
    tar_loop unlimited endless_archive (512 :: 32 word) 0 (endless_entries (2 ^ k)) (of_nat (2 ^ k))"
  using assms(2)
proof (induction "2 ^ k - n" arbitrary: n)
  case (Suc m)
  then have n: "n < 2 ^ k" by linarith
  have "(2 :: nat) ^ k \<le> 2 ^ 25" using assms(1) by (intro power_increasing) simp_all
  then have k: "(2 :: nat) ^ k \<le> 33554432" by simp
  have u: "unat (of_nat (2 ^ k) :: 32 word) = 2 ^ k" "unat (of_nat n :: 32 word) = n"
    using k n by (simp_all only: unat_of_nat) simp_all
  then have "(of_nat n :: 32 word) \<noteq> of_nat (2 ^ k)" using n by (metis less_irrefl)
  then have g: "tar_grow unlimited (of_nat n) (of_nat (2 ^ k) :: 32 word) = Some (of_nat (2 ^ k))"
    by (simp add: tar_grow_def)
  have "entries_bytes (of_nat (2 ^ k) :: 32 word) = 2 ^ k * 116"
    by (rule entries_bytes_ilp32) (use k in simp)
  then have sl: "tar_slot (of_nat (2 ^ k) :: 32 word) n = Some ()"
    using n by (simp add: tar_slot_def sizeof_tar_entry_def)
  show ?case
    unfolding endless_step [of _ "endless_entries n"] length_endless g option.case sl bind.bind_lunit endless_snoc
    by (rule Suc.hyps(1) [OF _ Suc_leI [OF n]]) (use Suc.hyps(2) in simp)
qed simp

lemma endless_reaches:
  assumes "4 \<le> k" and "k \<le> 25"
  shows "fota_tar_parse TYPE(32) unlimited (Some endless_archive) 512 True =
    tar_loop unlimited endless_archive (512 :: 32 word) 0 (endless_entries (2 ^ k)) (of_nat (2 ^ k))"
  using assms
proof (induction k rule: nat_induct_at_least)
  case base
  have "fota_tar_parse TYPE(32) unlimited (Some endless_archive) 512 True =
      tar_loop unlimited endless_archive (512 :: 32 word) 0 (endless_entries 0) 0"
    by (simp add: fota_tar_parse_def endless_entries_def)
  also have "\<dots> = tar_loop unlimited endless_archive (512 :: 32 word) 0 (endless_entries (Suc 0)) (of_nat (2 ^ 4))"
    unfolding endless_step [of _ "endless_entries 0"] length_endless endless_snoc
    by (simp add: tar_grow_def tar_slot_def entries_bytes_def sizeof_tar_entry_def)
  also have "\<dots> = tar_loop unlimited endless_archive (512 :: 32 word) 0 (endless_entries (2 ^ 4)) (of_nat (2 ^ 4))"
    by (rule endless_fill) simp_all
  finally show ?case .
next
  case (Suc k)
  have "(2 :: nat) ^ Suc k \<le> 2 ^ 25" using Suc.prems by (intro power_increasing) simp_all
  then have k: "(2 :: nat) ^ k \<le> 16777216" by simp
  have u: "unat (of_nat (2 ^ k) :: 32 word) = 2 ^ k" "unat (of_nat (2 ^ Suc k) :: 32 word) = 2 ^ Suc k"
    using k by (simp_all only: unat_of_nat) simp_all
  have ne: "(of_nat (2 ^ k) :: 32 word) \<noteq> 0" using u(1) by (metis power_not_zero unsigned_0 zero_neq_numeral)
  have g: "tar_grow unlimited (of_nat (2 ^ k)) (of_nat (2 ^ k) :: 32 word) = Some (of_nat (2 ^ Suc k))"
    using ne by (simp add: tar_grow_def mult.commute)
  have "entries_bytes (of_nat (2 ^ Suc k) :: 32 word) = 2 ^ Suc k * 116"
    by (rule entries_bytes_ilp32) (use k in simp)
  then have sl: "tar_slot (of_nat (2 ^ Suc k) :: 32 word) (2 ^ k) = Some ()"
    by (simp add: tar_slot_def sizeof_tar_entry_def)
  have "tar_loop unlimited endless_archive (512 :: 32 word) 0 (endless_entries (2 ^ k)) (of_nat (2 ^ k)) =
      tar_loop unlimited endless_archive (512 :: 32 word) 0 (endless_entries (Suc (2 ^ k))) (of_nat (2 ^ Suc k))"
    unfolding endless_step [of _ "endless_entries (2 ^ k)"] length_endless g option.case sl bind.bind_lunit endless_snoc ..
  also have "\<dots> = tar_loop unlimited endless_archive (512 :: 32 word) 0 (endless_entries (2 ^ Suc k)) (of_nat (2 ^ Suc k))"
    by (rule endless_fill) (use Suc.prems in simp_all)
  finally show ?case by (rule trans [OF Suc.IH [OF Suc_leD [OF Suc.prems]]])
qed

subsection \<open>Properties\<close>

text \<open>
  C35. The path check accepts exactly the non-empty relative paths none of whose slash-separated components
  is \<open>..\<close>, and reads nothing after the terminating NUL.
\<close>

theorem path_is_safe_spec:
  assumes "0 \<notin> set s"
  shows "fota_tar_path_is_safe (Some (s @ 0 # r)) =
    Some (s \<noteq> [] \<and> hd s \<noteq> slash \<and> dotdot_comp \<notin> set (split_on slash s))"
  using path_is_safe_eq [OF assms] by (simp add: safe_path_def)

theorem path_is_safe_spec_witness:
  "fota_tar_path_is_safe (Some (ascii ''a/../b'' @ 0 # [7])) = Some False"
  by (subst path_is_safe_spec) (simp_all add: ascii_def)

text \<open>
  An octal field is read inside its width: padding is skipped, the digits up to the next padding byte or the end
  of the field give the value at the width of \<open>size_t\<close>, and a field without digits or with another character
  is rejected.
\<close>

theorem octal_field_spec:
  assumes "n \<le> length s"
  shows "(parse_octal_field s n :: 's::len word option option) =
    (let ds = takeWhile (\<lambda>c. \<not> is_pad c) (dropWhile is_pad (take n s)) in
     Some (if ds = [] \<or> \<not> (\<forall>c \<in> set ds. 48 \<le> c \<and> c \<le> 55) then None
           else Some (of_nat (foldl (\<lambda>v c. 8 * v + (unat c - 48)) 0 ds))))"
  using parse_octal_field_eq [OF assms, where 'a = 's]
  by (simp add: octal_spec_def oct_val_def Let_def)

theorem octal_field_spec_witness:
  "(parse_octal_field (ascii '' 0017 9'') 6 :: 64 word option option) = Some (Some 15)"
  by (subst octal_field_spec) (simp_all add: ascii_def)

text \<open>
  C11. With a \<open>size_t\<close> of more than 36 bits \<open>fota_tar_parse\<close> returns for every input and every behaviour of the
  allocator; its result is that of the word-free description \<open>tar_items\<close>, unless an allocation failed and
  it reports \<open>FOTA_INSTALL_ERR_IO\<close>.
\<close>

theorem tar_parse_refines:
  assumes "36 < LENGTH('s)" and "length d < 2 ^ LENGTH('s)"
  shows "fota_tar_parse TYPE('s::len) alloc (Some d) (length d) True = Some (tar_items d 0) \<or>
    fota_tar_parse TYPE('s) alloc (Some d) (length d) True = Some (Inl FOTA_INSTALL_ERR_IO) \<and>
    (\<exists>n. \<not> alloc Site_tar_entries n)"
  using fota_tar_parse_cases [OF assms] by blast

theorem tar_parse_refines_witness:
  "fota_tar_parse TYPE(64) unlimited (Some oob_archive) 1024 True = Some (Inl FOTA_INSTALL_ERR_MALFORMED_TAR)"
proof -
  have len: "length oob_archive = 1024" by (simp add: oob_archive_def oob_header)
  have f: "field 0 512 oob_archive = ilp32_header ''37777777777'' ''001752''"
    by (simp add: field_def oob_archive_def oob_header)
  have "tar_items oob_archive 0 = Inl FOTA_INSTALL_ERR_MALFORMED_TAR"
    using header_not_zero [OF oob_header(2,1)]
    by (simp add: tar_items.simps [of _ 0] len f oob_header(2) member_span_def)
  then show ?thesis
    using tar_parse_refines [of oob_archive unlimited, where 's = 64] by (simp add: len)
qed

text \<open>
  C27. An accepted archive is safe to use: every entry's data lies in the tar buffer at a block boundary, behind the data
  of the entry before it and its own header; its path is a safe C string of at most 100 bytes; a directory
  has no data.
\<close>

theorem tar_parse_wf:
  assumes "36 < LENGTH('s)" and "length d < 2 ^ LENGTH('s)"
    and "fota_tar_parse TYPE('s::len) alloc (Some d) (length d) True = Some (Inr es)"
  shows "(\<forall>e \<in> set es. data_off e + esize e \<le> length d \<and> 512 dvd data_off e \<and>
      path e \<noteq> [] \<and> hd (path e) \<noteq> slash \<and> dotdot_comp \<notin> set (split_on slash (path e)) \<and>
      0 \<notin> set (path e) \<and> length (path e) \<le> 100 \<and>
      (etype e = FOTA_TAR_ENTRY_DIRECTORY \<longrightarrow> esize e = 0)) \<and>
    sorted_wrt (\<lambda>a b. data_off a + esize a + 512 \<le> data_off b) es"
  using tar.accepted [where 's = 's, OF _ assms(3)] assms(1,2)
  by (simp add: wf_entries_def entry_ok_def safe_path_def)

definition one_file_archive :: "u8 list" where
  "one_file_archive = ilp32_header ''00000000001'' ''001642'' @ 5 # replicate 1023 0"

lemma one_file_items:
  "length one_file_archive = 1536"
  "tar_items one_file_archive 0 =
    Inr [\<lparr>path = ascii ''a'', etype = FOTA_TAR_ENTRY_FILE, data_off = 512, esize = 1\<rparr>]"
proof -
  let ?h = "ilp32_header ''00000000001'' ''001642''"
  have h: "length ?h = 512" "header_spec ?h = Inr (ascii ''a'', FOTA_TAR_ENTRY_FILE, 1)"
    by (simp_all add: ilp32_header_spec octal_spec_def ascii_def oct_val_def)
  show len: "length one_file_archive = 1536" by (simp add: one_file_archive_def h(1))
  have f: "field 0 512 one_file_archive = ?h" "field 1024 512 one_file_archive = replicate 512 0"
    by (simp_all add: field_def one_file_archive_def h(1))
  show "tar_items one_file_archive 0 =
    Inr [\<lparr>path = ascii ''a'', etype = FOTA_TAR_ENTRY_FILE, data_off = 512, esize = 1\<rparr>]"
    using header_not_zero [OF h(2,1)]
    by (simp add: tar_items.simps [of _ 0] tar_items.simps [of _ 1024] len f h(2) member_span_def)
       (simp add: all_zero_def)
qed

theorem tar_parse_wf_witness:
  "\<exists>es. fota_tar_parse TYPE(64) unlimited (Some one_file_archive) 1536 True = Some (Inr es) \<and>
     length es = 1 \<and> (\<forall>e \<in> set es. data_off e + esize e \<le> 1536)"
proof -
  let ?es = "[\<lparr>path = ascii ''a'', etype = FOTA_TAR_ENTRY_FILE, data_off = 512, esize = 1\<rparr>]"
  have p: "fota_tar_parse TYPE(64) unlimited (Some one_file_archive) (length one_file_archive) True = Some (Inr ?es)"
    using fota_tar_parse_cases [of one_file_archive unlimited, where 's = 64]
    by (simp add: one_file_items)
  have "\<forall>e \<in> set ?es. data_off e + esize e \<le> 1536"
    using tar_parse_wf [OF _ _ p] by (simp add: one_file_items(1))
  then show ?thesis using p by (auto simp: one_file_items(1))
qed

text \<open>
  C39. On a 32-bit \<open>size_t\<close> the range check wraps: an archive of 1024 bytes is accepted with one entry that claims
  4294967295 bytes of data, and reading them leaves the buffer.
\<close>

theorem parse_ilp32_out_of_bounds:
  "length oob_archive = 1024 \<and>
   fota_tar_parse TYPE(32) unlimited (Some oob_archive) 1024 True =
     Some (Inr [\<lparr>path = ascii ''a'', etype = FOTA_TAR_ENTRY_FILE, data_off = 512, esize = 4294967295\<rparr>]) \<and>
   rd_slice oob_archive 512 4294967295 = None"
proof -
  let ?h = "ilp32_header ''37777777777'' ''001752''"
  have len: "length oob_archive = 1024" by (simp add: oob_archive_def oob_header)
  have h: "rd_slice oob_archive 0 512 = Some ?h" "rd_slice oob_archive 512 512 = Some (replicate 512 0)"
    by (simp_all add: rd_slice_def oob_archive_def oob_header)
  have z: "is_all_zero ?h 512 = Some False" "is_all_zero (replicate 512 0) 512 = Some True"
    using header_not_zero [OF oob_header(2,1)] by (simp_all add: is_all_zero_eq oob_header(1)) (simp add: all_zero_def)
  have c: "tar_check_header ?h = Some (Inr (ascii ''a'', FOTA_TAR_ENTRY_FILE, 4294967295 :: 32 word))"
    using tar_check_header_eq [OF oob_header(1), where 's = 32] by (simp add: oob_header(2))
  have x: "tar_extent 0 4294967295 (1024 :: 32 word) = Some (512, 512)"
    by (simp add: tar_extent_def tar_sizes)
  have second: "tar_loop unlimited oob_archive (1024 :: 32 word) 512 es cap = Some (Inr es)" for es cap
    by (simp add: tar_loop.simps tar_sizes h z)
  show ?thesis
    by (simp add: fota_tar_parse_def tar_loop.simps [of _ _ _ 0] tar_sizes h z c x tar_grow_def tar_slot_def entries_bytes_def
        sizeof_tar_entry_def second len)
       (simp add: rd_slice_def len)
qed

text \<open>
  C40. On a 32-bit \<open>size_t\<close> a size field just below 4 GiB makes the next offset equal to the current one, and the range
  check lets it pass: on this archive of one block the parser never succeeds and never reports a malformed
  archive.  Its loop stores the same entry again and again.  Either the allocator refuses the growing array and it
  reports an I/O error; or, when every request is granted, it reaches \<open>2 ^ 25\<close> entries, where the byte count of the
  doubled array wraps to 3489660928, too few for the entries already there, and the next entry is written out of bounds.
\<close>

theorem parse_ilp32_overruns_array:
  "length endless_archive = 512 \<and>
   fota_tar_parse TYPE(32) alloc (Some endless_archive) 512 True \<in> {None, Some (Inl FOTA_INSTALL_ERR_IO)} \<and>
   fota_tar_parse TYPE(32) unlimited (Some endless_archive) 512 True =
     tar_loop unlimited endless_archive (512 :: 32 word) 0 (endless_entries (2 ^ 25)) (of_nat (2 ^ 25)) \<and>
   tar_grow unlimited (of_nat (length (endless_entries (2 ^ 25)))) (of_nat (2 ^ 25) :: 32 word) = Some (of_nat (2 ^ 26)) \<and>
   entries_bytes (of_nat (2 ^ 26) :: 32 word) = 3489660928 \<and>
   tar_slot (of_nat (2 ^ 26) :: 32 word) (length (endless_entries (2 ^ 25))) = None \<and>
   fota_tar_parse TYPE(32) unlimited (Some endless_archive) 512 True = None"
proof -
  note reach = endless_reaches [of 25, simplified length_endless]
  have over: "tar_grow unlimited (of_nat (2 ^ 25)) (of_nat (2 ^ 25) :: 32 word) = Some (of_nat (2 ^ 26))"
    "entries_bytes (of_nat (2 ^ 26) :: 32 word) = 3489660928" "tar_slot (of_nat (2 ^ 26) :: 32 word) (2 ^ 25) = None"
    by (simp_all add: tar_grow_def tar_slot_def entries_bytes_def sizeof_tar_entry_def)
  have "tar_loop unlimited endless_archive (512 :: 32 word) 0 (endless_entries (2 ^ 25)) (of_nat (2 ^ 25)) = None"
    unfolding endless_step [of _ "endless_entries (2 ^ 25)"] length_endless over option.case by (simp only: bind.bind_lzero)
  moreover have "fota_tar_parse TYPE(32) alloc (Some endless_archive) 512 True \<in> {None, Some (Inl FOTA_INSTALL_ERR_IO)}"
    using endless_fails [of alloc] by (cases "fota_tar_parse TYPE(32) alloc (Some endless_archive) 512 True") auto
  ultimately show ?thesis using reach over endless_header(1) by (simp only: length_endless)
qed

end
