(* ===== verification/Fota_Tar_Writer.thy ===== *)
theory Fota_Tar_Writer
  imports Fota_Tar_Spec
begin

section \<open>The archive as the packager writes it\<close>

text \<open>
  The bytes that \<open>tarfile\<close> with \<open>format=USTAR_FORMAT\<close> writes for the regular files that \<open>stage_and_compress\<close>
  (packager/fota_secure/tarball.py) adds.  The fields the consumer does not look at (mode, owner, time, link name,
  magic, device numbers) are an argument, which gives them for each name.  A name of more than 100 bytes is split at a slash into
  the prefix and the name field, which the consumer refuses; otherwise the consumer's parser reads back the names,
  sizes and data.
\<close>

subsection \<open>Writing\<close>

fun oct_digits :: "nat \<Rightarrow> nat \<Rightarrow> u8 list" where
  "oct_digits 0 n = []"
| "oct_digits (Suc k) n = oct_digits k (n div 8) @ [48 + of_nat (n mod 8)]"

record ustar_meta =
  mode_uid_gid :: "u8 list"
  mtime :: "u8 list"
  link_to_devminor :: "u8 list"

definition wf_meta :: "ustar_meta \<Rightarrow> bool" where
  "wf_meta m \<longleftrightarrow> length (mode_uid_gid m) = 24 \<and> length (mtime m) = 12 \<and> length (link_to_devminor m) = 188"

definition ustar_before :: "ustar_meta \<Rightarrow> u8 list \<Rightarrow> nat \<Rightarrow> u8 list" where
  "ustar_before m name n =
     name @ replicate (100 - length name) 0 @ mode_uid_gid m @ oct_digits 11 n @ [0] @ mtime m"

definition ustar_after :: "ustar_meta \<Rightarrow> u8 list \<Rightarrow> u8 list" where
  "ustar_after m name_prefix = [48] @ link_to_devminor m @ name_prefix @ replicate (167 - length name_prefix) 0"

definition ustar_chksum :: "ustar_meta \<Rightarrow> u8 list \<Rightarrow> u8 list \<Rightarrow> nat \<Rightarrow> nat" where
  "ustar_chksum m name_prefix name n =
     sum_list (map unat (ustar_before m name n)) + 256 + sum_list (map unat (ustar_after m name_prefix))"

definition ustar_header :: "ustar_meta \<Rightarrow> u8 list \<Rightarrow> u8 list \<Rightarrow> nat \<Rightarrow> u8 list" where
  "ustar_header m name_prefix name n =
     ustar_before m name n @ oct_digits 6 (ustar_chksum m name_prefix name n) @ [0, 32] @ ustar_after m name_prefix"

definition tar_block :: "ustar_meta \<Rightarrow> u8 list \<Rightarrow> u8 list \<Rightarrow> u8 list \<Rightarrow> u8 list" where
  "tar_block m name_prefix name d =
     ustar_header m name_prefix name (length d) @ d @ replicate (member_span (length d) - 512 - length d) 0"

definition tar_member :: "(u8 list \<Rightarrow> ustar_meta) \<Rightarrow> u8 list \<times> u8 list \<Rightarrow> u8 list" where
  "tar_member m f = tar_block (m (fst f)) [] (fst f) (snd f)"

text \<open>The end of the archive: zero blocks up to the record size.\<close>

definition tar_image :: "(u8 list \<Rightarrow> ustar_meta) \<Rightarrow> (u8 list \<times> u8 list) list \<Rightarrow> nat \<Rightarrow> u8 list" where
  "tar_image m fs tail_len = concat (map (tar_member m) fs) @ replicate tail_len 0"

text \<open>A file the format can hold: a safe name of at most 100 bytes, and less than 8 GiB.\<close>

definition storable :: "u8 list \<times> u8 list \<Rightarrow> bool" where
  "storable f \<longleftrightarrow> safe_path (fst f) \<and> 0 \<notin> set (fst f) \<and> length (fst f) \<le> 100 \<and> length (snd f) < 8 ^ 11"

fun tar_entries_at :: "nat \<Rightarrow> (u8 list \<times> u8 list) list \<Rightarrow> fota_tar_entry list" where
  "tar_entries_at off [] = []"
| "tar_entries_at off (f # fs) =
     \<lparr>path = fst f, etype = FOTA_TAR_ENTRY_FILE, data_off = off + 512, esize = length (snd f)\<rparr>
     # tar_entries_at (off + member_span (length (snd f))) fs"

subsection \<open>Octal digits\<close>

lemma length_oct_digits [simp]: "length (oct_digits k n) = k"
  by (induction k arbitrary: n) simp_all

lemma oct_digit_props:
  assumes "r < 8"
  shows "is_octal (48 + of_nat r)" "unat (48 + of_nat r :: u8) = 48 + r" "\<not> is_pad (48 + of_nat r)"
proof -
  show u: "unat (48 + of_nat r :: u8) = 48 + r"
    using assms by (simp add: unat_word_ariths unat_of_nat)
  then show "is_octal (48 + of_nat r)" using assms by (simp add: word_le_nat_alt)
  show "\<not> is_pad (48 + of_nat r)"
    using arg_cong [of "48 + of_nat r :: u8" _ unat] u assms by fastforce
qed

lemma oct_digits_octal: "c \<in> set (oct_digits k n) \<Longrightarrow> is_octal c \<and> \<not> is_pad c"
  by (induction k arbitrary: n) (use oct_digit_props in auto)

lemma oct_val_append: "oct_val v (xs @ ys) = oct_val (oct_val v xs) ys"
  by (simp add: oct_val_def)

lemma oct_val_oct_digits: "oct_val 0 (oct_digits k n) = n mod 8 ^ k"
proof (induction k arbitrary: n)
  case (Suc k)
  have "unat (48 + of_nat (n mod 8) :: u8) - 48 = n mod 8" using oct_digit_props(2) [of "n mod 8"] by simp
  then have "oct_val 0 (oct_digits (Suc k) n) = 8 * (n div 8 mod 8 ^ k) + n mod 8"
    using Suc by (simp add: oct_val_append) (simp add: oct_val_def)
  also have "\<dots> = n mod 8 ^ Suc k" by (simp add: mod_mult2_eq)
  finally show ?case .
qed (simp add: oct_val_def)

lemma octal_spec_oct_digits:
  assumes "n < 8 ^ k" and "0 < k" and "is_pad c"
  shows "octal_spec (oct_digits k n @ c # r) = Some n"
proof -
  obtain d ds where ds: "oct_digits k n = d # ds" using assms(2) by (metis length_0_conv length_oct_digits list.exhaust less_irrefl)
  have d: "\<not> is_pad d" using oct_digits_octal [of d k n] ds by simp
  have "dropWhile is_pad (oct_digits k n @ c # r) = oct_digits k n @ c # r" using ds d by auto
  moreover have "takeWhile (\<lambda>c. \<not> is_pad c) (oct_digits k n @ c # r) = oct_digits k n"
    using oct_digits_octal [of _ k n] assms(3) by (subst takeWhile_append2) auto
  ultimately show ?thesis
    using oct_digits_octal [of _ k n] oct_val_oct_digits [of k n] assms(1) ds
    by (simp add: octal_spec_def Let_def)
qed

subsection \<open>One header\<close>

lemma sum_list_bytes_bound: "sum_list (map unat (bs :: u8 list)) \<le> 255 * length bs"
proof (induction bs)
  case (Cons b bs)
  have "unat b < 256" using unsigned_less [of b, where 'a = nat] by simp
  then show ?case using Cons by simp
qed simp

lemma ustar_lengths:
  assumes "wf_meta m" and "length name \<le> 100" and "length pre \<le> 155"
  shows "length (ustar_before m name n) = 148" "length (ustar_after m pre) = 356"
    "length (ustar_header m pre name n) = 512"
  using assms by (simp_all add: ustar_before_def ustar_after_def ustar_header_def wf_meta_def)

lemma ustar_header_chksum:
  assumes m: "wf_meta m" and "length name \<le> 100" and "length pre \<le> 155"
  shows "octal_spec (field 148 8 (ustar_header m pre name n)) = Some (chk_sum (ustar_header m pre name n))"
proof -
  let ?h = "ustar_header m pre name n"
  note len = ustar_lengths [OF assms]
  have b: "ustar_chksum m pre name n < 8 ^ 6"
    using sum_list_bytes_bound [of "ustar_before m name n"] sum_list_bytes_bound [of "ustar_after m pre"] len
    by (simp add: ustar_chksum_def)
  have "chk_sum ?h = ustar_chksum m pre name n"
    unfolding chk_sum_list [OF len(3)] using len by (simp add: ustar_header_def ustar_chksum_def)
  moreover have "field 148 8 ?h = oct_digits 6 (ustar_chksum m pre name n) @ 0 # [32]"
    using len by (simp add: field_def ustar_header_def)
  ultimately show ?thesis using octal_spec_oct_digits [OF b, of 0 "[32]"] by simp
qed

lemma ustar_header_prefix:
  assumes "wf_meta m" and "length name \<le> 100" and "length pre \<le> 155"
  shows "field 345 155 (ustar_header m pre name n) = pre @ replicate (155 - length pre) 0"
proof -
  have "length (ustar_before m name n @ oct_digits 6 (ustar_chksum m pre name n) @ [0, 32] @ [48] @ link_to_devminor m) = 345"
    using ustar_lengths [OF assms] assms(1) by (simp add: wf_meta_def)
  moreover have "ustar_header m pre name n =
      (ustar_before m name n @ oct_digits 6 (ustar_chksum m pre name n) @ [0, 32] @ [48] @ link_to_devminor m) @
      (pre @ replicate (167 - length pre) 0)"
    by (simp add: ustar_header_def ustar_after_def)
  moreover have "take 155 (pre @ replicate (167 - length pre) (0 :: u8)) = pre @ replicate (155 - length pre) 0"
    using assms(3) by (simp add: min_def)
  ultimately show ?thesis by (simp only: field_def append_eq_conv_conj drop_append) simp
qed

text \<open>A name that was split.\<close>

lemma ustar_header_split_name:
  assumes "wf_meta m" and "length name \<le> 100" and "length pre \<le> 155" and "\<exists>b \<in> set pre. b \<noteq> 0"
  shows "header_spec (ustar_header m pre name n) = Inl FOTA_INSTALL_ERR_UNSUPPORTED_ENTRY"
  using assms(4) ustar_header_chksum [OF assms(1-3)] ustar_header_prefix [OF assms(1-3)]
  by (auto simp: header_spec_def all_zero_def)

lemma ustar_header_spec:
  assumes m: "wf_meta m" and f: "storable (name, d)"
  shows "header_spec (ustar_header m [] name (length d)) = Inr (name, FOTA_TAR_ENTRY_FILE, length d)"
proof -
  let ?n = "length d" and ?h = "ustar_header m [] name (length d)"
  have name: "length name \<le> 100" "0 \<notin> set name" "safe_path name" "?n < 8 ^ 11"
    using f by (simp_all add: storable_def)
  have pre: "length ([] :: u8 list) \<le> 155" by simp
  note len = ustar_lengths [OF m name(1) pre]
  note chk = ustar_header_chksum [OF m name(1) pre, of ?n]
  have h1: "?h = name @ replicate (100 - length name) 0 @ mode_uid_gid m @ oct_digits 11 ?n @ [0] @ mtime m @
      oct_digits 6 (ustar_chksum m [] name ?n) @ [0, 32, 48] @ link_to_devminor m @ replicate 155 0 @ replicate 12 0"
    by (simp add: ustar_header_def ustar_before_def ustar_after_def replicate_add [symmetric])
  have size: "field 124 12 ?h = oct_digits 11 ?n @ 0 # []"
    unfolding h1 field_def using name(1) m by (simp add: wf_meta_def)
  have prefix: "field 345 155 ?h = replicate 155 0"
    using ustar_header_prefix [OF m name(1) pre] by simp
  have raw: "take 100 ?h = name @ replicate (100 - length name) 0"
    unfolding h1 using name(1) by simp
  have nm: "cstr (take 100 ?h) = name"
  proof (cases "length name = 100")
    case True
    then show ?thesis using raw cstr_id [OF name(2)] by simp
  next
    case False
    then obtain k where "100 - length name = Suc k" using name(1) by (cases "100 - length name") auto
    then show ?thesis using raw cstr_append_nul [OF name(2)] by simp
  qed
  have ty: "?h ! 156 = 48"
    using len(1) by (simp add: ustar_header_def nth_append ustar_after_def)
  show ?thesis
    unfolding header_spec_def nm size prefix ty
    using chk octal_spec_oct_digits [OF name(4), of 0 "[]"] name(3)
    by (simp add: all_zero_def tar_entry_type_def)
qed

subsection \<open>The whole archive\<close>

lemma length_tar_member:
  assumes "wf_meta (m (fst f))" and "storable f" shows "length (tar_member m f) = member_span (length (snd f))"
  using ustar_lengths(3) [OF assms(1), of "fst f" "[]"] assms(2) member_span_bounds(1) [of "length (snd f)"]
  by (simp add: tar_member_def tar_block_def storable_def)

lemma tar_items_member:
  assumes m: "\<forall>f. wf_meta (m f)" and st: "storable f"
  shows "tar_items (before @ tar_member m f @ rest) (length before) =
    map_sum id ((#) \<lparr>path = fst f, etype = FOTA_TAR_ENTRY_FILE, data_off = length before + 512, esize = length (snd f)\<rparr>)
      (tar_items ((before @ tar_member m f) @ rest) (length (before @ tar_member m f)))"
proof -
  obtain name d where f: "f = (name, d)" by fastforce
  let ?img = "before @ tar_member m f @ rest" and ?off = "length before"
  have hl: "length (ustar_header (m name) [] name (length d)) = 512"
    using ustar_lengths(3) [of "m name" name "[]"] m st by (simp add: storable_def f)
  have fld: "field ?off 512 ?img = ustar_header (m name) [] name (length d)"
    using hl by (simp add: field_def tar_member_def tar_block_def f)
  have hs: "header_spec (ustar_header (m name) [] name (length d)) = Inr (name, FOTA_TAR_ENTRY_FILE, length d)"
    using ustar_header_spec [OF spec [OF m]] st f by simp
  have ml: "length (tar_member m f) = member_span (length d)" using length_tar_member [of m f] m st f by simp
  have "\<not> length ?img < ?off + 512" "\<not> length ?img < ?off + member_span (length d)"
    using ml member_span_bounds(1) [of "length d"] by simp_all
  then show ?thesis using fld hs header_not_zero [OF hs hl] ml by (simp add: tar_items.simps [of _ ?off] f)
qed

lemma tar_items_image:
  assumes m: "\<forall>f. wf_meta (m f)" and "\<forall>f \<in> set fs. storable f" and tail: "512 \<le> tail_len"
  shows "tar_items (before @ tar_image m fs tail_len) (length before) = Inr (tar_entries_at (length before) fs)"
  using assms(2)
proof (induction fs arbitrary: before)
  case Nil
  have "all_zero (field (length before) 512 (before @ tar_image m [] tail_len))"
    using tail by (simp add: field_def tar_image_def all_zero_def)
  then show ?case using tail by (simp add: tar_items.simps [of _ "length before"] tar_image_def)
next
  case (Cons f fs)
  have "before @ tar_image m (f # fs) tail_len = before @ tar_member m f @ tar_image m fs tail_len"
    by (simp add: tar_image_def)
  then show ?case
    using tar_items_member [OF m, of f before "tar_image m fs tail_len"] Cons.IH [of "before @ tar_member m f"] Cons.prems
      length_tar_member [of m f] m
    by simp
qed

text \<open>A member whose name was split stops the parser.\<close>

lemma tar_items_split_name:
  assumes "wf_meta m" and "length name \<le> 100" and "length pre \<le> 155" and "\<exists>b \<in> set pre. b \<noteq> 0"
  shows "tar_items (before @ tar_block m pre name d @ rest) (length before) = Inl FOTA_INSTALL_ERR_UNSUPPORTED_ENTRY"
proof -
  let ?h = "ustar_header m pre name (length d)"
  have hl: "length ?h = 512" using ustar_lengths(3) [OF assms(1-3)] .
  have fld: "field (length before) 512 (before @ tar_block m pre name d @ rest) = ?h"
    using hl by (simp add: field_def tar_block_def)
  have "\<not> all_zero ?h"
  proof
    assume "all_zero ?h"
    then have "all_zero (field 345 155 ?h)" by (auto simp: all_zero_def field_def dest: in_set_takeD in_set_dropD)
    then show False using assms(4) ustar_header_prefix [OF assms(1-3)] by (auto simp: all_zero_def)
  qed
  moreover have "\<not> length (before @ tar_block m pre name d @ rest) < length before + 512"
    using hl by (simp add: tar_block_def)
  ultimately show ?thesis
    using fld ustar_header_split_name [OF assms] by (simp add: tar_items.simps [of _ "length before"])
qed

lemma tar_entries_at_data:
  assumes m: "\<forall>f. wf_meta (m f)" and "\<forall>f \<in> set fs. storable f"
  shows "map (\<lambda>e. (path e, entry_data (before @ tar_image m fs tail_len) e)) (tar_entries_at (length before) fs) = fs"
  using assms(2)
proof (induction fs arbitrary: before)
  case (Cons f fs)
  obtain name d where f: "f = (name, d)" by fastforce
  have st: "storable (name, d)" using Cons.prems f by simp
  have hl: "length (ustar_header (m name) [] name (length d)) = 512"
    using ustar_lengths(3) [of "m name" name "[]"] m st by (simp add: storable_def)
  have split: "before @ tar_image m (f # fs) tail_len = (before @ tar_member m f) @ tar_image m fs tail_len"
    by (simp add: tar_image_def)
  have nxt: "length (before @ tar_member m f) = length before + member_span (length d)"
    using length_tar_member [of m "(name, d)", OF spec [OF m] st] f by simp
  have "map (\<lambda>e. (path e, entry_data (before @ tar_image m (f # fs) tail_len) e))
      (tar_entries_at (length before + member_span (length d)) fs) = fs"
    using Cons.IH [of "before @ tar_member m f"] Cons.prems unfolding split nxt by simp
  moreover have "take (length d) (drop (length before + 512) (before @ tar_image m (f # fs) tail_len)) = d"
    using hl by (simp add: tar_image_def tar_member_def tar_block_def f)
  ultimately show ?case by (simp add: f entry_data_def)
qed simp

lemma tar_entries_at_props:
  "map path (tar_entries_at off fs) = map fst fs"
  "e \<in> set (tar_entries_at off fs) \<Longrightarrow> etype e = FOTA_TAR_ENTRY_FILE"
  by (induction fs arbitrary: off) auto

end
