(* ===== verification/Fota_Crypto.thy ===== *)
theory Fota_Crypto
  imports Fota_World
begin

section \<open>The libcrypto wrappers (fcrypto.c, fcrypto.h)\<close>

text \<open>
  The three operations of \<open>consumer/src/fcrypto.c\<close> and the two key loaders.  OpenSSL is not part of
  the repository: it is the record \<open>openssl\<close> of functions, one per libcrypto call the sources make, over
  one type \<open>'h\<close> of opaque handles (keys and contexts).  What the code relies on of libcrypto is stated by
  the three predicates at the end of the first subsection.
\<close>

subsection \<open>libcrypto as a parameter\<close>

datatype evp_md = EVP_sha256

datatype evp_cipher = EVP_aes_256_cbc

datatype rsa_padding = RSA_PKCS1_OAEP_PADDING | RSA_PKCS1_PADDING

record 'h openssl =
  PEM_read_PrivateKey :: "stream \<Rightarrow> 'h option"
  PEM_read_PUBKEY :: "stream \<Rightarrow> 'h option"
  EVP_PKEY_CTX_new :: "'h \<Rightarrow> 'h option"
  EVP_PKEY_decrypt_init :: "'h \<Rightarrow> int \<times> 'h"
  EVP_PKEY_CTX_set_rsa_padding :: "'h \<Rightarrow> rsa_padding \<Rightarrow> int \<times> 'h"
  EVP_PKEY_CTX_set_rsa_oaep_md :: "'h \<Rightarrow> evp_md \<Rightarrow> int \<times> 'h"
  EVP_PKEY_CTX_set_rsa_mgf1_md :: "'h \<Rightarrow> evp_md \<Rightarrow> int \<times> 'h"
  EVP_PKEY_decrypt_size :: "'h \<Rightarrow> u8 list \<Rightarrow> int \<times> nat \<times> 'h"
  EVP_PKEY_decrypt :: "'h \<Rightarrow> nat \<Rightarrow> u8 list \<Rightarrow> int \<times> u8 list \<times> 'h"
  EVP_MD_CTX_new :: "'h option"
  EVP_DigestVerifyInit :: "'h \<Rightarrow> evp_md \<Rightarrow> 'h \<Rightarrow> int \<times> 'h"
  EVP_DigestVerify :: "'h \<Rightarrow> u8 list \<Rightarrow> u8 list \<Rightarrow> int"
  EVP_CIPHER_CTX_new :: "'h option"
  EVP_DecryptInit_ex :: "'h \<Rightarrow> evp_cipher \<Rightarrow> u8 list \<Rightarrow> u8 list \<Rightarrow> int \<times> 'h"
  EVP_DecryptUpdate :: "'h \<Rightarrow> u8 list \<Rightarrow> int \<times> u8 list \<times> 'h"
  EVP_DecryptFinal_ex :: "'h \<Rightarrow> int \<times> u8 list \<times> 'h"
  EVP_Digest :: "u8 list \<Rightarrow> evp_md \<Rightarrow> int \<times> u8 list"

text \<open>
  Documented behaviour of libcrypto that the code relies on: a decryption writes at most the size it
  was told, the two halves of a CBC decryption together write at most one block more than the
  ciphertext, and a SHA-256 digest has 32 bytes.
\<close>

definition pkey_decrypt_contract :: "'h openssl \<Rightarrow> bool" where
  "pkey_decrypt_contract C \<longleftrightarrow>
     (\<forall>ctx cap inp. length (fst (snd (EVP_PKEY_decrypt C ctx cap inp))) \<le> cap)"

definition cipher_contract :: "'h openssl \<Rightarrow> bool" where
  "cipher_contract C \<longleftrightarrow>
     (\<forall>ctx ct. let (_, out1, ctx1) = EVP_DecryptUpdate C ctx ct;
                  (_, out2, _) = EVP_DecryptFinal_ex C ctx1
              in length out1 + length out2 \<le> length ct + 16)"

definition digest_contract :: "'h openssl \<Rightarrow> bool" where
  "digest_contract C \<longleftrightarrow>
     (\<forall>d. length (snd (EVP_Digest C d EVP_sha256)) \<le> 32 \<and>
          (fst (EVP_Digest C d EVP_sha256) = 1 \<longrightarrow> length (snd (EVP_Digest C d EVP_sha256)) = 32))"

subsection \<open>Constants, result codes, key loading\<close>

definition FOTA_AES_KEY_SIZE :: nat where "FOTA_AES_KEY_SIZE = 32"

definition FOTA_AES_IV_SIZE :: nat where "FOTA_AES_IV_SIZE = 16"

definition INT32_MAX :: nat where "INT32_MAX = 2147483647"

lemmas crypto_sizes = FOTA_AES_KEY_SIZE_def FOTA_AES_IV_SIZE_def INT32_MAX_def

datatype fota_crypto_result =
    FOTA_CRYPTO_OK
  | FOTA_CRYPTO_ERR_INVALID_ARG
  | FOTA_CRYPTO_ERR_UNWRAP_FAILED
  | FOTA_CRYPTO_ERR_VERIFY_FAILED
  | FOTA_CRYPTO_ERR_DECRYPT_FAILED

definition fota_load_private_key :: "'h openssl \<Rightarrow> world \<Rightarrow> u8 list option \<Rightarrow> 'h option" where
  "fota_load_private_key C w path =
     (case path of
        None \<Rightarrow> None
      | Some p \<Rightarrow>
          (case fopen_rb w p of None \<Rightarrow> None | Some fp \<Rightarrow> PEM_read_PrivateKey C fp))"

definition fota_load_public_key :: "'h openssl \<Rightarrow> world \<Rightarrow> u8 list option \<Rightarrow> 'h option" where
  "fota_load_public_key C w path =
     (case path of
        None \<Rightarrow> None
      | Some p \<Rightarrow>
          (case fopen_rb w p of None \<Rightarrow> None | Some fp \<Rightarrow> PEM_read_PUBKEY C fp))"

subsection \<open>Key unwrap\<close>

text \<open>
  The four set-up calls joined by \<open>&&\<close>: the context is ready when all of them return 1.
\<close>

definition oaep_setup :: "'h openssl \<Rightarrow> 'h \<Rightarrow> 'h option" where
  "oaep_setup C ctx =
     (let (r1, c1) = EVP_PKEY_decrypt_init C ctx in
      if r1 \<noteq> 1 then None
      else let (r2, c2) = EVP_PKEY_CTX_set_rsa_padding C c1 RSA_PKCS1_OAEP_PADDING in
      if r2 \<noteq> 1 then None
      else let (r3, c3) = EVP_PKEY_CTX_set_rsa_oaep_md C c2 EVP_sha256 in
      if r3 \<noteq> 1 then None
      else let (r4, c4) = EVP_PKEY_CTX_set_rsa_mgf1_md C c3 EVP_sha256 in
      if r4 \<noteq> 1 then None else Some c4)"

text \<open>
  The result is the code, \<open>out_key\<close> and \<open>*out_key_len\<close> afterwards.  NULL pointers are \<open>None\<close>;
  \<open>*out_key_len\<close> is the capacity on entry.
\<close>

definition fota_unwrap_key ::
    "'h openssl \<Rightarrow> allocator \<Rightarrow> 'h option \<Rightarrow> u8 list option \<Rightarrow> nat \<Rightarrow> u8 list option \<Rightarrow> nat option \<Rightarrow>
     (fota_crypto_result \<times> u8 list option \<times> nat option) option"
where
  "fota_unwrap_key C alloc device_private_key wrapped_key wrapped_key_len out_key out_key_len =
     (case (device_private_key, wrapped_key, out_key, out_key_len) of
        (Some key, Some wk, Some out, Some cap) \<Rightarrow>
          (case EVP_PKEY_CTX_new C key of
             None \<Rightarrow> Some (FOTA_CRYPTO_ERR_UNWRAP_FAILED, out_key, out_key_len)
           | Some ctx \<Rightarrow>
               (case oaep_setup C ctx of
                  None \<Rightarrow> Some (FOTA_CRYPTO_ERR_UNWRAP_FAILED, out_key, out_key_len)
                | Some ctx1 \<Rightarrow> do {
                    inp \<leftarrow> rd_slice wk 0 wrapped_key_len;
                    let (rq, required_len, ctx2) = EVP_PKEY_decrypt_size C ctx1 inp;
                    if rq \<noteq> 1 \<or> \<not> alloc Site_unwrap_tmp required_len
                    then Some (FOTA_CRYPTO_ERR_UNWRAP_FAILED, out_key, out_key_len)
                    else do {
                      let (rc, tmp, _) = EVP_PKEY_decrypt C ctx2 required_len inp;
                      if required_len < length tmp then None
                      else if rc = 1 \<and> length tmp \<le> cap then do {
                        out' \<leftarrow> wr_slice out 0 tmp;
                        Some (FOTA_CRYPTO_OK, Some out', Some (length tmp))
                      }
                      else Some (FOTA_CRYPTO_ERR_UNWRAP_FAILED, out_key, out_key_len)
                    }
                  }))
      | _ \<Rightarrow> Some (FOTA_CRYPTO_ERR_INVALID_ARG, out_key, out_key_len))"

subsection \<open>Signature verification\<close>

definition fota_verify_signature ::
    "'h openssl \<Rightarrow> 'h option \<Rightarrow> u8 list option \<Rightarrow> nat \<Rightarrow> u8 list option \<Rightarrow> nat \<Rightarrow> fota_crypto_result option"
where
  "fota_verify_signature C signing_public_key data data_len signature signature_len =
     (case (signing_public_key, data, signature) of
        (Some key, Some d, Some sig) \<Rightarrow>
          (case EVP_MD_CTX_new C of
             None \<Rightarrow> Some FOTA_CRYPTO_ERR_VERIFY_FAILED
           | Some mdctx \<Rightarrow>
               let (r, mdctx1) = EVP_DigestVerifyInit C mdctx EVP_sha256 key in
               if r \<noteq> 1 then Some FOTA_CRYPTO_ERR_VERIFY_FAILED
               else do {
                 s \<leftarrow> rd_slice sig 0 signature_len;
                 m \<leftarrow> rd_slice d 0 data_len;
                 Some (if EVP_DigestVerify C mdctx1 s m = 1 then FOTA_CRYPTO_OK
                       else FOTA_CRYPTO_ERR_VERIFY_FAILED)
               })
      | _ \<Rightarrow> Some FOTA_CRYPTO_ERR_INVALID_ARG)"

subsection \<open>Payload decryption\<close>

text \<open>The result is the code, the contents of \<open>plaintext_out\<close> and \<open>*plaintext_out_len\<close> afterwards.\<close>

definition fota_decrypt_payload ::
    "'h openssl \<Rightarrow> u8 list option \<Rightarrow> nat \<Rightarrow> u8 list option \<Rightarrow> nat \<Rightarrow> u8 list option \<Rightarrow> nat \<Rightarrow>
     u8 list option \<Rightarrow> nat option \<Rightarrow> (fota_crypto_result \<times> u8 list option \<times> nat option) option"
where
  "fota_decrypt_payload C key key_len vec iv_len ciphertext ciphertext_len plaintext_out plaintext_out_len =
     (case (key, vec, ciphertext, plaintext_out, plaintext_out_len) of
        (Some k, Some v, Some ct, Some out, Some _) \<Rightarrow>
          if key_len \<noteq> FOTA_AES_KEY_SIZE \<or> iv_len \<noteq> FOTA_AES_IV_SIZE
             \<or> ciphertext_len = 0 \<or> ciphertext_len > INT32_MAX
          then Some (FOTA_CRYPTO_ERR_INVALID_ARG, plaintext_out, plaintext_out_len)
          else (case EVP_CIPHER_CTX_new C of
             None \<Rightarrow> Some (FOTA_CRYPTO_ERR_DECRYPT_FAILED, plaintext_out, plaintext_out_len)
           | Some ctx \<Rightarrow> do {
               kb \<leftarrow> rd_slice k 0 FOTA_AES_KEY_SIZE;
               vb \<leftarrow> rd_slice v 0 FOTA_AES_IV_SIZE;
               let (r1, ctx1) = EVP_DecryptInit_ex C ctx EVP_aes_256_cbc kb vb;
               if r1 \<noteq> 1 then Some (FOTA_CRYPTO_ERR_DECRYPT_FAILED, plaintext_out, plaintext_out_len)
               else do {
                 inp \<leftarrow> rd_slice ct 0 ciphertext_len;
                 let (r2, up, ctx2) = EVP_DecryptUpdate C ctx1 inp;
                 out1 \<leftarrow> wr_slice out 0 up;
                 if r2 \<noteq> 1 then Some (FOTA_CRYPTO_ERR_DECRYPT_FAILED, Some out1, plaintext_out_len)
                 else do {
                   let (r3, fin, _) = EVP_DecryptFinal_ex C ctx2;
                   out2 \<leftarrow> wr_slice out1 (length up) fin;
                   if r3 \<noteq> 1 then Some (FOTA_CRYPTO_ERR_DECRYPT_FAILED, Some out2, plaintext_out_len)
                   else Some (FOTA_CRYPTO_OK, Some out2, Some (length up + length fin))
                 }
               }
             })
      | _ \<Rightarrow> Some (FOTA_CRYPTO_ERR_INVALID_ARG, plaintext_out, plaintext_out_len))"

subsection \<open>What the wrappers compute, without buffers\<close>

text \<open>
  The three operations as the rest of the program sees them: the outcome of the libcrypto calls on
  byte strings.
\<close>

definition signature_valid :: "'h openssl \<Rightarrow> 'h \<Rightarrow> u8 list \<Rightarrow> u8 list \<Rightarrow> bool" where
  "signature_valid C key message sig \<longleftrightarrow>
     (case EVP_MD_CTX_new C of
        None \<Rightarrow> False
      | Some mdctx \<Rightarrow>
          (case EVP_DigestVerifyInit C mdctx EVP_sha256 key of
             (r, mdctx1) \<Rightarrow> r = 1 \<and> EVP_DigestVerify C mdctx1 sig message = 1))"

text \<open>
  RSA-OAEP decryption, spelled out: a context on the key, initialised for decryption, with OAEP padding, SHA-256
  as the OAEP digest and SHA-256 as the MGF1 digest, asked for the size and then for the plaintext.  The
  sequence is written here on its own; it does not call \<open>oaep_setup\<close>.
\<close>

definition ok1 :: "int \<times> 'h \<Rightarrow> 'h option" where
  "ok1 r = (if fst r = 1 then Some (snd r) else None)"

definition unwrapped :: "'h openssl \<Rightarrow> allocator \<Rightarrow> 'h \<Rightarrow> u8 list \<Rightarrow> u8 list option" where
  "unwrapped C alloc key inp = do {
     ctx \<leftarrow> EVP_PKEY_CTX_new C key;
     ready \<leftarrow> ok1 (EVP_PKEY_decrypt_init C ctx);
     padded \<leftarrow> ok1 (EVP_PKEY_CTX_set_rsa_padding C ready RSA_PKCS1_OAEP_PADDING);
     digested \<leftarrow> ok1 (EVP_PKEY_CTX_set_rsa_oaep_md C padded EVP_sha256);
     masked \<leftarrow> ok1 (EVP_PKEY_CTX_set_rsa_mgf1_md C digested EVP_sha256);
     (n, sized) \<leftarrow> ok1 (EVP_PKEY_decrypt_size C masked inp);
     if alloc Site_unwrap_tmp n then do {
       (key_bytes, _) \<leftarrow> ok1 (EVP_PKEY_decrypt C sized n inp);
       Some key_bytes
     }
     else None
   }"

definition decrypted :: "'h openssl \<Rightarrow> u8 list \<Rightarrow> u8 list \<Rightarrow> u8 list \<Rightarrow> u8 list option" where
  "decrypted C key vec ct = do {
     ctx \<leftarrow> EVP_CIPHER_CTX_new C;
     case EVP_DecryptInit_ex C ctx EVP_aes_256_cbc key vec of
       (r1, ctx1) \<Rightarrow>
         if r1 \<noteq> 1 then None
         else (case EVP_DecryptUpdate C ctx1 ct of
           (r2, up, ctx2) \<Rightarrow>
             if r2 \<noteq> 1 then None
             else (case EVP_DecryptFinal_ex C ctx2 of
               (r3, fin, _) \<Rightarrow> if r3 = 1 then Some (up @ fin) else None))
   }"

lemma cipher_contract_Update:
  assumes "cipher_contract C" and "EVP_DecryptUpdate C ctx ct = (r, up, ctx1)"
  shows "length up \<le> length ct + 16"
  using assms(1) [unfolded cipher_contract_def, rule_format, of ctx ct] assms(2)
  by (cases "EVP_DecryptFinal_ex C ctx1") (simp add: Let_def)

lemma cipher_contract_Final:
  assumes "cipher_contract C" and "EVP_DecryptUpdate C ctx ct = (r, up, ctx1)"
    and "EVP_DecryptFinal_ex C ctx1 = (r', fin, ctx2)"
  shows "length up + length fin \<le> length ct + 16"
  using assms(1) [unfolded cipher_contract_def, rule_format, of ctx ct] assms(2,3)
  by (simp add: Let_def)

lemma pkey_decrypt_contractD:
  "pkey_decrypt_contract C \<Longrightarrow> EVP_PKEY_decrypt C ctx cap inp = (r, out, ctx') \<Longrightarrow> length out \<le> cap"
  unfolding pkey_decrypt_contract_def by (metis fst_conv snd_conv)

lemma decrypted_length:
  assumes "cipher_contract C" and "decrypted C key vec ct = Some pt"
  shows "length pt \<le> length ct + 16"
  using assms(2)
  by (auto simp: decrypted_def split: prod.split_asm if_split_asm Option.bind_split_asm
      dest: cipher_contract_Final [OF assms(1)])

subsection \<open>A small instance\<close>

text \<open>
  A libcrypto to evaluate the model on: a handle is a byte string, a signature is 256 copies of
  the key's first byte plus the sum of the message, wrapping is the identity and the cipher adds the key's first
  byte.  It meets the three contracts.
\<close>

definition byte_sum :: "u8 list \<Rightarrow> u8" where "byte_sum bs = foldl (+) 0 bs"

definition sample_crypto :: "u8 list openssl" where
  "sample_crypto =
     \<lparr>PEM_read_PrivateKey = (\<lambda>s. if avail s = [] then None else Some (avail s)),
      PEM_read_PUBKEY = (\<lambda>s. if avail s = [] then None else Some (avail s)),
      EVP_PKEY_CTX_new = Some,
      EVP_PKEY_decrypt_init = (\<lambda>c. (1, c)),
      EVP_PKEY_CTX_set_rsa_padding = (\<lambda>c p. (1, c)),
      EVP_PKEY_CTX_set_rsa_oaep_md = (\<lambda>c m. (1, c)),
      EVP_PKEY_CTX_set_rsa_mgf1_md = (\<lambda>c m. (1, c)),
      EVP_PKEY_decrypt_size = (\<lambda>c inp. (1, length inp, c)),
      EVP_PKEY_decrypt = (\<lambda>c cap inp. (1, take cap inp, c)),
      EVP_MD_CTX_new = Some [],
      EVP_DigestVerifyInit = (\<lambda>m d key. (1, key)),
      EVP_DigestVerify = (\<lambda>m sig msg. if sig = replicate 256 (hd (m @ [0]) + byte_sum msg) then 1 else 0),
      EVP_CIPHER_CTX_new = Some [],
      EVP_DecryptInit_ex = (\<lambda>c ci key vec. (1, key)),
      EVP_DecryptUpdate = (\<lambda>c ct. (1, map (\<lambda>b. b + hd (c @ [0])) ct, c)),
      EVP_DecryptFinal_ex = (\<lambda>c. (1, [], c)),
      EVP_Digest = (\<lambda>d m. (1, replicate 32 (byte_sum d)))\<rparr>"

lemma sample_crypto_contracts:
  "pkey_decrypt_contract sample_crypto" "cipher_contract sample_crypto" "digest_contract sample_crypto"
  by (simp_all add: pkey_decrypt_contract_def cipher_contract_def digest_contract_def sample_crypto_def)

lemma verify_signature_eq:
  assumes "data_len \<le> length d" and "signature_len \<le> length sig"
  shows "fota_verify_signature C (Some key) (Some d) data_len (Some sig) signature_len =
    Some (if signature_valid C key (take data_len d) (take signature_len sig)
          then FOTA_CRYPTO_OK else FOTA_CRYPTO_ERR_VERIFY_FAILED)"
  using assms
  by (simp add: fota_verify_signature_def signature_valid_def checked_access split: option.splits prod.splits)

text \<open>The code's set-up of the context against that sequence.\<close>

lemma oaep_setup_eq:
  "oaep_setup C ctx = do {
     ready \<leftarrow> ok1 (EVP_PKEY_decrypt_init C ctx);
     padded \<leftarrow> ok1 (EVP_PKEY_CTX_set_rsa_padding C ready RSA_PKCS1_OAEP_PADDING);
     digested \<leftarrow> ok1 (EVP_PKEY_CTX_set_rsa_oaep_md C padded EVP_sha256);
     ok1 (EVP_PKEY_CTX_set_rsa_mgf1_md C digested EVP_sha256)
   }"
  by (simp add: oaep_setup_def ok1_def split: prod.split)

lemma unwrapped_setup:
  "unwrapped C alloc key inp = do {
     ctx \<leftarrow> EVP_PKEY_CTX_new C key;
     ctx1 \<leftarrow> oaep_setup C ctx;
     case EVP_PKEY_decrypt_size C ctx1 inp of
       (rq, n, ctx2) \<Rightarrow>
         if rq \<noteq> 1 \<or> \<not> alloc Site_unwrap_tmp n then None
         else (case EVP_PKEY_decrypt C ctx2 n inp of
                 (rc, tmp, _) \<Rightarrow> if rc = 1 then Some tmp else None)
   }"
proof -
  have last: "do { (n, sized) \<leftarrow> ok1 (EVP_PKEY_decrypt_size C ctx1 inp);
        if alloc Site_unwrap_tmp n then do { (key_bytes, _) \<leftarrow> ok1 (EVP_PKEY_decrypt C sized n inp); Some key_bytes }
        else None } =
      (case EVP_PKEY_decrypt_size C ctx1 inp of
       (rq, n, ctx2) \<Rightarrow>
         if rq \<noteq> 1 \<or> \<not> alloc Site_unwrap_tmp n then None
         else (case EVP_PKEY_decrypt C ctx2 n inp of
                 (rc, tmp, _) \<Rightarrow> if rc = 1 then Some tmp else None))" for ctx1
    by (auto simp: ok1_def split: prod.split)
  show ?thesis unfolding unwrapped_def oaep_setup_eq last by simp
qed

lemma unwrap_key_eq:
  assumes "pkey_decrypt_contract C" and "wrapped_key_len \<le> length wk" and "cap \<le> length out"
  shows "fota_unwrap_key C alloc (Some key) (Some wk) wrapped_key_len (Some out) (Some cap) =
    Some (case unwrapped C alloc key (take wrapped_key_len wk) of
        Some k \<Rightarrow>
          if length k \<le> cap
          then (FOTA_CRYPTO_OK, Some (k @ drop (length k) out), Some (length k))
          else (FOTA_CRYPTO_ERR_UNWRAP_FAILED, Some out, Some cap)
      | None \<Rightarrow> (FOTA_CRYPTO_ERR_UNWRAP_FAILED, Some out, Some cap))"
  using assms
  by (auto simp: fota_unwrap_key_def unwrapped_setup checked_access wr_slice_def Let_def
      split: option.splits prod.splits dest: pkey_decrypt_contractD)

lemma decrypt_payload_eq:
  assumes "cipher_contract C" and "length out = ct_len + 16" and "ct_len \<le> length ct"
    and "length key = 32" and "length vec = 16"
  shows "\<exists>out' len'.
    fota_decrypt_payload C (Some key) 32 (Some vec) 16 (Some ct) ct_len (Some out) (Some len) =
      Some (if ct_len = 0 \<or> 2147483647 < ct_len then FOTA_CRYPTO_ERR_INVALID_ARG
            else if decrypted C key vec (take ct_len ct) = None then FOTA_CRYPTO_ERR_DECRYPT_FAILED
            else FOTA_CRYPTO_OK, Some out', Some len') \<and>
    length out' = ct_len + 16 \<and>
    (if 0 < ct_len \<and> ct_len \<le> 2147483647 then
       (case decrypted C key vec (take ct_len ct) of
          Some pt \<Rightarrow> len' = length pt \<and> take len' out' = pt
        | None \<Rightarrow> len' = len)
     else len' = len \<and> out' = out)"
proof (cases "ct_len = 0 \<or> 2147483647 < ct_len")
  case True
  then show ?thesis using assms by (auto simp: fota_decrypt_payload_def crypto_sizes)
next
  case ok: False
  show ?thesis
  proof (cases "EVP_CIPHER_CTX_new C")
    case None
    then show ?thesis using ok assms
      by (simp add: fota_decrypt_payload_def decrypted_def crypto_sizes)
  next
    case ctx: (Some ctx)
    obtain r1 ctx1 where init: "EVP_DecryptInit_ex C ctx EVP_aes_256_cbc key vec = (r1, ctx1)"
      by fastforce
    obtain r2 up ctx2 where upd: "EVP_DecryptUpdate C ctx1 (take ct_len ct) = (r2, up, ctx2)"
      by (metis prod_cases3)
    obtain r3 fin ctx3 where fin: "EVP_DecryptFinal_ex C ctx2 = (r3, fin, ctx3)"
      by (metis prod_cases3)
    have "length up + length fin \<le> ct_len + 16"
      using cipher_contract_Final [OF assms(1) upd fin] assms(3) by simp
    then show ?thesis
      using ok ctx init upd fin assms
      by (simp add: fota_decrypt_payload_def decrypted_def crypto_sizes checked_access wr_slice_def)
  qed
qed

subsection \<open>Properties\<close>

text \<open>
  Signature verification succeeds exactly when libcrypto accepts the signature over all of the
  message with SHA-256; every other outcome of a library call is \<open>VERIFY_FAILED\<close>, and no byte outside
  the two announced lengths is read.
\<close>

theorem verify_signature_spec:
  assumes "data_len \<le> length d" and "signature_len \<le> length sig"
  shows "fota_verify_signature C (Some key) (Some d) data_len (Some sig) signature_len =
    Some (if signature_valid C key (take data_len d) (take signature_len sig)
          then FOTA_CRYPTO_OK else FOTA_CRYPTO_ERR_VERIFY_FAILED)"
  by (rule verify_signature_eq [OF assms])

theorem verify_signature_spec_witness:
  "fota_verify_signature sample_crypto (Some [5]) (Some [1, 2, 3]) 2 (Some (replicate 256 8)) 256 =
    Some FOTA_CRYPTO_OK"
  by (subst verify_signature_spec)
     (simp_all add: signature_valid_def sample_crypto_def byte_sum_def numeral_eq_Suc)

text \<open>
  C32. Key unwrap: with a result buffer at least as large as the announced capacity, nothing is written outside
  it; the code is \<open>OK\<close> exactly when the OAEP/SHA-256 decryption \<open>unwrapped\<close> succeeds (libcrypto is asked for
  OAEP padding with SHA-256 as OAEP and MGF1 digest, and every call returns 1) and the key fits, and then the
  buffer starts with the key and the length is the key's; otherwise buffer and length are unchanged.
\<close>

theorem unwrap_key_spec:
  assumes "pkey_decrypt_contract C" and "wrapped_key_len \<le> length wk" and "cap \<le> length out"
  shows "fota_unwrap_key C alloc (Some key) (Some wk) wrapped_key_len (Some out) (Some cap) =
    Some (case unwrapped C alloc key (take wrapped_key_len wk) of
        Some k \<Rightarrow>
          if length k \<le> cap
          then (FOTA_CRYPTO_OK, Some (k @ drop (length k) out), Some (length k))
          else (FOTA_CRYPTO_ERR_UNWRAP_FAILED, Some out, Some cap)
      | None \<Rightarrow> (FOTA_CRYPTO_ERR_UNWRAP_FAILED, Some out, Some cap))"
  by (rule unwrap_key_eq [OF assms])

theorem unwrap_key_spec_witness:
  "fota_unwrap_key sample_crypto unlimited (Some [5]) (Some [1, 2, 3]) 2 (Some (replicate 4 0)) (Some 4) =
    Some (FOTA_CRYPTO_OK, Some [1, 2, 0, 0], Some 2)"
proof -
  have "unwrapped sample_crypto unlimited [5] [1, 2] = Some [1, 2]"
    by (simp add: unwrapped_def ok1_def sample_crypto_def)
  then show ?thesis
    using unwrap_key_spec [OF sample_crypto_contracts(1), of 2 "[1, 2, 3]" 4 "replicate 4 0"
        unlimited "[5]"]
    by (simp add: numeral_eq_Suc)
qed

text \<open>
  C33. Decryption into a buffer of ciphertext length plus one block: nothing is written outside the buffer,
  the length limits are enforced before any library call, and \<open>OK\<close> means the buffer starts with the whole
  plaintext and \<open>*plaintext_out_len\<close> is its length; on any other code the length is unchanged.
\<close>

theorem decrypt_payload_spec:
  assumes "cipher_contract C" and "length out = ct_len + 16" and "ct_len \<le> length ct"
    and "length key = 32" and "length vec = 16"
  shows "\<exists>out' len'.
    fota_decrypt_payload C (Some key) 32 (Some vec) 16 (Some ct) ct_len (Some out) (Some len) =
      Some (if ct_len = 0 \<or> 2147483647 < ct_len then FOTA_CRYPTO_ERR_INVALID_ARG
            else if decrypted C key vec (take ct_len ct) = None then FOTA_CRYPTO_ERR_DECRYPT_FAILED
            else FOTA_CRYPTO_OK, Some out', Some len') \<and>
    length out' = ct_len + 16 \<and>
    (if 0 < ct_len \<and> ct_len \<le> 2147483647 then
       (case decrypted C key vec (take ct_len ct) of
          Some pt \<Rightarrow> len' = length pt \<and> take len' out' = pt
        | None \<Rightarrow> len' = len)
     else len' = len \<and> out' = out)"
  by (rule decrypt_payload_eq [OF assms])

theorem decrypt_payload_spec_witness:
  "\<exists>out' len'.
    fota_decrypt_payload sample_crypto (Some (replicate 32 5)) 32 (Some (replicate 16 0)) 16
       (Some [1, 2, 3]) 2 (Some (replicate 18 0)) (Some 0) =
      Some (FOTA_CRYPTO_OK, Some out', Some len') \<and> len' = 2 \<and> take 2 out' = [6, 7]"
proof -
  have "decrypted sample_crypto (replicate 32 5) (replicate 16 0) (take 2 [1, 2, 3]) = Some [6, 7]"
    by (simp add: decrypted_def sample_crypto_def numeral_eq_Suc)
  then show ?thesis
    using decrypt_payload_spec [OF sample_crypto_contracts(2), of "replicate 18 0" 2 "[1, 2, 3]"
        "replicate 32 5" "replicate 16 0" 0]
    by (auto simp: numeral_2_eq_2)
qed

end
