(* ===== verification/Fota_Manifest.thy ===== *)
theory Fota_Manifest
  imports Fota_Tar_Spec Fota_Crypto
begin

section \<open>The manifest (installer.c)\<close>

text \<open>
  The narrow JSON reader \<open>parse_manifest_files\<close>, the hex printer and \<open>fota_verify_manifest\<close> of
  \<open>consumer/src/installer.c\<close>.  Every byte the reader looks at is read with bounds checks from the buffer
  that holds the manifest, so its being defined is memory safety.

  Positions are natural numbers: the code compares each with \<open>buf_len\<close> before it moves on.
\<close>

unbundle bit_operations_syntax

subsection \<open>Reading JSON\<close>

definition FOTA_MANIFEST_MAX_PATH_LEN :: nat where "FOTA_MANIFEST_MAX_PATH_LEN = 255"

definition FOTA_MANIFEST_SHA256_HEX_LEN :: nat where "FOTA_MANIFEST_SHA256_HEX_LEN = 64"

definition field_key_size :: nat where "field_key_size = 16"

lemmas manifest_sizes = FOTA_MANIFEST_MAX_PATH_LEN_def FOTA_MANIFEST_SHA256_HEX_LEN_def field_key_size_def

text \<open>\<open>out[out_len++] = c\<close>: a store at the end of what was written, inside an array of \<open>cap\<close> bytes.\<close>

definition push_byte :: "nat \<Rightarrow> u8 list \<Rightarrow> u8 \<Rightarrow> u8 list option" where
  "push_byte cap out c = (if length out < cap then Some (out @ [c]) else None)"

text \<open>
  The inner \<open>None\<close> is the return value -1.  The loop ends with the index of the closing quote or of the end of
  the buffer.
\<close>

function json_string_loop :: "u8 list \<Rightarrow> nat \<Rightarrow> nat \<Rightarrow> nat \<Rightarrow> u8 list \<Rightarrow> (nat \<times> u8 list) option option" where
  "json_string_loop buf buf_len out_cap i out =
     (if i < buf_len then do {
        c \<leftarrow> rd buf i;
        if c = 34 then Some (Some (i, out))
        else if c = 92 then
          (if i + 1 \<ge> buf_len then Some None
           else do {
             nxt \<leftarrow> rd buf (i + 1);
             if nxt \<noteq> 34 \<and> nxt \<noteq> 92 \<and> nxt \<noteq> 47 then Some None
             else if length out + 1 \<ge> out_cap then Some None
             else do {
               out' \<leftarrow> push_byte out_cap out nxt;
               json_string_loop buf buf_len out_cap (i + 2) out'
             }
           })
        else if length out + 1 \<ge> out_cap then Some None
        else do {
          out' \<leftarrow> push_byte out_cap out c;
          json_string_loop buf buf_len out_cap (i + 1) out'
        }
      } else Some (Some (i, out)))"
  by pat_completeness auto
termination by (relation "measure (\<lambda>(buf, buf_len, out_cap, i, out). buf_len - i)") auto

declare json_string_loop.simps [simp del]

text \<open>The result is the string (without its terminating NUL) and the position after the closing quote.\<close>

definition extract_json_string :: "u8 list \<Rightarrow> nat \<Rightarrow> nat \<Rightarrow> nat \<Rightarrow> (u8 list \<times> nat) option option" where
  "extract_json_string buf buf_len pos out_cap =
     (if pos \<ge> buf_len then Some None
      else do {
        q \<leftarrow> rd buf pos;
        if q \<noteq> 34 then Some None
        else do {
          r \<leftarrow> json_string_loop buf buf_len out_cap (pos + 1) [];
          (case r of
             None \<Rightarrow> Some None
           | Some (i, out) \<Rightarrow>
               if i \<ge> buf_len then Some None
               else do {
                 _ \<leftarrow> push_byte out_cap out 0;
                 Some (Some (out, i + 1))
               })
        }
      })"

abbreviation is_json_space :: "u8 \<Rightarrow> bool" where
  "is_json_space c \<equiv> c = 32 \<or> c = 9 \<or> c = 10 \<or> c = 13"

function skip_json_whitespace :: "u8 list \<Rightarrow> nat \<Rightarrow> nat \<Rightarrow> nat option" where
  "skip_json_whitespace buf buf_len pos =
     (if pos < buf_len then do {
        c \<leftarrow> rd buf pos;
        if is_json_space c then skip_json_whitespace buf buf_len (pos + 1) else Some pos
      } else Some pos)"
  by pat_completeness auto
termination by (relation "measure (\<lambda>(buf, buf_len, pos). buf_len - pos)") auto

declare skip_json_whitespace.simps [simp del]

lemma json_string_loop_advances:
  "json_string_loop buf buf_len cap i out = Some (Some (j, out')) \<Longrightarrow> i \<le> j"
proof (induction "buf_len - i" arbitrary: i out rule: less_induct)
  case less
  have later: "i \<le> j" if "json_string_loop buf buf_len cap i' r = Some (Some (j, out'))" "i < i'" "i < buf_len" for i' r
    using less.hyps [of i' r, OF diff_less_mono2 [OF that(2,3)] that(1)] that(2) by simp
  from less.prems show ?case
    by (subst (asm) json_string_loop.simps) (auto split: if_split_asm Option.bind_split_asm dest: later)
qed

lemma extract_json_string_advances:
  "extract_json_string buf buf_len pos cap = Some (Some (s, p)) \<Longrightarrow> pos < p \<and> p \<le> buf_len"
  by (auto simp: extract_json_string_def push_byte_def split: if_split_asm Option.bind_split_asm option.splits
      dest!: json_string_loop_advances)

lemma skip_json_whitespace_advances: "skip_json_whitespace buf buf_len pos = Some p \<Longrightarrow> pos \<le> p"
proof (induction buf buf_len pos rule: skip_json_whitespace.induct)
  case (1 buf buf_len pos)
  then show ?case
    by (subst (asm) (2) skip_json_whitespace.simps)
       (fastforce split: if_split_asm Option.bind_split_asm)
qed

subsection \<open>The files array\<close>

record fota_manifest_file =
  mf_path :: "u8 list"
  mf_sha256_hex :: "u8 list"

definition files_key :: "u8 list" where "files_key = [34] @ ascii ''files'' @ [34]"

definition path_key :: "u8 list" where "path_key = ascii ''path''"

definition sha256_key :: "u8 list" where "sha256_key = ascii ''sha256''"

function find_files_key :: "u8 list \<Rightarrow> nat \<Rightarrow> nat \<Rightarrow> nat option option" where
  "find_files_key buf buf_len i =
     (if i + length files_key \<le> buf_len then do {
        s \<leftarrow> rd_slice buf i (length files_key);
        if s = files_key then Some (Some i) else find_files_key buf buf_len (i + 1)
      } else Some None)"
  by pat_completeness auto
termination by (relation "measure (\<lambda>(buf, buf_len, i). buf_len - i)") (auto simp: files_key_def)

declare find_files_key.simps [simp del]

text \<open>\<open>expect_char\<close>: skip whitespace, then one given character; the position after it, or -1.\<close>

definition expect_char :: "u8 list \<Rightarrow> nat \<Rightarrow> nat \<Rightarrow> u8 \<Rightarrow> nat option option" where
  "expect_char buf buf_len pos c = do {
     pos \<leftarrow> skip_json_whitespace buf buf_len pos;
     if pos \<ge> buf_len then Some None
     else do {
       b \<leftarrow> rd buf pos;
       Some (if b \<noteq> c then None else Some (pos + 1))
     }
   }"

text \<open>
  One \<open>"key": "value"\<close> pair of an object, as it changes the locals \<open>path\<close> and \<open>sha256_hex\<close> (\<open>None\<close> while
  \<open>have_path\<close> or \<open>have_sha256\<close> is 0).
\<close>

definition manifest_field ::
    "u8 list \<Rightarrow> nat \<Rightarrow> nat \<Rightarrow> u8 list option \<Rightarrow> u8 list option \<Rightarrow>
     (nat \<times> u8 list option \<times> u8 list option) option option"
where
  "manifest_field buf buf_len pos mpath msha = do {
     k \<leftarrow> extract_json_string buf buf_len pos field_key_size;
     (case k of
        None \<Rightarrow> Some None
      | Some (field_key, pos) \<Rightarrow> do {
          colon \<leftarrow> expect_char buf buf_len pos 58;
          (case colon of
             None \<Rightarrow> Some None
           | Some pos \<Rightarrow> do {
               pos \<leftarrow> skip_json_whitespace buf buf_len pos;
               if cstr field_key = path_key then do {
                 v \<leftarrow> extract_json_string buf buf_len pos (FOTA_MANIFEST_MAX_PATH_LEN + 1);
                 Some (case v of None \<Rightarrow> None | Some (s, pos) \<Rightarrow> Some (pos, Some s, msha))
               }
               else if cstr field_key = sha256_key then do {
                 v \<leftarrow> extract_json_string buf buf_len pos (FOTA_MANIFEST_SHA256_HEX_LEN + 1);
                 Some (case v of
                         None \<Rightarrow> None
                       | Some (s, pos) \<Rightarrow>
                           if length (cstr s) \<noteq> FOTA_MANIFEST_SHA256_HEX_LEN then None
                           else Some (pos, mpath, Some s))
               }
               else Some None
             })
        })
   }"

lemma expect_char_advances: "expect_char buf buf_len pos c = Some (Some p) \<Longrightarrow> pos < p \<and> p \<le> buf_len"
  by (auto simp: expect_char_def split: if_split_asm Option.bind_split_asm dest!: skip_json_whitespace_advances)

lemma manifest_field_advances:
  "manifest_field buf buf_len pos a b = Some (Some (p, a', b')) \<Longrightarrow> pos < p"
  by (auto simp: manifest_field_def split: if_split_asm Option.bind_split_asm option.splits
      dest!: skip_json_whitespace_advances extract_json_string_advances expect_char_advances)

function manifest_object ::
    "u8 list \<Rightarrow> nat \<Rightarrow> nat \<Rightarrow> u8 list option \<Rightarrow> u8 list option \<Rightarrow>
     (nat \<times> u8 list option \<times> u8 list option) option option"
where
  "manifest_object buf buf_len pos0 mpath msha = do {
     pos \<leftarrow> skip_json_whitespace buf buf_len pos0;
     if pos \<ge> buf_len then Some None
     else do {
       c \<leftarrow> rd buf pos;
       if c = 125 then Some (Some (pos + 1, mpath, msha))
       else if c = 44 then manifest_object buf buf_len (pos + 1) mpath msha
       else do {
         r \<leftarrow> manifest_field buf buf_len pos mpath msha;
         (case r of
            None \<Rightarrow> Some None
          | Some (pos', mpath', msha') \<Rightarrow> manifest_object buf buf_len pos' mpath' msha')
       }
     }
   }"
  by pat_completeness auto
termination
  by (relation "measure (\<lambda>(buf, buf_len, pos, mpath, msha). buf_len - pos)")
     (auto dest!: skip_json_whitespace_advances manifest_field_advances)

declare manifest_object.simps [simp del]

lemma manifest_object_advances:
  "manifest_object buf buf_len pos a b = Some (Some (p, a', b')) \<Longrightarrow> pos < p"
proof (induction "buf_len - pos" arbitrary: pos a b rule: less_induct)
  case less
  have later: "pos < p" if "manifest_object buf buf_len q x y = Some (Some (p, a', b'))" "pos < q" "pos < buf_len" for q x y
    using less.hyps [of q x y, OF diff_less_mono2 [OF that(2,3)] that(1)] that(2) by simp
  from less.prems show ?case
    by (subst (asm) manifest_object.simps)
       (auto split: if_split_asm Option.bind_split_asm option.splits
         dest!: skip_json_whitespace_advances manifest_field_advances intro: later)
qed

text \<open>
  The list of files.  Its struct holds \<open>char path[256]\<close> and \<open>char sha256_hex[65]\<close>, 321 bytes on every ABI.  The capacity
  is a natural number because neither it nor the byte count can wrap in a \<open>size_t\<close> of 32 bits or more: a listing takes at
  least 86 bytes of a text of at most 512 MiB, so the capacity stays at or below \<open>2 ^ 23\<close> and the request below \<open>2 ^ 32\<close>.
\<close>

definition sizeof_manifest_file :: nat where
  "sizeof_manifest_file = (FOTA_MANIFEST_MAX_PATH_LEN + 1) + (FOTA_MANIFEST_SHA256_HEX_LEN + 1)"

definition manifest_grow :: "allocator \<Rightarrow> nat \<Rightarrow> nat \<Rightarrow> nat option" where
  "manifest_grow alloc count capacity =
     (if count = capacity then
        let new_capacity = (if capacity = 0 then 8 else capacity * 2)
        in if \<not> alloc Site_manifest_files (new_capacity * sizeof_manifest_file) then None else Some new_capacity
      else Some capacity)"

function manifest_array ::
    "allocator \<Rightarrow> u8 list \<Rightarrow> nat \<Rightarrow> nat \<Rightarrow> fota_manifest_file list \<Rightarrow> nat \<Rightarrow>
     (fota_install_result + fota_manifest_file list) option"
where
  "manifest_array alloc buf buf_len pos0 found capacity = do {
     pos \<leftarrow> skip_json_whitespace buf buf_len pos0;
     if pos \<ge> buf_len then Some (Inl FOTA_INSTALL_ERR_MANIFEST_PARSE)
     else do {
       c \<leftarrow> rd buf pos;
       if c = 93 then Some (Inr found)
       else if c = 44 then manifest_array alloc buf buf_len (pos + 1) found capacity
       else if c \<noteq> 123 then Some (Inl FOTA_INSTALL_ERR_MANIFEST_PARSE)
       else do {
         r \<leftarrow> manifest_object buf buf_len (pos + 1) None None;
         (case r of
            Some (pos', Some mpath, Some msha) \<Rightarrow>
              (case manifest_grow alloc (length found) capacity of
                 None \<Rightarrow> Some (Inl FOTA_INSTALL_ERR_IO)
               | Some capacity' \<Rightarrow>
                   manifest_array alloc buf buf_len pos'
                     (found @ [\<lparr>mf_path = mpath, mf_sha256_hex = msha\<rparr>]) capacity')
          | _ \<Rightarrow> Some (Inl FOTA_INSTALL_ERR_MANIFEST_PARSE))
       }
     }
   }"
  by pat_completeness auto
termination
  by (relation "measure (\<lambda>(alloc, buf, buf_len, pos, files, capacity). buf_len - pos)")
     (auto dest!: skip_json_whitespace_advances manifest_object_advances)

declare manifest_array.simps [simp del]

definition parse_manifest_files ::
    "allocator \<Rightarrow> u8 list \<Rightarrow> nat \<Rightarrow> (fota_install_result + fota_manifest_file list) option"
where
  "parse_manifest_files alloc buf buf_len = do {
     files_key_pos \<leftarrow> find_files_key buf buf_len 0;
     (case files_key_pos of
        None \<Rightarrow> Some (Inl FOTA_INSTALL_ERR_MANIFEST_PARSE)
      | Some k \<Rightarrow> do {
          colon \<leftarrow> expect_char buf buf_len (k + length files_key) 58;
          (case colon of
             None \<Rightarrow> Some (Inl FOTA_INSTALL_ERR_MANIFEST_PARSE)
           | Some pos \<Rightarrow> do {
               bracket \<leftarrow> expect_char buf buf_len pos 91;
               (case bracket of
                  None \<Rightarrow> Some (Inl FOTA_INSTALL_ERR_MANIFEST_PARSE)
                | Some pos \<Rightarrow> manifest_array alloc buf buf_len pos [] 0)
             })
        })
   }"

subsection \<open>Hex and lookup\<close>

definition hex_digit :: "u8 \<Rightarrow> u8" where
  "hex_digit n = (ascii ''0123456789abcdef'') ! unat n"

function hex_loop :: "u8 list \<Rightarrow> nat \<Rightarrow> nat \<Rightarrow> u8 list \<Rightarrow> u8 list option" where
  "hex_loop bytes len i out =
     (if i < len then do {
        b \<leftarrow> rd bytes i;
        out1 \<leftarrow> wr_slice out (i * 2) [hex_digit (drop_bit 4 b)];
        out2 \<leftarrow> wr_slice out1 (i * 2 + 1) [hex_digit (b AND 0x0F)];
        hex_loop bytes len (Suc i) out2
      } else wr_slice out (len * 2) [0])"
  by pat_completeness auto
termination by (relation "measure (\<lambda>(bytes, len, i, out). len - i)") auto

declare hex_loop.simps [simp del]

definition bytes_to_hex_lower :: "u8 list \<Rightarrow> nat \<Rightarrow> u8 list \<Rightarrow> u8 list option" where
  "bytes_to_hex_lower bytes len out = hex_loop bytes len 0 out"

text \<open>
  The first regular file with a given path: its index (the loop of \<open>fota_verify_manifest\<close>) and the entry
  (\<open>find_entry\<close>).
\<close>

fun entry_index :: "fota_tar_entry list \<Rightarrow> u8 list \<Rightarrow> nat \<Rightarrow> nat option" where
  "entry_index [] p j = None"
| "entry_index (e # es) p j =
     (if etype e = FOTA_TAR_ENTRY_FILE \<and> path e = p then Some j else entry_index es p (Suc j))"

fun find_entry :: "fota_tar_entry list \<Rightarrow> u8 list \<Rightarrow> fota_tar_entry option" where
  "find_entry [] p = None"
| "find_entry (e # es) p =
     (if etype e = FOTA_TAR_ENTRY_FILE \<and> path e = p then Some e else find_entry es p)"

subsection \<open>Verification against the archive\<close>

definition manifest_name :: "u8 list" where "manifest_name = ascii ''manifest.json''"

definition EVP_MAX_MD_SIZE :: nat where "EVP_MAX_MD_SIZE = 64"

definition is_payload_file :: "fota_tar_entry \<Rightarrow> bool" where
  "is_payload_file e \<longleftrightarrow> etype e = FOTA_TAR_ENTRY_FILE \<and> path e \<noteq> manifest_name"

fun count_file_entries :: "fota_tar_entry list \<Rightarrow> nat" where
  "count_file_entries [] = 0"
| "count_file_entries (e # es) =
     (if etype e = FOTA_TAR_ENTRY_FILE \<and> path e \<noteq> manifest_name then Suc (count_file_entries es)
      else count_file_entries es)"

text \<open>The loop over the manifest's files, with \<open>matched\<close> and \<open>matched_count\<close>.\<close>

fun match_files ::
    "'h openssl \<Rightarrow> u8 list \<Rightarrow> fota_tar_entry list \<Rightarrow> fota_manifest_file list \<Rightarrow> u8 list \<Rightarrow> nat \<Rightarrow>
     (fota_install_result + u8 list \<times> nat) option"
where
  "match_files C tar entries [] matched matched_count = Some (Inr (matched, matched_count))"
| "match_files C tar entries (mf # mfs) matched matched_count =
     (case entry_index entries (cstr (mf_path mf)) 0 of
        None \<Rightarrow> Some (Inl FOTA_INSTALL_ERR_MANIFEST_MISMATCH)
      | Some j \<Rightarrow> do {
          d \<leftarrow> rd_slice tar (data_off (entries ! j)) (esize (entries ! j));
          let (rc, digest) = EVP_Digest C d EVP_sha256;
          if rc \<noteq> 1 then Some (Inl FOTA_INSTALL_ERR_IO)
          else if EVP_MAX_MD_SIZE < length digest then None
          else do {
            digest_hex \<leftarrow> bytes_to_hex_lower digest (length digest)
                            (replicate (FOTA_MANIFEST_SHA256_HEX_LEN + 1) 0);
            if cstr digest_hex \<noteq> cstr (mf_sha256_hex mf)
            then Some (Inl FOTA_INSTALL_ERR_MANIFEST_MISMATCH)
            else do {
              matched' \<leftarrow> wr_slice matched j [1];
              match_files C tar entries mfs matched' (matched_count + 1)
            }
          }
        })"

text \<open>
  \<open>tar\<close> is the buffer the entries point into.  The bytes of the manifest are those from its entry's
  offset on, of which \<open>esize\<close> may be read.
\<close>

definition fota_verify_manifest ::
    "'h openssl \<Rightarrow> allocator \<Rightarrow> u8 list \<Rightarrow> fota_tar_entry list option \<Rightarrow> fota_install_result option"
where
  "fota_verify_manifest C alloc tar entries_ptr =
     (case entries_ptr of
        None \<Rightarrow> Some FOTA_INSTALL_ERR_INVALID_ARG
      | Some entries \<Rightarrow>
          (case find_entry entries manifest_name of
             None \<Rightarrow> Some FOTA_INSTALL_ERR_MANIFEST_MISSING
           | Some manifest_entry \<Rightarrow> do {
               r \<leftarrow> parse_manifest_files alloc (drop (data_off manifest_entry) tar) (esize manifest_entry);
               (case r of
                  Inl e \<Rightarrow> Some e
                | Inr mfs \<Rightarrow> do {
                    let file_entry_count = count_file_entries entries;
                    let slots = (if length entries > 0 then length entries else 1);
                    if \<not> alloc Site_matched slots then Some FOTA_INSTALL_ERR_IO
                    else do {
                      m \<leftarrow> match_files C tar entries mfs (replicate slots 0) 0;
                      Some (case m of
                              Inl e \<Rightarrow> e
                            | Inr (matched, matched_count) \<Rightarrow>
                                if matched_count \<noteq> file_entry_count then FOTA_INSTALL_ERR_MANIFEST_MISMATCH
                                else FOTA_INSTALL_OK)
                    }
                  })
             }))"

end
