(* ===== verification/Fota_Manifest_Spec.thy ===== *)
theory Fota_Manifest_Spec
  imports Fota_Manifest "HOL-Library.Sublist"
begin

section \<open>The manifest reader as a parser of lists\<close>

text \<open>
  The index-based reader of \<open>Fota_Manifest\<close> against a parser that consumes a list of bytes and knows no buffer, no
  position and no capacity.  At a position \<open>pos\<close> the input is the segment from \<open>pos\<close> to \<open>buf_len\<close>, and a
  rest of length \<open>k\<close> stands for the position \<open>buf_len - k\<close>.  The equations also say that the reader never leaves the
  buffer.
\<close>

subsection \<open>The list parser\<close>

definition skip_ws :: "u8 list \<Rightarrow> u8 list" where
  "skip_ws s = dropWhile (\<lambda>c. is_json_space c) s"

fun string_rest :: "nat \<Rightarrow> u8 list \<Rightarrow> u8 list \<Rightarrow> (u8 list \<times> u8 list) option" where
  "string_rest cap out [] = None"
| "string_rest cap out (c # cs) =
     (if c = 34 then Some (out, cs)
      else if c = 92 then
        (case cs of
           [] \<Rightarrow> None
         | e # cs' \<Rightarrow>
             if e \<noteq> 34 \<and> e \<noteq> 92 \<and> e \<noteq> 47 \<or> cap \<le> length out + 1 then None
             else string_rest cap (out @ [e]) cs')
      else if cap \<le> length out + 1 then None
      else string_rest cap (out @ [c]) cs)"

definition read_string :: "nat \<Rightarrow> u8 list \<Rightarrow> (u8 list \<times> u8 list) option" where
  "read_string cap s = (case s of [] \<Rightarrow> None | c # cs \<Rightarrow> if c = 34 then string_rest cap [] cs else None)"

definition read_char :: "u8 \<Rightarrow> u8 list \<Rightarrow> u8 list option" where
  "read_char c s = (case skip_ws s of [] \<Rightarrow> None | b # r \<Rightarrow> if b = c then Some r else None)"

definition read_field ::
    "u8 list \<Rightarrow> u8 list option \<Rightarrow> u8 list option \<Rightarrow> (u8 list \<times> u8 list option \<times> u8 list option) option"
where
  "read_field s mpath msha = do {
     (k, s1) \<leftarrow> read_string 16 s;
     s2 \<leftarrow> read_char 58 s1;
     (if cstr k = path_key then do { (v, r) \<leftarrow> read_string 256 (skip_ws s2); Some (r, Some v, msha) }
      else if cstr k = sha256_key then do {
        (v, r) \<leftarrow> read_string 65 (skip_ws s2);
        (if length (cstr v) = 64 then Some (r, mpath, Some v) else None)
      }
      else None)
   }"

text \<open>What is left after an item was read.\<close>

definition rest_of :: "u8 list \<Rightarrow> u8 list \<Rightarrow> bool" where
  "rest_of r s \<longleftrightarrow> suffix r s \<and> length r < length s"

lemma rest_of_Cons: "suffix r s \<Longrightarrow> rest_of r (c # s)"
  by (auto simp: rest_of_def suffix_ConsI less_Suc_eq_le dest: suffix_length_le)

lemma rest_of_suffix: "rest_of r s \<Longrightarrow> suffix r s"
  by (simp add: rest_of_def)

lemma rest_of_length: "rest_of r s \<Longrightarrow> length r < length s"
  by (simp add: rest_of_def)

lemma rest_of_trans: "rest_of r s \<Longrightarrow> suffix s t \<Longrightarrow> rest_of r t"
  unfolding rest_of_def by (meson less_le_trans suffix_length_le suffix_order.trans)

lemma string_rest_suffix: "string_rest cap out s = Some (v, r) \<Longrightarrow> rest_of r s"
proof (induction cap out s rule: string_rest.induct)
  case (2 cap out c cs)
  then show ?case
    by (auto split: if_split_asm list.split_asm intro: rest_of_Cons suffix_ConsI dest: rest_of_suffix)
qed simp

lemma read_string_suffix: "read_string cap s = Some (v, r) \<Longrightarrow> rest_of r s"
  by (auto simp: read_string_def split: list.split_asm if_split_asm dest!: string_rest_suffix
      intro: rest_of_Cons rest_of_suffix)

lemma skip_ws_suffix: "suffix (skip_ws s) s"
  by (simp add: skip_ws_def suffix_dropWhile)

lemma skip_ws_Cons_rest: "skip_ws s = c # r \<Longrightarrow> rest_of r s"
  using skip_ws_suffix [of s] rest_of_trans [OF rest_of_Cons [OF suffix_order.refl, of r c], of s] by simp

lemma read_char_suffix: "read_char c s = Some r \<Longrightarrow> rest_of r s"
  by (auto simp: read_char_def split: list.split_asm if_split_asm dest: skip_ws_Cons_rest)

lemma read_field_suffix:
  assumes "read_field s a b = Some (r, a', b')" shows "rest_of r s"
proof -
  obtain k s1 s2 v cap where s: "read_string 16 s = Some (k, s1)" "read_char 58 s1 = Some s2"
      "read_string cap (skip_ws s2) = Some (v, r)"
    using assms by (auto simp: read_field_def split: Option.bind_split_asm if_split_asm prod.split_asm)
  have "suffix (skip_ws s2) s"
    using s(1,2) read_string_suffix read_char_suffix skip_ws_suffix rest_of_suffix suffix_order.trans by metis
  then show ?thesis using read_string_suffix [OF s(3)] rest_of_trans by blast
qed

function read_object ::
    "u8 list \<Rightarrow> u8 list option \<Rightarrow> u8 list option \<Rightarrow> (u8 list \<times> u8 list option \<times> u8 list option) option"
where
  "read_object s mpath msha =
     (case skip_ws s of
        [] \<Rightarrow> None
      | c # cs \<Rightarrow>
          if c = 125 then Some (cs, mpath, msha)
          else if c = 44 then read_object cs mpath msha
          else (case read_field (c # cs) mpath msha of
                  None \<Rightarrow> None
                | Some (r, mpath', msha') \<Rightarrow> read_object r mpath' msha'))"
  by pat_completeness auto
termination
  by (relation "measure (\<lambda>(s, a, b). length s)")
     (auto dest!: skip_ws_Cons_rest read_field_suffix rest_of_length)

declare read_object.simps [simp del]

lemma read_object_suffix:
  "read_object s a b = Some (r, a', b') \<Longrightarrow> rest_of r s"
proof (induction "length s" arbitrary: s a b rule: less_induct)
  case less
  have trans: "rest_of r s" if "rest_of r u" "suffix u s" for u using that by (rule rest_of_trans)
  obtain c cs where s: "skip_ws s = c # cs"
    using less.prems by (subst (asm) read_object.simps) (auto split: list.split_asm)
  have suf: "suffix (c # cs) s" "rest_of cs s" using skip_ws_suffix [of s] skip_ws_Cons_rest [OF s] s by simp_all
  show ?case
  proof (cases "c = 125 \<or> c = 44")
    case True
    then show ?thesis
      using less.prems less.hyps [of cs a b] s suf(2) trans rest_of_suffix rest_of_length
      by (subst (asm) read_object.simps) (auto split: if_split_asm)
  next
    case False
    then obtain u a1 b1 where f: "read_field (c # cs) a b = Some (u, a1, b1)" "read_object u a1 b1 = Some (r, a', b')"
      using less.prems s by (subst (asm) read_object.simps) (auto split: option.split_asm)
    have u: "rest_of u s" using read_field_suffix [OF f(1)] suf(1) by (rule rest_of_trans)
    then show ?thesis using less.hyps [OF rest_of_length f(2)] trans rest_of_suffix by blast
  qed
qed

function read_array :: "u8 list \<Rightarrow> fota_manifest_file list option" where
  "read_array s =
     (case skip_ws s of
        [] \<Rightarrow> None
      | c # cs \<Rightarrow>
          if c = 93 then Some []
          else if c = 44 then read_array cs
          else if c \<noteq> 123 then None
          else (case read_object cs None None of
                  Some (r, Some mpath, Some msha) \<Rightarrow>
                    map_option ((#) \<lparr>mf_path = mpath, mf_sha256_hex = msha\<rparr>) (read_array r)
                | _ \<Rightarrow> None))"
  by pat_completeness auto
termination
  by (relation "measure length")
     (auto dest!: skip_ws_Cons_rest read_object_suffix rest_of_length)

declare read_array.simps [simp del]

text \<open>The text after the first occurrence of the key.\<close>

fun after_key :: "u8 list \<Rightarrow> u8 list \<Rightarrow> u8 list option" where
  "after_key k s =
     (if take (length k) s = k then Some (drop (length k) s)
      else (case s of [] \<Rightarrow> None | c # cs \<Rightarrow> after_key k cs))"

declare after_key.simps [simp del]

definition manifest_spec :: "u8 list \<Rightarrow> fota_manifest_file list option" where
  "manifest_spec s = do {
     s1 \<leftarrow> after_key files_key s;
     s2 \<leftarrow> read_char 58 s1;
     s3 \<leftarrow> read_char 91 s2;
     read_array s3
   }"

subsection \<open>The reader computes the parser\<close>

lemma seg_suffix:
  assumes "suffix r (seg buf pos n)" and "pos \<le> n" and "n \<le> length buf"
  shows "seg buf (n - length r) n = r \<and> pos \<le> n - length r \<and> length r \<le> n"
proof -
  obtain zs where zs: "seg buf pos n = zs @ r" using assms(1) by (auto simp: suffix_def)
  have len: "length zs + length r = n - pos"
    using arg_cong [OF zs, of length] assms(3) by (simp add: length_seg)
  then have q: "n - length r = pos + length zs" using assms(2) by simp
  have "seg buf (pos + length zs) n = drop (length zs) (seg buf pos n)"
    by (simp add: seg_def drop_take add.commute)
  then show ?thesis using zs q len assms(2) by simp
qed

lemma seg_Nil_iff: "pos \<le> n \<Longrightarrow> n \<le> length buf \<Longrightarrow> seg buf pos n = [] \<longleftrightarrow> pos = n"
  by (auto simp: seg_def)

lemma seg_ConsD:
  assumes "seg buf pos n = c # cs" and "pos \<le> n" and "n \<le> length buf"
  shows "pos < n" "buf ! pos = c" "seg buf (Suc pos) n = cs" "rd buf pos = Some c"
proof -
  show "pos < n" using assms seg_Nil_iff [OF assms(2,3)] by auto
  then show "buf ! pos = c" "seg buf (Suc pos) n = cs" using assms(1,3) by (simp_all add: seg_Cons)
  then show "rd buf pos = Some c" using \<open>pos < n\<close> assms(3) by (simp add: rd_def)
qed

lemma skip_json_whitespace_eq:
  "pos \<le> n \<Longrightarrow> n \<le> length buf \<Longrightarrow>
    skip_json_whitespace buf n pos = Some (n - length (skip_ws (seg buf pos n)))"
proof (induction "n - pos" arbitrary: pos)
  case 0
  then show ?case by (simp add: skip_json_whitespace.simps skip_ws_def)
next
  case (Suc k)
  then have pos: "pos < n" by simp
  then have len: "length (seg buf (Suc pos) n) = n - Suc pos" using Suc.prems by (simp add: length_seg)
  show ?case
    using Suc.hyps(1) [of "Suc pos"] Suc.hyps(2) Suc.prems pos len
    by (simp add: skip_json_whitespace.simps [of buf n pos] skip_ws_def seg_Cons rd_def)
qed

lemma string_loop_eq:
  assumes "i \<le> n" and "n \<le> length buf" and "length out < cap"
  shows "case string_rest cap out (seg buf i n) of
      Some (v, r) \<Rightarrow> json_string_loop buf n cap i out = Some (Some (n - length r - 1, v)) \<and> length v < cap
    | None \<Rightarrow> json_string_loop buf n cap i out = Some None \<or>
        (\<exists>v. json_string_loop buf n cap i out = Some (Some (n, v)))"
  using assms(1,3)
proof (induction "n - i" arbitrary: i out rule: less_induct)
  case less
  note loop = json_string_loop.simps [of buf n cap i out]
  show ?case
  proof (cases "seg buf i n")
    case Nil
    then show ?thesis using less.prems assms(2) unfolding loop by (simp add: seg_Nil_iff)
  next
    case (Cons c cs)
    note d = seg_ConsD [OF Cons less.prems(1) assms(2)]
    have len: "length cs = n - Suc i" using d(1,3) assms(2) length_seg [of n buf "Suc i"] by simp
    show ?thesis
    proof (cases "c = 34")
      case True
      then show ?thesis using d len less.prems Cons unfolding loop by simp
    next
      case quote: False
      show ?thesis
      proof (cases "c = 92")
        case True
        show ?thesis
        proof (cases cs)
          case Nil
          then show ?thesis using d len less.prems Cons True unfolding loop by simp
        next
          case esc: (Cons e cs')
          have i1: "Suc i \<le> n" using d(1) by simp
          note d2 = seg_ConsD [OF d(3) [unfolded esc] i1 assms(2)]
          have IH: "Suc (length out) < cap \<Longrightarrow> ?thesis"
            if "e = 34 \<or> e = 92 \<or> e = 47"
            using less.hyps [of "i + 2" "out @ [e]"] d d2 that Cons esc True unfolding loop
            by (auto simp: push_byte_def split: option.split)
          show ?thesis
          proof (cases "(e = 34 \<or> e = 92 \<or> e = 47) \<and> Suc (length out) < cap")
            case True
            then show ?thesis using IH by blast
          next
            case False
            then show ?thesis using d d2 Cons esc True unfolding loop by auto
          qed
        qed
      next
        case False
        show ?thesis
        proof (cases "Suc (length out) < cap")
          case True
          then show ?thesis
            using less.hyps [of "Suc i" "out @ [c]"] d Cons quote False less.prems unfolding loop
            by (auto simp: push_byte_def split: option.split)
        next
          case ovf: False
          then show ?thesis using d Cons quote False unfolding loop by simp
        qed
      qed
    qed
  qed
qed

lemma extract_json_string_eq:
  assumes "pos \<le> n" and "n \<le> length buf" and "0 < cap"
  shows "extract_json_string buf n pos cap =
    Some (map_option (\<lambda>(v, r). (v, n - length r)) (read_string cap (seg buf pos n)))"
proof (cases "seg buf pos n")
  case Nil
  then show ?thesis using assms by (simp add: extract_json_string_def read_string_def seg_Nil_iff)
next
  case (Cons c cs)
  note d = seg_ConsD [OF Cons assms(1,2)]
  show ?thesis
  proof (cases "string_rest cap [] cs")
    case None
    then show ?thesis
      using string_loop_eq [of "Suc pos" n buf "[]" cap] d Cons assms
      by (auto simp: extract_json_string_def read_string_def)
  next
    case (Some vr)
    obtain v r where vr: "vr = (v, r)" by fastforce
    have "length r < length cs" using string_rest_suffix [of cap "[]" cs v r] Some vr rest_of_length by simp
    then have r: "length r < n" using d assms length_seg [of n buf "Suc pos"] by simp
    show ?thesis
      using string_loop_eq [of "Suc pos" n buf "[]" cap] d Cons assms Some vr r
      by (auto simp: extract_json_string_def read_string_def push_byte_def)
  qed
qed

lemma expect_char_eq:
  assumes "pos \<le> n" and "n \<le> length buf"
  shows "expect_char buf n pos c = Some (map_option (\<lambda>r. n - length r) (read_char c (seg buf pos n)))"
proof -
  let ?s = "skip_ws (seg buf pos n)"
  have s: "seg buf (n - length ?s) n = ?s" "length ?s \<le> n"
    using seg_suffix [OF skip_ws_suffix assms] by simp_all
  show ?thesis
  proof (cases ?s)
    case Nil
    then show ?thesis using assms by (simp add: expect_char_def read_char_def skip_json_whitespace_eq)
  next
    case (Cons b r)
    have q: "n - length ?s \<le> n" "length r < n" using s(2) Cons by simp_all
    note d = seg_ConsD [OF s(1) [unfolded Cons] _ assms(2)]
    have "rd buf (n - Suc (length r)) = Some b" using d(4) Cons by simp
    moreover have "\<not> n \<le> n - Suc (length r)" using q(2) by linarith
    ultimately show ?thesis
      using assms Cons q d Suc_diff_Suc [OF q(2)] by (simp add: expect_char_def read_char_def skip_json_whitespace_eq)
  qed
qed

lemma manifest_field_eq:
  assumes "pos \<le> n" and "n \<le> length buf"
  shows "manifest_field buf n pos a b =
    Some (map_option (\<lambda>(r, a', b'). (n - length r, a', b')) (read_field (seg buf pos n) a b))"
proof (cases "read_string 16 (seg buf pos n)")
  case None
  then show ?thesis using assms
    by (simp add: manifest_field_def read_field_def extract_json_string_eq manifest_sizes)
next
  case (Some kr)
  obtain k s1 where k: "kr = (k, s1)" by fastforce
  have s1: "seg buf (n - length s1) n = s1"
    using seg_suffix [OF rest_of_suffix [OF read_string_suffix] assms] Some k by simp
  note colon = expect_char_eq [OF diff_le_self [of n "length s1"] assms(2), of 58, unfolded s1]
  show ?thesis
  proof (cases "read_char 58 s1")
    case None
    then show ?thesis using Some k colon assms
      by (simp add: manifest_field_def read_field_def extract_json_string_eq manifest_sizes)
  next
    case s2: (Some s2)
    have "suffix s2 (seg buf (n - length s1) n)" unfolding s1
      using read_char_suffix [OF s2] by (rule rest_of_suffix)
    then have e2: "seg buf (n - length s2) n = s2"
      using seg_suffix [OF _ diff_le_self assms(2)] by blast
    let ?s3 = "skip_ws s2"
    have e3: "seg buf (n - length ?s3) n = ?s3"
      using seg_suffix [OF _ diff_le_self [of n "length s2"] assms(2), of ?s3] skip_ws_suffix [of s2] e2 by simp
    note ws = skip_json_whitespace_eq [OF diff_le_self [of n "length s2"] assms(2), unfolded e2]
    note val = extract_json_string_eq [OF diff_le_self [of n "length ?s3"] assms(2), unfolded e3]
    show ?thesis
      using Some k colon s2 ws assms
      by (auto simp: manifest_field_def read_field_def extract_json_string_eq manifest_sizes val e3
          split: option.split)
  qed
qed

lemma manifest_object_eq:
  assumes "pos \<le> n" and "n \<le> length buf"
  shows "manifest_object buf n pos a b =
    Some (map_option (\<lambda>(r, a', b'). (n - length r, a', b')) (read_object (seg buf pos n) a b))"
  using assms(1)
proof (induction "n - pos" arbitrary: pos a b rule: less_induct)
  case less
  note obj = manifest_object.simps [of buf n pos a b] read_object.simps [of "seg buf pos n" a b]
  let ?s = "skip_ws (seg buf pos n)" and ?q = "n - length (skip_ws (seg buf pos n))"
  have s: "seg buf ?q n = ?s" "pos \<le> ?q" "length ?s \<le> n"
    using seg_suffix [OF skip_ws_suffix less.prems assms(2)] by simp_all
  note ws = skip_json_whitespace_eq [OF less.prems assms(2)]
  show ?case
  proof (cases ?s)
    case Nil
    then show ?thesis using ws unfolding obj by simp
  next
    case (Cons c cs)
    note d = seg_ConsD [OF s(1) [unfolded Cons] diff_le_self assms(2)]
    have cs: "seg buf (Suc ?q) n = cs" "Suc ?q \<le> n" using d(1,3) Cons by simp_all
    then have lc: "n - length cs = Suc ?q" using assms(2) length_seg [of n buf "Suc ?q"] by simp
    show ?thesis
    proof (cases "c = 125 \<or> c = 44")
      case True
      then show ?thesis
        using ws d Cons cs lc s(2) less.hyps [of "Suc ?q"] unfolding obj by auto
    next
      case False
      have sq: "seg buf (n - Suc (length cs)) n = c # cs" using s(1) Cons by simp
      note f = manifest_field_eq [OF diff_le_self [of n "Suc (length cs)"] assms(2), of a b, unfolded sq]
      show ?thesis
      proof (cases "read_field (c # cs) a b")
        case None
        then show ?thesis using ws d Cons False f unfolding obj by simp
      next
        case (Some x)
        obtain r a1 b1 where x: "x = (r, a1, b1)" by (cases x)
        have rest: "rest_of r (seg buf ?q n)" using read_field_suffix Some x s(1) Cons by simp
        then have r: "seg buf (n - length r) n = r"
          using seg_suffix [OF rest_of_suffix diff_le_self assms(2)] by blast
        have "length r < length ?s" using rest_of_length [OF rest] s(1) by simp
        then have "?q < n - length r" using s(3) by linarith
        then have "n - (n - length r) < n - pos" using s(2) d(1) by linarith
        from less.hyps [OF this diff_le_self]
        show ?thesis using ws d Cons False f Some x r(1) unfolding obj by simp
      qed
    qed
  qed
qed

text \<open>The parser's result with the error code of the reader.\<close>

definition or_parse_error :: "fota_manifest_file list option \<Rightarrow> fota_install_result + fota_manifest_file list" where
  "or_parse_error r = (case r of None \<Rightarrow> Inl FOTA_INSTALL_ERR_MANIFEST_PARSE | Some fs \<Rightarrow> Inr fs)"

lemma manifest_array_eq:
  assumes "pos \<le> n" and "n \<le> length buf"
  shows "\<exists>r. manifest_array alloc buf n pos found cap = Some r \<and>
    (r = or_parse_error (map_option ((@) found) (read_array (seg buf pos n))) \<or>
     r = Inl FOTA_INSTALL_ERR_IO \<and> (\<exists>k. \<not> alloc Site_manifest_files k))"
  using assms(1)
proof (induction "n - pos" arbitrary: pos found cap rule: less_induct)
  case less
  note arr = manifest_array.simps [of alloc buf n pos found cap] read_array.simps [of "seg buf pos n"]
  let ?s = "skip_ws (seg buf pos n)" and ?q = "n - length (skip_ws (seg buf pos n))"
  have s: "seg buf ?q n = ?s" "pos \<le> ?q" "length ?s \<le> n"
    using seg_suffix [OF skip_ws_suffix less.prems assms(2)] by simp_all
  note ws = skip_json_whitespace_eq [OF less.prems assms(2)]
  show ?case
  proof (cases ?s)
    case Nil
    then show ?thesis using ws unfolding arr by (simp add: or_parse_error_def)
  next
    case (Cons c cs)
    note d = seg_ConsD [OF s(1) [unfolded Cons] diff_le_self assms(2)]
    have cs: "seg buf (Suc ?q) n = cs" "Suc ?q \<le> n" using d(1,3) Cons by simp_all
    show ?thesis
    proof (cases "c = 123")
      case False
      have "n - Suc ?q < n - pos" using s(2) cs(2) by linarith
      from less.hyps [OF this cs(2), of found cap]
      show ?thesis using False ws d Cons cs unfolding arr by (auto simp: or_parse_error_def)
    next
      case True
      note obj = manifest_object_eq [OF cs(2) assms(2), of None None, unfolded cs(1)]
      show ?thesis
      proof (cases "\<exists>r p h. read_object cs None None = Some (r, Some p, Some h)")
        case False
        then show ?thesis
          using True ws d Cons obj unfolding arr
          by (cases "read_object cs None None") (auto simp: or_parse_error_def split: option.splits)
      next
        case obj_ok: True
        then obtain r p h where ro: "read_object cs None None = Some (r, Some p, Some h)" by blast
        have rest: "rest_of r (seg buf (Suc ?q) n)" using read_object_suffix [OF ro] cs(1) by simp
        have r: "seg buf (n - length r) n = r" "Suc ?q \<le> n - length r"
          using seg_suffix [OF rest_of_suffix [OF rest] cs(2) assms(2)] by simp_all
        then have lt: "n - (n - length r) < n - pos" using s(2) cs(2) by linarith
        let ?f = "\<lparr>mf_path = p, mf_sha256_hex = h\<rparr>"
        show ?thesis
        proof (cases "manifest_grow alloc (length found) cap")
          case None
          then have "\<exists>k. \<not> alloc Site_manifest_files k"
            by (auto simp: manifest_grow_def Let_def split: if_splits)
          then show ?thesis using None True ws d Cons obj ro unfolding arr by simp
        next
          case (Some cap')
          have "map_option ((@) (found @ [?f])) x = map_option ((@) found) (map_option ((#) ?f) x)" for x
            by (cases x) simp_all
          then show ?thesis
            using less.hyps [OF lt diff_le_self, of "found @ [?f]" cap'] Some True ws d Cons obj ro r(1)
            unfolding arr by simp
        qed
      qed
    qed
  qed
qed

lemma after_key_suffix: "after_key k s = Some r \<Longrightarrow> suffix r s"
proof (induction k s rule: after_key.induct)
  case (1 k s)
  then show ?case
    by (subst (asm) (2) after_key.simps) (auto split: if_split_asm list.split_asm simp: suffix_drop suffix_ConsI)
qed

lemma find_files_key_eq:
  assumes "i \<le> n" and "n \<le> length buf"
  shows "case after_key files_key (seg buf i n) of
      None \<Rightarrow> find_files_key buf n i = Some None
    | Some r \<Rightarrow> \<exists>k. find_files_key buf n i = Some (Some k) \<and> k + length files_key \<le> n \<and>
        seg buf (k + length files_key) n = r"
  using assms(1)
proof (induction "n - i" arbitrary: i rule: less_induct)
  case less
  note key = find_files_key.simps [of buf n i] after_key.simps [of files_key "seg buf i n"]
  have len: "length (seg buf i n) = n - i" using assms(2) by (simp add: length_seg)
  have pos: "0 < length files_key" by (simp add: files_key_def)
  show ?case
  proof (cases "i + length files_key \<le> n")
    case room: True
    have sl: "rd_slice buf i (length files_key) = Some (take (length files_key) (seg buf i n))"
      using room assms(2) by (simp add: rd_slice_def seg_def min_def)
    show ?thesis
    proof (cases "take (length files_key) (seg buf i n) = files_key")
      case True
      have "drop (length files_key) (seg buf i n) = seg buf (i + length files_key) n"
        by (simp add: seg_def drop_take add.commute)
      then show ?thesis using True room sl unfolding key by auto
    next
      case False
      have i: "i < n" using room pos by linarith
      then have "n - Suc i < n - i" "Suc i \<le> n" by simp_all
      from less.hyps [OF this] show ?thesis
        using False room sl seg_Cons [OF i assms(2)] unfolding key by (simp split: option.split_asm option.split)
    qed
  next
    case False
    have none: "after_key k s = None" if "length s < length k" for k s :: "u8 list"
      using that
    proof (induction s)
      case Nil
      then show ?case by (subst after_key.simps) auto
    next
      case (Cons a s)
      then show ?case by (subst after_key.simps) (auto dest: arg_cong [of _ _ length])
    qed
    have "after_key files_key (seg buf i n) = None" using False len less.prems by (intro none) linarith
    then show ?thesis using False by (simp add: find_files_key.simps [of buf n i])
  qed
qed

lemma parse_manifest_files_eq:
  assumes "n \<le> length buf"
  shows "\<exists>r. parse_manifest_files alloc buf n = Some r \<and>
    (r = or_parse_error (manifest_spec (take n buf)) \<or>
     r = Inl FOTA_INSTALL_ERR_IO \<and> (\<exists>k. \<not> alloc Site_manifest_files k))"
proof -
  have whole: "seg buf 0 n = take n buf" by (simp add: seg_def)
  note key = find_files_key_eq [OF le0 assms, unfolded whole]
  show ?thesis
  proof (cases "after_key files_key (take n buf)")
    case None
    then show ?thesis using key by (simp add: parse_manifest_files_def manifest_spec_def or_parse_error_def)
  next
    case (Some s1)
    then obtain k where k: "find_files_key buf n 0 = Some (Some k)" "k + length files_key \<le> n"
        "seg buf (k + length files_key) n = s1" using key by auto
    note colon = expect_char_eq [OF k(2) assms, of 58, unfolded k(3)]
    show ?thesis
    proof (cases "read_char 58 s1")
      case None
      then show ?thesis using Some k(1) colon
        by (simp add: parse_manifest_files_def manifest_spec_def or_parse_error_def)
    next
      case s2: (Some s2)
      have e2: "seg buf (n - length s2) n = s2"
        using seg_suffix [OF rest_of_suffix [OF read_char_suffix [OF s2, folded k(3)]] k(2) assms] by simp
      note bracket = expect_char_eq [OF diff_le_self [of n "length s2"] assms, of 91, unfolded e2]
      show ?thesis
      proof (cases "read_char 91 s2")
        case None
        then show ?thesis using Some k(1) colon s2 bracket
          by (simp add: parse_manifest_files_def manifest_spec_def or_parse_error_def)
      next
        case s3: (Some s3)
        have "suffix s3 (seg buf (n - length s2) n)" unfolding e2
          using read_char_suffix [OF s3] by (rule rest_of_suffix)
        then have e3: "seg buf (n - length s3) n = s3" using seg_suffix [OF _ diff_le_self assms] by blast
        have "map_option ((@) []) x = x" for x :: "fota_manifest_file list option" by (cases x) simp_all
        then show ?thesis
          using manifest_array_eq [OF diff_le_self [of n "length s3"] assms, of alloc "[]" 0, unfolded e3]
            Some k(1) colon s2 bracket s3
          by (simp add: parse_manifest_files_def manifest_spec_def)
      qed
    qed
  qed
qed

end
