(* ===== verification/Fota_Verify.thy ===== *)
theory Fota_Verify
  imports Fota_Manifest_Spec
begin

section \<open>What manifest verification establishes\<close>

text \<open>
  \<open>bytes_to_hex_lower\<close> prints a digest injectively, so comparing hex strings is comparing digests;
  \<open>fota_verify_manifest\<close> returns for every archive the tar parser accepts, and what its \<open>OK\<close> means: every listed
  file is present with the listed SHA-256, there are as many listings as files, and, when no file is listed twice,
  the files of the archive are exactly the listed ones.
\<close>

subsection \<open>Hex\<close>

definition hex_text :: "u8 list \<Rightarrow> u8 list" where
  "hex_text bs = concat (map (\<lambda>b. [hex_digit (drop_bit 4 b), hex_digit (b AND 0x0F)]) bs)"

lemma length_hex_text [simp]: "length (hex_text bs) = 2 * length bs"
  by (induction bs) (simp_all add: hex_text_def)

lemma hex_text_snoc: "hex_text (bs @ [b]) = hex_text bs @ [hex_digit (drop_bit 4 b), hex_digit (b AND 0x0F)]"
  by (simp add: hex_text_def)

lemma hex_loop_eq:
  assumes "i \<le> length bytes" and "length rest = k + 2 * (length bytes - i)"
  shows "0 < k \<Longrightarrow> hex_loop bytes (length bytes) i (hex_text (take i bytes) @ rest) =
    Some (hex_text bytes @ 0 # drop (2 * (length bytes - i) + 1) rest)"
  using assms
proof (induction "length bytes - i" arbitrary: i rest)
  case 0
  then obtain r rs where "rest = r # rs" by (cases rest) auto
  then show ?case using 0 by (simp add: hex_loop.simps wr_slice_def)
next
  case (Suc m)
  then have i: "i < length bytes" by simp
  obtain r1 r2 rs where rest: "rest = r1 # r2 # rs"
    using Suc.prems Suc.hyps(2) by (cases rest; cases "tl rest") auto
  let ?b = "bytes ! i"
  have w1: "wr_slice (hex_text (take i bytes) @ rest) (i * 2) [hex_digit (drop_bit 4 ?b)] =
      Some (hex_text (take i bytes) @ hex_digit (drop_bit 4 ?b) # r2 # rs)"
    using i rest by (simp add: wr_slice_def)
  have w2: "wr_slice (hex_text (take i bytes) @ hex_digit (drop_bit 4 ?b) # r2 # rs) (i * 2 + 1)
      [hex_digit (?b AND 0x0F)] = Some (hex_text (take (Suc i) bytes) @ rs)"
    using i by (simp add: wr_slice_def take_Suc_conv_app_nth hex_text_snoc)
  have d: "2 * (length bytes - i) = Suc (Suc (2 * (length bytes - Suc i)))" using i by linarith
  have "hex_loop bytes (length bytes) (Suc i) (hex_text (take (Suc i) bytes) @ rs) =
      Some (hex_text bytes @ 0 # drop (2 * (length bytes - Suc i) + 1) rs)"
    using Suc.hyps(1) [of "Suc i" rs] Suc.hyps(2) Suc.prems i rest by simp
  then show ?case
    using i w1 w2 by (simp add: hex_loop.simps [of bytes "length bytes" i] rd_def rest d)
qed

lemma bytes_to_hex_lower_eq:
  assumes "2 * length bytes < length out"
  shows "bytes_to_hex_lower bytes (length bytes) out = Some (hex_text bytes @ 0 # drop (2 * length bytes + 1) out)"
  using hex_loop_eq [of 0 bytes out "length out - 2 * length bytes"] assms
  by (simp add: bytes_to_hex_lower_def hex_text_def)

lemma hex_digit_eq:
  assumes "n < 16" shows "hex_digit n = (if n < 10 then 48 + n else 87 + n)"
proof -
  have "unat n < 16" using assms by (simp add: word_less_nat_alt)
  then have "unat n \<in> set [0..<16]" by simp
  moreover have "n = of_nat (unat n)" by simp
  moreover have "\<forall>k \<in> set [0..<16]. hex_digit (of_nat k) = (if (of_nat k :: u8) < 10 then 48 + of_nat k else 87 + of_nat k)"
    by (simp add: upt_rec hex_digit_def ascii_def)
  ultimately show ?thesis by metis
qed

lemma hex_digit_inject:
  assumes "m < 16" and "n < 16" and "hex_digit m = hex_digit n" shows "m = n"
proof -
  have *: "unat m < 16" "unat n < 16" using assms(1,2) by (simp_all add: word_less_nat_alt)
  have d: "unat (hex_digit k) = (if unat k < 10 then 48 + unat k else 87 + unat k)" if "k < 16" for k
  proof -
    have k: "unat k < 16" using that by (simp add: word_less_nat_alt)
    have "unat (48 + k) = 48 + unat k" "unat (87 + k) = 87 + unat k"
      using k by (simp_all add: unat_word_ariths)
    then show ?thesis using hex_digit_eq [OF that] by (simp add: word_less_nat_alt)
  qed
  have "unat (hex_digit m) = unat (hex_digit n)" using assms(3) by simp
  then have "unat m = unat n" unfolding d [OF assms(1)] d [OF assms(2)] using * by (simp split: if_splits)
  then show ?thesis by (simp add: word_unat_eq_iff)
qed

lemma hex_digit_nonzero: "n < 16 \<Longrightarrow> hex_digit n \<noteq> 0"
  by (auto simp: hex_digit_eq word_less_nat_alt word_unat_eq_iff unat_word_ariths)

lemma nibbles_less: "drop_bit 4 (b :: u8) < 16" "b AND 0x0F < 16"
proof -
  have "b AND 0x0F = take_bit 4 b" by (simp add: take_bit_eq_mask mask_eq_exp_minus_1)
  then show "b AND 0x0F < 16" using take_bit_nat_less_exp [of 4 "unat b"]
    by (simp only: word_less_nat_alt unsigned_take_bit_eq) simp
  have "unat b < 256" using unsigned_less [of b, where 'a = nat] by simp
  moreover have "unat (drop_bit 4 b) = unat b div 2 ^ 4"
    by (simp add: unat_drop_bit_eq drop_bit_eq_div [of 4 "unat b"])
  ultimately show "drop_bit 4 b < 16" by (simp only: word_less_nat_alt) (simp add: less_mult_imp_div_less)
qed

lemma hex_text_no_nul: "0 \<notin> set (hex_text bs)"
  using nibbles_less hex_digit_nonzero by (fastforce simp: hex_text_def)

lemma hex_text_inject: "hex_text xs = hex_text ys \<Longrightarrow> xs = ys"
proof (induction xs arbitrary: ys)
  case (Cons x xs)
  then obtain y ys' where ys: "ys = y # ys'" by (cases ys) (simp_all add: hex_text_def)
  have "drop_bit 4 x = drop_bit 4 y" "x AND 0x0F = y AND 0x0F"
    using Cons.prems ys nibbles_less hex_digit_inject by (auto simp: hex_text_def)
  moreover have "b = push_bit 4 (drop_bit 4 b) + (b AND 0x0F)" for b :: u8
    using bits_ident [of 4 b] by (simp add: take_bit_eq_mask mask_eq_exp_minus_1)
  ultimately have "x = y" by metis
  then show ?case using Cons ys by (simp add: hex_text_def)
qed (simp add: hex_text_def split: list.splits)

subsection \<open>Looking up and matching files\<close>

lemma entry_index_find:
  "entry_index es p j = (case find_entry es p of None \<Rightarrow> None
     | Some _ \<Rightarrow> Some (j + length (takeWhile (\<lambda>e. \<not> (etype e = FOTA_TAR_ENTRY_FILE \<and> path e = p)) es)))"
  by (induction es arbitrary: j) (auto split: option.split)

lemma find_entry_nth:
  "find_entry es p = Some e \<Longrightarrow>
    es ! length (takeWhile (\<lambda>e. \<not> (etype e = FOTA_TAR_ENTRY_FILE \<and> path e = p)) es) = e \<and>
    length (takeWhile (\<lambda>e. \<not> (etype e = FOTA_TAR_ENTRY_FILE \<and> path e = p)) es) < length es"
  by (induction es) (auto split: if_splits)

lemma find_entry_Some:
  "find_entry es p = Some e \<Longrightarrow> e \<in> set es \<and> etype e = FOTA_TAR_ENTRY_FILE \<and> path e = p"
  by (induction es) (auto split: if_splits)

lemma find_entry_None_iff:
  "find_entry es p = None \<longleftrightarrow> (\<forall>e \<in> set es. etype e = FOTA_TAR_ENTRY_FILE \<longrightarrow> path e \<noteq> p)"
  by (induction es) auto

lemma find_entry_unique:
  assumes "distinct (map path (filter is_payload_file es))" and "e \<in> set es" and "is_payload_file e"
  shows "find_entry es (path e) = Some e"
  using assms
proof (induction es)
  case (Cons a es)
  show ?case
  proof (cases "a = e")
    case False
    then have "e \<in> set es" using Cons.prems(2) by simp
    then have "\<not> (etype a = FOTA_TAR_ENTRY_FILE \<and> path a = path e)"
      using Cons.prems(1,3) by (auto simp: is_payload_file_def)
    then show ?thesis using Cons False by (auto split: if_splits)
  qed (use Cons.prems(3) in \<open>simp add: is_payload_file_def\<close>)
qed simp

lemma count_file_entries_eq: "count_file_entries es = length (filter is_payload_file es)"
  by (induction es) (simp_all add: is_payload_file_def)

text \<open>A listing of the manifest holds of the archive: the first file at its path has its digest.\<close>

definition listing_ok :: "'h openssl \<Rightarrow> u8 list \<Rightarrow> fota_tar_entry list \<Rightarrow> fota_manifest_file \<Rightarrow> bool" where
  "listing_ok C tar es mf \<longleftrightarrow>
     (case find_entry es (cstr (mf_path mf)) of
        None \<Rightarrow> False
      | Some e \<Rightarrow>
          (case EVP_Digest C (entry_data tar e) EVP_sha256 of
             (rc, digest) \<Rightarrow> rc = 1 \<and> hex_text digest = cstr (mf_sha256_hex mf)))"

text \<open>The two ways in which a listing does not hold: it is refuted, or its file has no digest.\<close>

definition listing_refuted :: "'h openssl \<Rightarrow> u8 list \<Rightarrow> fota_tar_entry list \<Rightarrow> fota_manifest_file \<Rightarrow> bool" where
  "listing_refuted C tar es mf \<longleftrightarrow>
     (case find_entry es (cstr (mf_path mf)) of
        None \<Rightarrow> True
      | Some e \<Rightarrow>
          (case EVP_Digest C (entry_data tar e) EVP_sha256 of
             (rc, digest) \<Rightarrow> rc = 1 \<and> hex_text digest \<noteq> cstr (mf_sha256_hex mf)))"

definition listing_undigested :: "'h openssl \<Rightarrow> u8 list \<Rightarrow> fota_tar_entry list \<Rightarrow> fota_manifest_file \<Rightarrow> bool" where
  "listing_undigested C tar es mf \<longleftrightarrow>
     (case find_entry es (cstr (mf_path mf)) of
        None \<Rightarrow> False
      | Some e \<Rightarrow> fst (EVP_Digest C (entry_data tar e) EVP_sha256) \<noteq> 1)"

lemma digest_contractD:
  "digest_contract C \<Longrightarrow> EVP_Digest C d EVP_sha256 = (1, digest) \<Longrightarrow> length digest = 32"
  unfolding digest_contract_def by (metis fst_conv snd_conv)

lemma wf_entries_readable:
  "wf_entries tar es \<Longrightarrow> e \<in> set es \<Longrightarrow> rd_slice tar (data_off e) (esize e) = Some (entry_data tar e)"
  by (simp add: wf_entries_def entry_ok_def rd_slice_def entry_data_def)

lemma match_files_eq:
  assumes "wf_entries tar es" and "digest_contract C" and "length es \<le> length matched"
  shows "\<exists>r. match_files C tar es mfs matched cnt = Some r \<and>
    ((\<forall>mf \<in> set mfs. listing_ok C tar es mf) \<longrightarrow> (\<exists>m. r = Inr (m, cnt + length mfs))) \<and>
    (\<not> (\<forall>mf \<in> set mfs. listing_ok C tar es mf) \<longrightarrow>
       r = Inl FOTA_INSTALL_ERR_MANIFEST_MISMATCH \<and> (\<exists>mf \<in> set mfs. listing_refuted C tar es mf) \<or>
       r = Inl FOTA_INSTALL_ERR_IO \<and> (\<exists>mf \<in> set mfs. listing_undigested C tar es mf))"
  using assms(3)
proof (induction mfs arbitrary: matched cnt)
  case (Cons mf mfs)
  let ?p = "cstr (mf_path mf)"
  show ?case
  proof (cases "find_entry es ?p")
    case None
    then show ?thesis by (simp add: entry_index_find listing_ok_def listing_refuted_def)
  next
    case (Some e)
    define j where "j = length (takeWhile (\<lambda>e. \<not> (etype e = FOTA_TAR_ENTRY_FILE \<and> path e = ?p)) es)"
    have j: "entry_index es ?p 0 = Some j" "es ! j = e" "j < length es"
      using Some find_entry_nth [OF Some] by (simp_all add: entry_index_find j_def)
    then have d: "rd_slice tar (data_off e) (esize e) = Some (entry_data tar e)"
      using wf_entries_readable [OF assms(1)] find_entry_Some [OF Some] by blast
    obtain rc digest where dig: "EVP_Digest C (entry_data tar e) EVP_sha256 = (rc, digest)" by fastforce
    show ?thesis
    proof (cases "rc = 1")
      case False
      then show ?thesis using j d dig Some by (simp add: listing_ok_def listing_undigested_def)
    next
      case True
      then have len: "length digest = 32" using digest_contractD [OF assms(2)] dig by blast
      have hex: "bytes_to_hex_lower digest 32 (replicate 65 0) = Some (hex_text digest @ [0])"
        using bytes_to_hex_lower_eq [of digest "replicate 65 0"] len by simp
      have c: "cstr (hex_text digest @ [0]) = hex_text digest"
        by (rule cstr_append_nul) (rule hex_text_no_nul)
      have w: "wr_slice matched j [1] = Some (take j matched @ [1] @ drop (j + 1) matched)"
        using j(3) Cons.prems by (simp add: wr_slice_def)
      have "length es \<le> length (take j matched @ [1] @ drop (j + 1) matched)" using Cons.prems j(3) by simp
      note IH = Cons.IH [OF this, of "cnt + 1"]
      have lo: "listing_ok C tar es mf \<longleftrightarrow> hex_text digest = cstr (mf_sha256_hex mf)"
        using Some dig True by (simp add: listing_ok_def)
      have step: "match_files C tar es (mf # mfs) matched cnt =
          (if hex_text digest \<noteq> cstr (mf_sha256_hex mf) then Some (Inl FOTA_INSTALL_ERR_MANIFEST_MISMATCH)
           else match_files C tar es mfs (take j matched @ [1] @ drop (j + 1) matched) (cnt + 1))"
        using j d dig Some True len hex c w by (simp add: EVP_MAX_MD_SIZE_def manifest_sizes)
      have "\<not> listing_ok C tar es mf \<Longrightarrow> listing_refuted C tar es mf"
        using Some dig True by (simp add: listing_ok_def listing_refuted_def)
      then show ?thesis
        using IH unfolding step lo [symmetric] by (cases "listing_ok C tar es mf") auto
    qed
  qed
qed simp

subsection \<open>The whole check\<close>

text \<open>The archive agrees with its manifest, as far as \<open>fota_verify_manifest\<close> looks.\<close>

definition manifest_of :: "u8 list \<Rightarrow> fota_tar_entry list \<Rightarrow> fota_manifest_file list option" where
  "manifest_of tar es =
     Option.bind (find_entry es manifest_name) (\<lambda>me. manifest_spec (entry_data tar me))"

definition manifest_agrees :: "'h openssl \<Rightarrow> u8 list \<Rightarrow> fota_tar_entry list \<Rightarrow> bool" where
  "manifest_agrees C tar es \<longleftrightarrow>
     (case manifest_of tar es of
        None \<Rightarrow> False
      | Some mfs \<Rightarrow>
          (\<forall>mf \<in> set mfs. listing_ok C tar es mf) \<and> length mfs = length (filter is_payload_file es))"

definition manifest_error :: "fota_install_result \<Rightarrow> bool" where
  "manifest_error r \<longleftrightarrow>
     r = FOTA_INSTALL_ERR_MANIFEST_MISSING \<or> r = FOTA_INSTALL_ERR_MANIFEST_PARSE \<or>
     r = FOTA_INSTALL_ERR_MANIFEST_MISMATCH \<or> r = FOTA_INSTALL_ERR_IO"

text \<open>
  What each code of \<open>fota_verify_manifest\<close> says of the archive.  The conditions of \<open>OK\<close>, \<open>MISSING\<close>, \<open>PARSE\<close> and
  \<open>MISMATCH\<close> exclude each other.
\<close>

definition manifest_verdict ::
    "'h openssl \<Rightarrow> allocator \<Rightarrow> u8 list \<Rightarrow> fota_tar_entry list \<Rightarrow> fota_install_result \<Rightarrow> bool"
where
  "manifest_verdict C alloc tar es r \<longleftrightarrow>
     (if find_entry es manifest_name = None then r = FOTA_INSTALL_ERR_MANIFEST_MISSING
      else r = FOTA_INSTALL_ERR_IO \<and> (\<exists>s k. \<not> alloc s k) \<or>
        (case manifest_of tar es of
           None \<Rightarrow> r = FOTA_INSTALL_ERR_MANIFEST_PARSE
         | Some mfs \<Rightarrow>
             r = FOTA_INSTALL_OK \<and> manifest_agrees C tar es \<or>
             r = FOTA_INSTALL_ERR_MANIFEST_MISMATCH \<and>
               ((\<exists>mf \<in> set mfs. listing_refuted C tar es mf) \<or> length mfs \<noteq> length (filter is_payload_file es)) \<or>
             r = FOTA_INSTALL_ERR_IO \<and> (\<exists>mf \<in> set mfs. listing_undigested C tar es mf)))"

lemma listing_exclusive:
  "listing_ok C tar es mf \<Longrightarrow> \<not> listing_refuted C tar es mf \<and> \<not> listing_undigested C tar es mf"
  by (auto simp: listing_ok_def listing_refuted_def listing_undigested_def split: option.splits)

lemma verify_manifest_verdict:
  assumes wf: "wf_entries tar es" and digest: "digest_contract C"
  shows "\<exists>r. fota_verify_manifest C alloc tar (Some es) = Some r \<and> manifest_verdict C alloc tar es r"
proof (cases "find_entry es manifest_name")
  case None
  then show ?thesis by (simp add: fota_verify_manifest_def manifest_verdict_def)
next
  case (Some me)
  then have me: "me \<in> set es" using find_entry_Some by blast
  then have size: "esize me \<le> length (drop (data_off me) tar)"
    using wf by (auto simp: wf_entries_def entry_ok_def)
  have data: "take (esize me) (drop (data_off me) tar) = entry_data tar me" by (simp add: entry_data_def)
  obtain r where r: "parse_manifest_files alloc (drop (data_off me) tar) (esize me) = Some r"
      "r = or_parse_error (manifest_spec (entry_data tar me)) \<or>
       r = Inl FOTA_INSTALL_ERR_IO \<and> (\<exists>k. \<not> alloc Site_manifest_files k)"
    using parse_manifest_files_eq [OF size, of alloc, unfolded data] by blast
  show ?thesis
  proof (cases r)
    case (Inl e)
    then show ?thesis
      using Some r
      by (auto simp: fota_verify_manifest_def manifest_verdict_def manifest_of_def or_parse_error_def split: option.splits)
  next
    case (Inr mfs)
    then have spec: "manifest_of tar es = Some mfs"
      using Some r(2) by (auto simp: manifest_of_def or_parse_error_def split: option.splits)
    let ?slots = "if length es > 0 then length es else 1"
    have slots: "length es \<le> length (replicate ?slots (0 :: u8))" by simp
    show ?thesis
    proof (cases "alloc Site_matched ?slots")
      case False
      then show ?thesis using Some r(1) Inr
        by (auto simp: fota_verify_manifest_def Let_def manifest_verdict_def)
    next
      case True
      obtain m where m: "match_files C tar es mfs (replicate ?slots 0) 0 = Some m"
          "(\<forall>mf \<in> set mfs. listing_ok C tar es mf) \<longrightarrow> (\<exists>x. m = Inr (x, length mfs))"
          "\<not> (\<forall>mf \<in> set mfs. listing_ok C tar es mf) \<longrightarrow>
             m = Inl FOTA_INSTALL_ERR_MANIFEST_MISMATCH \<and> (\<exists>mf \<in> set mfs. listing_refuted C tar es mf) \<or>
             m = Inl FOTA_INSTALL_ERR_IO \<and> (\<exists>mf \<in> set mfs. listing_undigested C tar es mf)"
        using match_files_eq [OF wf digest slots, of mfs 0] unfolding add_0 by blast
      then show ?thesis
        using Some r(1) Inr True spec
        by (auto simp: fota_verify_manifest_def Let_def manifest_agrees_def manifest_verdict_def
            count_file_entries_eq split: if_splits)
    qed
  qed
qed

lemma verify_manifest_cases:
  assumes "wf_entries tar es" and "digest_contract C"
  shows "\<exists>r. fota_verify_manifest C alloc tar (Some es) = Some r \<and>
    (r = FOTA_INSTALL_OK \<longrightarrow> manifest_agrees C tar es) \<and>
    (r \<noteq> FOTA_INSTALL_OK \<longrightarrow> manifest_error r) \<and>
    (manifest_agrees C tar es \<longrightarrow>
       r = FOTA_INSTALL_OK \<or> r = FOTA_INSTALL_ERR_IO \<and> (\<exists>s k. \<not> alloc s k))"
proof -
  obtain r where r: "fota_verify_manifest C alloc tar (Some es) = Some r" "manifest_verdict C alloc tar es r"
    using verify_manifest_verdict [OF assms] by blast
  then show ?thesis
    by (intro exI [of _ r])
       (auto simp: manifest_verdict_def manifest_agrees_def manifest_error_def manifest_of_def
        dest: listing_exclusive split: if_splits option.splits)
qed

end
