(* ===== verification/Fota_Manifest_Text.thy ===== *)
theory Fota_Manifest_Text
  imports Fota_Manifest_Spec
begin

section \<open>The manifest as the packager prints it\<close>

text \<open>
  The text that \<open>stage_and_compress\<close> (packager/fota_secure/tarball.py) puts into the archive:
  \<open>json.dumps (manifest, indent=2)\<close> of the dict of \<open>build_manifest\<close> (manifest.py), for strings of characters below 256,
  given by their codes.  The consumer's reader recovers the list of files from it when the strings are printable ASCII; it
  rejects a string with any other character, which \<open>json.dumps\<close> escapes.
\<close>

subsection \<open>Printing\<close>

definition printable :: "u8 list \<Rightarrow> bool" where
  "printable s \<longleftrightarrow> (\<forall>b \<in> set s. 32 \<le> b \<and> b < 127)"

text \<open>
  \<open>json.dumps\<close> with \<open>ensure_ascii\<close>: quote and backslash, the five short escapes, and \<open>\u00XX\<close> for every other
  character outside the printable ASCII range.
\<close>

definition json_char :: "u8 \<Rightarrow> u8 list" where
  "json_char b =
     (if b = 34 then [92, 34] else if b = 92 then [92, 92]
      else if b = 8 then [92, 98] else if b = 9 then [92, 116] else if b = 10 then [92, 110]
      else if b = 12 then [92, 102] else if b = 13 then [92, 114]
      else if b < 32 \<or> 127 \<le> b
      then [92, 117, 48, 48, hex_digit (drop_bit 4 b), hex_digit (b mod 16)]
      else [b])"

definition json_escape :: "u8 list \<Rightarrow> u8 list" where
  "json_escape s = concat (map json_char s)"

definition json_string :: "u8 list \<Rightarrow> u8 list" where
  "json_string s = 34 # json_escape s @ [34]"

definition newline_indent :: "nat \<Rightarrow> u8 list" where
  "newline_indent n = 10 # replicate n 32"

definition json_member :: "nat \<Rightarrow> u8 list \<Rightarrow> u8 list \<Rightarrow> u8 list" where
  "json_member n key text_of_value = newline_indent n @ json_string key @ [58, 32] @ text_of_value"

definition json_file :: "u8 list \<times> u8 list \<Rightarrow> u8 list" where
  "json_file f =
     newline_indent 4 @ [123] @ json_member 6 path_key (json_string (fst f)) @ [44] @
     json_member 6 sha256_key (json_string (snd f)) @ newline_indent 4 @ [125]"

fun json_files :: "(u8 list \<times> u8 list) list \<Rightarrow> u8 list" where
  "json_files [] = []"
| "json_files [f] = json_file f"
| "json_files (f # g # fs) = json_file f @ [44] @ json_files (g # fs)"

definition json_array :: "(u8 list \<times> u8 list) list \<Rightarrow> u8 list" where
  "json_array fs = (if fs = [] then [91, 93] else [91] @ json_files fs @ newline_indent 2 @ [93])"

definition manifest_text ::
    "u8 list \<Rightarrow> u8 list \<Rightarrow> u8 list \<Rightarrow> u8 list \<Rightarrow> (u8 list \<times> u8 list) list \<Rightarrow> u8 list"
where
  "manifest_text platform fw_version build_date git_commit fs =
     [123] @ json_member 2 (ascii ''platform'') (json_string platform) @ [44] @
     json_member 2 (ascii ''fw_version'') (json_string fw_version) @ [44] @
     json_member 2 (ascii ''build_date_utc'') (json_string build_date) @ [44] @
     json_member 2 (ascii ''git_commit'') (json_string git_commit) @ [44] @
     json_member 2 (ascii ''files'') (json_array fs) @ newline_indent 0 @ [125]"

subsection \<open>Strings and whitespace\<close>

lemma printable_Cons [simp]: "printable (b # s) \<longleftrightarrow> 32 \<le> b \<and> b < 127 \<and> printable s"
  by (auto simp: printable_def)

lemma printable_Nil [simp]: "printable []"
  by (simp add: printable_def)

lemma json_char_printable:
  "32 \<le> b \<Longrightarrow> b < 127 \<Longrightarrow> json_char b = (if b = 34 then [92, 34] else if b = 92 then [92, 92] else [b])"
  by (auto simp: json_char_def)

lemma json_char_escaped:
  "\<not> (32 \<le> b \<and> b < 127) \<Longrightarrow> \<exists>c t. json_char b = 92 # c # t \<and> c \<notin> {34, 92, 47}"
  by (auto simp: json_char_def not_le not_less)

text \<open>The consumer's reader takes back exactly the printable strings that fit.\<close>

lemma string_rest_escape:
  "length out < cap \<Longrightarrow>
    string_rest cap out (json_escape s @ 34 # r) =
      (if printable s \<and> length out + length s < cap then Some (out @ s, r) else None)"
proof (induction s arbitrary: out)
  case (Cons b s)
  show ?case
  proof (cases "32 \<le> b \<and> b < 127")
    case True
    then show ?thesis using Cons by (auto simp: json_escape_def json_char_printable)
  next
    case False
    then obtain c t where "json_char b = 92 # c # t" "c \<notin> {34, 92, 47}" using json_char_escaped by blast
    then show ?thesis using False by (auto simp: json_escape_def)
  qed
qed (simp add: json_escape_def printable_def)

lemma read_string_json_string:
  "length s < cap \<Longrightarrow> printable s \<Longrightarrow> read_string cap (json_string s @ r) = Some (s, r)"
  using string_rest_escape [of "[]" cap s r] by (simp add: read_string_def json_string_def)

lemma read_string_json_string_Cons:
  "length s < cap \<Longrightarrow> printable s \<Longrightarrow> read_string cap (34 # json_escape s @ 34 # r) = Some (s, r)"
  using read_string_json_string [of s cap r] by (simp add: json_string_def)

lemma skip_ws_newline_indent [simp]: "skip_ws (newline_indent n @ s) = skip_ws s"
  by (simp add: skip_ws_def newline_indent_def dropWhile_append)

lemma skip_ws_space [simp]: "skip_ws (32 # s) = skip_ws s"
  by (simp add: skip_ws_def)

lemma skip_ws_Cons: "\<not> is_json_space c \<Longrightarrow> skip_ws (c # s) = c # s"
  by (simp add: skip_ws_def)

lemma skip_ws_json_string [simp]: "skip_ws (json_string s @ r) = json_string s @ r"
  by (simp add: json_string_def skip_ws_Cons)

subsection \<open>Reading back the files\<close>

lemma printable_no_nul: "printable s \<Longrightarrow> 0 \<notin> set s"
  by (auto simp: printable_def)

lemma printable_keys: "printable path_key" "printable sha256_key"
  by (simp_all add: printable_def path_key_def sha256_key_def ascii_def)

lemma read_field_path:
  "length p \<le> 255 \<Longrightarrow> printable p \<Longrightarrow>
    read_field (json_string path_key @ [58, 32] @ json_string p @ r) a b = Some (r, Some p, b)"
  by (simp add: read_field_def read_string_json_string read_char_def skip_ws_Cons
      path_key_def ascii_def cstr_def)

lemma read_field_sha256:
  "length h = 64 \<Longrightarrow> printable h \<Longrightarrow>
    read_field (json_string sha256_key @ [58, 32] @ json_string h @ r) a b = Some (r, a, Some h)"
  using cstr_id [OF printable_no_nul, of h, unfolded cstr_def, THEN arg_cong [where f = length]]
  by (simp add: read_field_def read_string_json_string read_char_def skip_ws_Cons
      path_key_def sha256_key_def ascii_def cstr_def)

definition listing :: "u8 list \<times> u8 list \<Rightarrow> bool" where
  "listing f \<longleftrightarrow> length (fst f) \<le> 255 \<and> printable (fst f) \<and> length (snd f) = 64 \<and> printable (snd f)"

lemma json_string_Cons: "json_string s @ r = 34 # (json_escape s @ 34 # r)"
  by (simp add: json_string_def)

lemma read_object_field:
  assumes "skip_ws s = json_string k @ r" and "read_field (json_string k @ r) a b = Some (t, a', b')"
  shows "read_object s a b = read_object t a' b'"
  using assms by (subst read_object.simps) (simp add: json_string_Cons)

lemma read_object_json_file:
  assumes "listing (p, h)"
  shows "read_object (json_member 6 path_key (json_string p) @ [44] @
      json_member 6 sha256_key (json_string h) @ newline_indent 4 @ [125] @ r) None None = Some (r, Some p, Some h)"
proof -
  have len: "length p \<le> 255" "printable p" "length h = 64" "printable h" using assms by (simp_all add: listing_def)
  let ?r2 = "newline_indent 4 @ [125] @ r"
  let ?r1 = "json_member 6 sha256_key (json_string h) @ ?r2"
  have "read_object (json_member 6 path_key (json_string p) @ [44] @ ?r1) None None
      = read_object ([44] @ ?r1) (Some p) None"
    by (rule read_object_field [where k = path_key and r = "[58, 32] @ json_string p @ [44] @ ?r1"])
       (use len in \<open>simp_all add: json_member_def read_field_path [simplified]\<close>)
  also have "\<dots> = read_object ?r1 (Some p) None"
    by (subst read_object.simps) (simp add: skip_ws_Cons)
  also have "\<dots> = read_object ?r2 (Some p) (Some h)"
    by (rule read_object_field [where k = sha256_key and r = "[58, 32] @ json_string h @ ?r2"])
       (use len in \<open>simp_all add: json_member_def read_field_sha256 [simplified]\<close>)
  also have "\<dots> = Some (r, Some p, Some h)"
    by (subst read_object.simps) (simp add: skip_ws_Cons)
  finally show ?thesis .
qed

lemma read_array_json_file:
  assumes "listing (p, h)"
  shows "read_array (json_file (p, h) @ r) =
    map_option ((#) \<lparr>mf_path = p, mf_sha256_hex = h\<rparr>) (read_array r)"
  using read_object_json_file [OF assms, of r]
  by (subst read_array.simps) (simp add: json_file_def skip_ws_Cons)

lemma read_array_json_files:
  assumes "\<forall>f \<in> set fs. listing f"
  shows "read_array (json_files fs @ newline_indent n @ 93 # r) =
    Some (map (\<lambda>(p, h). \<lparr>mf_path = p, mf_sha256_hex = h\<rparr>) fs)"
  using assms
proof (induction fs rule: json_files.induct)
  case 1
  then show ?case by (subst read_array.simps) (simp add: skip_ws_Cons)
next
  case (2 f)
  have "read_array (newline_indent n @ 93 # r) = Some []"
    by (subst read_array.simps) (simp add: skip_ws_Cons)
  then show ?case using 2 by (cases f) (simp add: read_array_json_file)
next
  case (3 f g fs)
  have "read_array (44 # s) = read_array s" for s
    by (subst read_array.simps) (simp add: skip_ws_Cons)
  then show ?case using 3 by (cases f) (simp add: read_array_json_file)
qed

subsection \<open>Finding the key\<close>

lemma after_key_no_quote: "34 \<notin> set c \<Longrightarrow> after_key files_key (c @ s) = after_key files_key s"
proof (induction c)
  case (Cons b c)
  then show ?case by (subst after_key.simps) (simp add: files_key_def)
qed simp

lemma after_key_quoted:
  assumes "34 \<notin> set c" and "c \<noteq> ascii ''files''"
  shows "after_key files_key (34 # c @ 34 # s) = after_key files_key (34 # s)"
proof -
  let ?t = "c @ 34 # s"
  have "take (length files_key) (34 # ?t) \<noteq> files_key"
  proof
    let ?k = "ascii ''files'' @ [34]"
    have fk: "files_key = 34 # ?k" by (simp add: files_key_def)
    assume "take (length files_key) (34 # ?t) = files_key"
    then have "take (length ?k) ?t = ?k" unfolding fk by (simp only: list.size add_Suc_right take_Suc_Cons) simp
    then have "?t = ?k @ drop (length ?k) ?t" by (metis append_take_drop_id)
    then have "takeWhile (\<lambda>b. b \<noteq> 34) ?t = takeWhile (\<lambda>b. b \<noteq> 34) (?k @ drop (length ?k) ?t)"
      by (rule arg_cong)
    moreover have "takeWhile (\<lambda>b. b \<noteq> 34) ?t = c" using assms(1) by (induction c) auto
    ultimately show False using assms(2) by (simp add: ascii_def)
  qed
  then show ?thesis using after_key_no_quote [OF assms(1), of "34 # s"] by (subst after_key.simps) simp
qed

lemma after_key_found: "after_key files_key (34 # ascii ''files'' @ 34 # s) = Some s"
  by (subst after_key.simps) (simp add: files_key_def ascii_def)

lemma json_escape_id: "34 \<notin> set s \<Longrightarrow> 92 \<notin> set s \<Longrightarrow> printable s \<Longrightarrow> json_escape s = s"
  by (induction s) (auto simp: json_escape_def json_char_printable)

text \<open>A value that cannot be taken for the key.\<close>

definition plain_value :: "u8 list \<Rightarrow> bool" where
  "plain_value s \<longleftrightarrow> 34 \<notin> set s \<and> 92 \<notin> set s \<and> s \<noteq> ascii ''files''"

lemma after_key_member:
  assumes "plain_value k" and "plain_value v" and "plain_value sep" and "printable k" and "printable v"
  shows "after_key files_key (json_string k @ [58, 32] @ json_string v @ sep @ json_string w @ r)
    = after_key files_key (json_string w @ r)"
proof -
  have "[58, 32] \<noteq> ascii ''files''" by (simp add: ascii_def)
  then show ?thesis
    using assms after_key_quoted [of k] after_key_quoted [of v] after_key_quoted [of sep]
      after_key_quoted [of "[58, 32]"]
    by (simp add: json_string_def plain_value_def json_escape_id after_key_no_quote)
qed

lemma manifest_spec_manifest_text:
  assumes "\<forall>v \<in> {platform, fw_version, build_date, git_commit}. plain_value v \<and> printable v"
    and "\<forall>f \<in> set fs. listing f"
  shows "manifest_spec (manifest_text platform fw_version build_date git_commit fs) =
    Some (map (\<lambda>(p, h). \<lparr>mf_path = p, mf_sha256_hex = h\<rparr>) fs)"
proof -
  have keys: "plain_value (ascii ''platform'')" "plain_value (ascii ''fw_version'')"
      "plain_value (ascii ''build_date_utc'')" "plain_value (ascii ''git_commit'')"
      "plain_value ([44] @ newline_indent 2)"
      "printable (ascii ''platform'')" "printable (ascii ''fw_version'')"
      "printable (ascii ''build_date_utc'')" "printable (ascii ''git_commit'')"
    by (simp_all add: plain_value_def printable_def ascii_def newline_indent_def)
  let ?rest = "[58, 32] @ json_array fs @ newline_indent 0 @ [125]"
  have "after_key files_key (manifest_text platform fw_version build_date git_commit fs) =
      after_key files_key (json_string (ascii ''files'') @ ?rest)"
    using assms(1) keys after_key_no_quote [of "[123] @ newline_indent 2"]
      after_key_member [of _ _ "[44] @ newline_indent 2"]
    by (simp add: manifest_text_def json_member_def newline_indent_def)
  also have "\<dots> = Some ?rest"
    using after_key_found by (simp add: json_string_def json_escape_def json_char_def ascii_def)
  finally have key: "after_key files_key (manifest_text platform fw_version build_date git_commit fs) = Some ?rest" .
  show ?thesis
  proof (cases "fs = []")
    case True
    then show ?thesis unfolding manifest_spec_def key
      by (simp add: read_char_def skip_ws_Cons json_array_def read_array.simps)
  next
    case False
    have "read_char 58 ?rest = Some (32 # json_array fs @ newline_indent 0 @ [125])"
      by (simp add: read_char_def skip_ws_Cons)
    moreover have "read_char 91 (32 # json_array fs @ newline_indent 0 @ [125]) =
        Some (json_files fs @ newline_indent 2 @ 93 # newline_indent 0 @ [125])"
      using False by (simp add: read_char_def skip_ws_Cons json_array_def)
    ultimately show ?thesis unfolding manifest_spec_def key
      using read_array_json_files [OF assms(2)] by simp
  qed
qed

end
