(* ===== verification/Fota_Manifest_Props.thy ===== *)
theory Fota_Manifest_Props
  imports Fota_Verify Fota_Manifest_Text
begin

section \<open>Properties of the manifest component\<close>

text \<open>
  The properties of the reader and of \<open>fota_verify_manifest\<close>, with the archive that shows where the check is weaker
  than set equality.
\<close>

lemma printable_hex_text [simp]: "printable (hex_text bs)"
proof -
  have "32 \<le> hex_digit n \<and> hex_digit n < 127" if "n < 16" for n
    using that by (simp add: hex_digit_eq word_less_nat_alt word_le_nat_alt unat_word_ariths)
  then show ?thesis using nibbles_less by (auto simp: printable_def hex_text_def)
qed

subsection \<open>Exactness without repeated listings\<close>

lemma manifest_agrees_exact:
  assumes "manifest_agrees C tar es" and "manifest_of tar es = Some mfs"
    and dist: "distinct (map (\<lambda>mf. cstr (mf_path mf)) mfs)"
    and own: "manifest_name \<notin> (\<lambda>mf. cstr (mf_path mf)) ` set mfs"
  shows "(\<lambda>mf. cstr (mf_path mf)) ` set mfs = path ` {e \<in> set es. is_payload_file e} \<and>
    distinct (map path (filter is_payload_file es))"
proof -
  let ?L = "(\<lambda>mf. cstr (mf_path mf)) ` set mfs" and ?F = "filter is_payload_file es"
  have ok: "\<forall>mf \<in> set mfs. listing_ok C tar es mf" "length mfs = length ?F"
    using assms(1,2) by (simp_all add: manifest_agrees_def)
  have sub: "?L \<subseteq> path ` set ?F"
  proof
    fix p assume "p \<in> ?L"
    then obtain mf where mf: "mf \<in> set mfs" "p = cstr (mf_path mf)" by blast
    then obtain e where e: "find_entry es p = Some e"
      using ok(1) by (auto simp: listing_ok_def split: option.splits)
    have "p \<noteq> manifest_name" using mf own by blast
    then have "is_payload_file e" "e \<in> set es" "path e = p"
      using find_entry_Some [OF e] by (auto simp: is_payload_file_def)
    then show "p \<in> path ` set ?F" by force
  qed
  have "card ?L = length mfs" using dist distinct_card by fastforce
  moreover have "card (path ` set ?F) \<le> length ?F" by (metis card_length length_map set_map)
  moreover have "card ?L \<le> card (path ` set ?F)" using sub by (simp add: card_mono)
  ultimately have eq: "card ?L = card (path ` set ?F)" "card (path ` set ?F) = length (map path ?F)"
    using ok(2) by simp_all
  have "?L = path ` set ?F" using sub eq(1) by (simp add: card_subset_eq)
  moreover have "distinct (map path ?F)" using eq(2) by (metis card_distinct set_map)
  ultimately show ?thesis by simp
qed

lemma manifest_agrees_covers:
  assumes "manifest_agrees C tar es" and "manifest_of tar es = Some mfs"
    and "distinct (map (\<lambda>mf. cstr (mf_path mf)) mfs)"
    and "manifest_name \<notin> (\<lambda>mf. cstr (mf_path mf)) ` set mfs"
    and "e \<in> set es" and "is_payload_file e"
  shows "\<exists>mf \<in> set mfs. cstr (mf_path mf) = path e \<and>
    (\<exists>digest. EVP_Digest C (entry_data tar e) EVP_sha256 = (1, digest) \<and>
       hex_text digest = cstr (mf_sha256_hex mf))"
proof -
  note exact = manifest_agrees_exact [OF assms(1-4)]
  have "path e \<in> (\<lambda>mf. cstr (mf_path mf)) ` set mfs"
    unfolding exact [THEN conjunct1] using assms(5,6) by (intro imageI) simp
  then obtain mf where mf: "mf \<in> set mfs" "cstr (mf_path mf) = path e" by force
  have "find_entry es (path e) = Some e"
    by (rule find_entry_unique [OF exact [THEN conjunct2] assms(5,6)])
  moreover have "listing_ok C tar es mf" using assms(1,2) mf(1) by (simp add: manifest_agrees_def)
  ultimately show ?thesis using mf by (auto simp: listing_ok_def split: prod.splits)
qed

lemma listing_okD:
  "listing_ok C tar es mf \<Longrightarrow> \<exists>e digest. find_entry es (cstr (mf_path mf)) = Some e \<and>
     EVP_Digest C (entry_data tar e) EVP_sha256 = (1, digest) \<and> hex_text digest = cstr (mf_sha256_hex mf)"
  by (auto simp: listing_ok_def split: option.split_asm prod.split_asm)

lemma manifest_agreesD:
  "manifest_agrees C tar es \<Longrightarrow>
    \<exists>mfs. manifest_of tar es = Some mfs \<and> length mfs = length (filter is_payload_file es) \<and>
      (\<forall>mf \<in> set mfs. \<exists>e digest. find_entry es (cstr (mf_path mf)) = Some e \<and>
         EVP_Digest C (entry_data tar e) EVP_sha256 = (1, digest) \<and> hex_text digest = cstr (mf_sha256_hex mf))"
  by (cases "manifest_of tar es", simp add: manifest_agrees_def, rule exI, intro conjI ballI listing_okD)
     (auto simp: manifest_agrees_def)

lemma listing_refutedD:
  "listing_refuted C tar es mf \<Longrightarrow> find_entry es (cstr (mf_path mf)) = None \<or>
    (\<exists>e digest. find_entry es (cstr (mf_path mf)) = Some e \<and>
       EVP_Digest C (entry_data tar e) EVP_sha256 = (1, digest) \<and> hex_text digest \<noteq> cstr (mf_sha256_hex mf))"
  by (auto simp: listing_refuted_def split: option.split_asm prod.split_asm)

lemma listing_undigestedD:
  "listing_undigested C tar es mf \<Longrightarrow> \<exists>e. find_entry es (cstr (mf_path mf)) = Some e \<and>
    fst (EVP_Digest C (entry_data tar e) EVP_sha256) \<noteq> 1"
  by (auto simp: listing_undigested_def split: option.split_asm)

text \<open>The condition of every code, read off the verdict.\<close>

lemma manifest_verdictD:
  assumes "manifest_verdict C alloc tar es r"
  shows "r \<in> {FOTA_INSTALL_OK, FOTA_INSTALL_ERR_MANIFEST_MISSING, FOTA_INSTALL_ERR_MANIFEST_PARSE,
         FOTA_INSTALL_ERR_MANIFEST_MISMATCH, FOTA_INSTALL_ERR_IO}"
    "r = FOTA_INSTALL_ERR_MANIFEST_MISSING \<longleftrightarrow>
       (\<forall>e \<in> set es. etype e = FOTA_TAR_ENTRY_FILE \<longrightarrow> path e \<noteq> manifest_name)"
    "r = FOTA_INSTALL_ERR_MANIFEST_PARSE \<Longrightarrow>
       \<exists>me. find_entry es manifest_name = Some me \<and> manifest_spec (entry_data tar me) = None"
    "r = FOTA_INSTALL_ERR_MANIFEST_MISMATCH \<Longrightarrow>
       \<exists>mfs. manifest_of tar es = Some mfs \<and>
          ((\<exists>mf \<in> set mfs. find_entry es (cstr (mf_path mf)) = None \<or>
             (\<exists>e digest. find_entry es (cstr (mf_path mf)) = Some e \<and>
                EVP_Digest C (entry_data tar e) EVP_sha256 = (1, digest) \<and>
                hex_text digest \<noteq> cstr (mf_sha256_hex mf))) \<or>
           length mfs \<noteq> length (filter is_payload_file es))"
    "r = FOTA_INSTALL_ERR_IO \<Longrightarrow> (\<exists>s k. \<not> alloc s k) \<or>
       (\<exists>mfs. manifest_of tar es = Some mfs \<and>
          (\<exists>mf \<in> set mfs. \<exists>e. find_entry es (cstr (mf_path mf)) = Some e \<and>
             fst (EVP_Digest C (entry_data tar e) EVP_sha256) \<noteq> 1))"
    "manifest_agrees C tar es \<and> (\<forall>s k. alloc s k) \<Longrightarrow> r = FOTA_INSTALL_OK"
proof -
  note v = assms [unfolded manifest_verdict_def]
  show "r \<in> {FOTA_INSTALL_OK, FOTA_INSTALL_ERR_MANIFEST_MISSING, FOTA_INSTALL_ERR_MANIFEST_PARSE,
         FOTA_INSTALL_ERR_MANIFEST_MISMATCH, FOTA_INSTALL_ERR_IO}"
    using v by (auto split: if_splits option.splits)
  show "r = FOTA_INSTALL_ERR_MANIFEST_MISSING \<longleftrightarrow>
       (\<forall>e \<in> set es. etype e = FOTA_TAR_ENTRY_FILE \<longrightarrow> path e \<noteq> manifest_name)"
    unfolding find_entry_None_iff [symmetric] using v by (auto split: if_splits option.splits)
  show "\<exists>me. find_entry es manifest_name = Some me \<and> manifest_spec (entry_data tar me) = None"
    if "r = FOTA_INSTALL_ERR_MANIFEST_PARSE"
    using v that by (auto simp: manifest_of_def split: if_splits option.splits)
  show "\<exists>mfs. manifest_of tar es = Some mfs \<and>
          ((\<exists>mf \<in> set mfs. find_entry es (cstr (mf_path mf)) = None \<or>
             (\<exists>e digest. find_entry es (cstr (mf_path mf)) = Some e \<and>
                EVP_Digest C (entry_data tar e) EVP_sha256 = (1, digest) \<and>
                hex_text digest \<noteq> cstr (mf_sha256_hex mf))) \<or>
           length mfs \<noteq> length (filter is_payload_file es))"
    if mism: "r = FOTA_INSTALL_ERR_MANIFEST_MISMATCH"
  proof -
    obtain mfs where "manifest_of tar es = Some mfs"
        "(\<exists>mf \<in> set mfs. listing_refuted C tar es mf) \<or> length mfs \<noteq> length (filter is_payload_file es)"
      using v mism by (auto split: if_splits option.splits)
    then show ?thesis using listing_refutedD by blast
  qed
  show "(\<exists>s k. \<not> alloc s k) \<or>
       (\<exists>mfs. manifest_of tar es = Some mfs \<and>
          (\<exists>mf \<in> set mfs. \<exists>e. find_entry es (cstr (mf_path mf)) = Some e \<and>
             fst (EVP_Digest C (entry_data tar e) EVP_sha256) \<noteq> 1))"
    if "r = FOTA_INSTALL_ERR_IO"
    using v that by (fastforce dest: listing_undigestedD split: if_splits option.splits)
  show "r = FOTA_INSTALL_OK" if "manifest_agrees C tar es \<and> (\<forall>s k. alloc s k)"
    using v that by (auto simp: manifest_agrees_def manifest_of_def dest: listing_exclusive split: if_splits option.splits)
qed

subsection \<open>An archive with a repeated listing\<close>

definition sha256_of_nothing :: "u8 list" where
  "sha256_of_nothing =
     [227, 176, 196, 66, 152, 252, 28, 20, 154, 251, 244, 200, 153, 111, 185, 36,
      39, 174, 65, 228, 100, 155, 147, 76, 164, 149, 153, 27, 120, 82, 184, 85]"

definition doubled_manifest :: "u8 list" where
  "doubled_manifest =
     manifest_text (ascii ''GENERIC'') (ascii ''2.0.0.0'') (ascii ''2024-01-01T00:00:00Z'') (ascii ''unknown'')
       [(ascii ''a'', hex_text sha256_of_nothing), (ascii ''a'', hex_text sha256_of_nothing)]"

definition doubled_tar :: "u8 list" where
  "doubled_tar = replicate 512 0 @ doubled_manifest @ replicate (512 * (length doubled_manifest + 5)) 7"

text \<open>An empty file \<open>a\<close>, listed twice, and a file \<open>b\<close> that the manifest does not mention.\<close>

definition doubled_entries :: "fota_tar_entry list" where
  "doubled_entries =
     [\<lparr>path = manifest_name, etype = FOTA_TAR_ENTRY_FILE, data_off = 512, esize = length doubled_manifest\<rparr>,
      \<lparr>path = ascii ''a'', etype = FOTA_TAR_ENTRY_FILE,
        data_off = 512 * (length doubled_manifest + 2), esize = 0\<rparr>,
      \<lparr>path = ascii ''b'', etype = FOTA_TAR_ENTRY_FILE,
        data_off = 512 * (length doubled_manifest + 4), esize = 1\<rparr>]"

lemma doubled_wf: "wf_entries doubled_tar doubled_entries"
  by (simp add: wf_entries_def entry_ok_def doubled_entries_def doubled_tar_def safe_path_def manifest_name_def
      ascii_def)

lemma doubled_manifest_of:
  "manifest_of doubled_tar doubled_entries =
    Some [\<lparr>mf_path = ascii ''a'', mf_sha256_hex = hex_text sha256_of_nothing\<rparr>,
          \<lparr>mf_path = ascii ''a'', mf_sha256_hex = hex_text sha256_of_nothing\<rparr>]"
proof -
  have "length (hex_text sha256_of_nothing) = 64" by (simp add: sha256_of_nothing_def)
  then have l: "listing (ascii ''a'', hex_text sha256_of_nothing)"
    by (simp add: listing_def ascii_def)
  have "manifest_spec doubled_manifest =
    Some [\<lparr>mf_path = ascii ''a'', mf_sha256_hex = hex_text sha256_of_nothing\<rparr>,
          \<lparr>mf_path = ascii ''a'', mf_sha256_hex = hex_text sha256_of_nothing\<rparr>]"
    unfolding doubled_manifest_def
    by (subst manifest_spec_manifest_text) (use l in \<open>simp_all add: plain_value_def ascii_def\<close>)
  then show ?thesis
    by (simp add: manifest_of_def doubled_entries_def entry_data_def doubled_tar_def)
qed

lemma doubled_agrees:
  assumes "EVP_Digest C [] EVP_sha256 = (1, sha256_of_nothing)"
  shows "manifest_agrees C doubled_tar doubled_entries"
proof -
  have c: "cstr (ascii ''a'') = ascii ''a''" "cstr (hex_text x) = hex_text x" for x
    using hex_text_no_nul by (simp_all add: cstr_id ascii_def)
  have "listing_ok C doubled_tar doubled_entries
      \<lparr>mf_path = ascii ''a'', mf_sha256_hex = hex_text sha256_of_nothing\<rparr>"
    using assms by (simp add: listing_ok_def c doubled_entries_def entry_data_def)
       (simp add: manifest_name_def ascii_def)
  then show ?thesis
    by (simp add: manifest_agrees_def doubled_manifest_of)
       (simp add: doubled_entries_def is_payload_file_def manifest_name_def ascii_def)
qed

subsection \<open>Properties\<close>

text \<open>
  C31. The manifest reader returns for every buffer, reads only the first \<open>buf_len\<close> bytes of it, writes no string past its
  array, and computes the list parser \<open>manifest_spec\<close> on those bytes, unless an allocation failed.
\<close>

theorem parse_manifest_refines:
  assumes "buf_len \<le> length buf"
  shows "parse_manifest_files alloc buf buf_len =
      Some (case manifest_spec (take buf_len buf) of
              None \<Rightarrow> Inl FOTA_INSTALL_ERR_MANIFEST_PARSE
            | Some fs \<Rightarrow> Inr fs) \<or>
    parse_manifest_files alloc buf buf_len = Some (Inl FOTA_INSTALL_ERR_IO) \<and>
      (\<exists>k. \<not> alloc Site_manifest_files k)"
  using parse_manifest_files_eq [OF assms, of alloc] unfolding or_parse_error_def by blast

theorem parse_manifest_refines_witness:
  "parse_manifest_files unlimited (ascii ''{}'' @ [7]) 2 = Some (Inl FOTA_INSTALL_ERR_MANIFEST_PARSE)"
proof -
  have "manifest_spec (take 2 (ascii ''{}'' @ [7])) = None"
    by (simp add: manifest_spec_def ascii_def after_key.simps files_key_def numeral_2_eq_2)
  then show ?thesis
    using parse_manifest_refines [of 2 "ascii ''{}'' @ [7]" unlimited] by (simp add: ascii_def)
qed

text \<open>
  What the packager writes, the consumer reads: from the packager's manifest text the reader recovers the list
  of paths and hashes in order, for printable paths of at most 255 characters and 64-digit hashes, when no
  other field of the manifest holds a quote, a backslash or the word \<open>files\<close>.
\<close>

theorem manifest_roundtrip:
  assumes "\<forall>v \<in> {platform, fw_version, build_date, git_commit}.
      printable v \<and> 34 \<notin> set v \<and> 92 \<notin> set v \<and> v \<noteq> ascii ''files''"
    and "\<forall>(p, h) \<in> set fs. printable p \<and> length p \<le> 255 \<and> printable h \<and> length h = 64"
    and "\<forall>k. alloc Site_manifest_files k"
  shows "parse_manifest_files alloc (manifest_text platform fw_version build_date git_commit fs)
      (length (manifest_text platform fw_version build_date git_commit fs)) =
    Some (Inr (map (\<lambda>(p, h). \<lparr>mf_path = p, mf_sha256_hex = h\<rparr>) fs))"
proof -
  have "0 \<notin> set h" if "printable h" for h using that by (auto simp: printable_def)
  then have "\<forall>f \<in> set fs. listing f" using assms(2) by (auto simp: listing_def)
  then have "manifest_spec (manifest_text platform fw_version build_date git_commit fs) =
      Some (map (\<lambda>(p, h). \<lparr>mf_path = p, mf_sha256_hex = h\<rparr>) fs)"
    using assms(1) by (intro manifest_spec_manifest_text) (simp_all add: plain_value_def)
  then show ?thesis
    using parse_manifest_files_eq [OF order_refl, of alloc "manifest_text platform fw_version build_date git_commit fs"]
      assms(3) by (simp add: or_parse_error_def)
qed

theorem manifest_roundtrip_witness:
  "\<exists>t. parse_manifest_files unlimited t (length t) =
    Some (Inr [\<lparr>mf_path = ascii ''bin/app'', mf_sha256_hex = replicate 64 48\<rparr>])"
  using manifest_roundtrip [of "ascii ''GENERIC''" "ascii ''1.0.0.0''" "ascii ''now''" "ascii ''unknown''"
      "[(ascii ''bin/app'', replicate 64 48)]" unlimited]
  by (auto simp: printable_def ascii_def)

text \<open>
  The digest printed into the 65-byte buffer of \<open>fota_verify_manifest\<close> is a NUL-terminated string of 64 hex digits
  that determines the digest: two digests print alike only if they are equal.
\<close>

theorem digest_hex_faithful:
  assumes "length digest = 32" and "length digest' = 32"
  shows "\<exists>text_of. bytes_to_hex_lower digest 32 (replicate 65 0) = Some (text_of @ [0]) \<and>
    length text_of = 64 \<and> 0 \<notin> set text_of \<and>
    (bytes_to_hex_lower digest' 32 (replicate 65 0) = Some (text_of @ [0]) \<longleftrightarrow> digest' = digest)"
proof -
  have "bytes_to_hex_lower d 32 (replicate 65 0) = Some (hex_text d @ [0])" if "length d = 32" for d
    using bytes_to_hex_lower_eq [of d "replicate 65 0"] that by simp
  then show ?thesis
    using assms hex_text_inject hex_text_no_nul [of digest]
    by (intro exI [of _ "hex_text digest"]) auto
qed

theorem digest_hex_faithful_witness:
  "bytes_to_hex_lower (replicate 32 1) 32 (replicate 65 0) \<noteq> bytes_to_hex_lower (replicate 32 2) 32 (replicate 65 0)"
proof -
  have "replicate 32 (2 :: u8) \<noteq> replicate 32 1" by (simp add: replicate_eq_replicate)
  then show ?thesis
    using digest_hex_faithful [of "replicate 32 1" "replicate 32 2"] by auto
qed

text \<open>
  C12. For every archive the tar parser accepts, \<open>fota_verify_manifest\<close> returns without leaving a buffer, with one of
  five codes, and each code has its condition.  \<open>OK\<close>: the archive has a manifest that parses, every listing names a
  regular file whose SHA-256 is the listed one, and there are as many listings as files other than the manifest.
  \<open>MISSING\<close>: exactly when no regular file is called \<open>manifest.json\<close>.  \<open>PARSE\<close>: there is one, and the first of them
  does not parse.  \<open>MISMATCH\<close>: it parses, and some listed path is no regular file of the archive, or its file's
  SHA-256 is not the listed one, or the numbers differ.  \<open>IO\<close>: an allocation was refused, or libcrypto computed no digest
  for a listed file.  The first four conditions exclude each other, and an archive that agrees is refused only when
  memory runs out.
\<close>

theorem verify_manifest_spec:
  assumes "wf_entries tar es" and "digest_contract C"
  shows "\<exists>r. fota_verify_manifest C alloc tar (Some es) = Some r \<and>
    r \<in> {FOTA_INSTALL_OK, FOTA_INSTALL_ERR_MANIFEST_MISSING, FOTA_INSTALL_ERR_MANIFEST_PARSE,
         FOTA_INSTALL_ERR_MANIFEST_MISMATCH, FOTA_INSTALL_ERR_IO} \<and>
    (r = FOTA_INSTALL_OK \<longrightarrow>
       (\<exists>mfs. manifest_of tar es = Some mfs \<and> length mfs = length (filter is_payload_file es) \<and>
          (\<forall>mf \<in> set mfs. \<exists>e digest. find_entry es (cstr (mf_path mf)) = Some e \<and>
             EVP_Digest C (entry_data tar e) EVP_sha256 = (1, digest) \<and>
             hex_text digest = cstr (mf_sha256_hex mf)))) \<and>
    (r = FOTA_INSTALL_ERR_MANIFEST_MISSING \<longleftrightarrow>
       (\<forall>e \<in> set es. etype e = FOTA_TAR_ENTRY_FILE \<longrightarrow> path e \<noteq> manifest_name)) \<and>
    (r = FOTA_INSTALL_ERR_MANIFEST_PARSE \<longrightarrow>
       (\<exists>me. find_entry es manifest_name = Some me \<and> manifest_spec (entry_data tar me) = None)) \<and>
    (r = FOTA_INSTALL_ERR_MANIFEST_MISMATCH \<longrightarrow>
       (\<exists>mfs. manifest_of tar es = Some mfs \<and>
          ((\<exists>mf \<in> set mfs. find_entry es (cstr (mf_path mf)) = None \<or>
             (\<exists>e digest. find_entry es (cstr (mf_path mf)) = Some e \<and>
                EVP_Digest C (entry_data tar e) EVP_sha256 = (1, digest) \<and>
                hex_text digest \<noteq> cstr (mf_sha256_hex mf))) \<or>
           length mfs \<noteq> length (filter is_payload_file es)))) \<and>
    (r = FOTA_INSTALL_ERR_IO \<longrightarrow> (\<exists>s k. \<not> alloc s k) \<or>
       (\<exists>mfs. manifest_of tar es = Some mfs \<and>
          (\<exists>mf \<in> set mfs. \<exists>e. find_entry es (cstr (mf_path mf)) = Some e \<and>
             fst (EVP_Digest C (entry_data tar e) EVP_sha256) \<noteq> 1))) \<and>
    (manifest_agrees C tar es \<and> (\<forall>s k. alloc s k) \<longrightarrow> r = FOTA_INSTALL_OK)"
proof -
  obtain r where r: "fota_verify_manifest C alloc tar (Some es) = Some r" "manifest_verdict C alloc tar es r"
    using verify_manifest_verdict [OF assms] by blast
  have "manifest_agrees C tar es" if "r = FOTA_INSTALL_OK"
    using r(2) that by (auto simp: manifest_verdict_def split: if_splits option.splits)
  note r = r manifest_agreesD [OF this] manifest_verdictD [OF r(2)]
  show ?thesis
    by (intro exI [of _ r] conjI impI r(1,3,4,5,6,7,8)) (use r(9) in blast)+
qed

definition sha256_sample :: "u8 list openssl" where
  "sha256_sample = sample_crypto\<lparr>EVP_Digest := (\<lambda>d m. (1, if d = [] then sha256_of_nothing else replicate 32 1))\<rparr>"

lemma sha256_sample_digest:
  "digest_contract sha256_sample" "EVP_Digest sha256_sample [] EVP_sha256 = (1, sha256_of_nothing)"
  by (simp_all add: digest_contract_def sha256_sample_def sha256_of_nothing_def)

theorem verify_manifest_spec_witness:
  "\<exists>r. fota_verify_manifest sha256_sample unlimited doubled_tar (Some doubled_entries) = Some r \<and>
    r = FOTA_INSTALL_OK"
  using verify_manifest_spec [OF doubled_wf sha256_sample_digest(1), of unlimited]
    doubled_agrees [OF sha256_sample_digest(2)] by auto

text \<open>
  C13. Exact set equality, as the header promises, holds for every accepted archive whose manifest lists no path
  twice and does not list itself: the files of the archive are exactly the listed ones, no path occurs twice
  among them, and each file's own bytes have the listed SHA-256.
\<close>

theorem verify_manifest_exact:
  assumes "wf_entries tar es" and "digest_contract C"
    and "fota_verify_manifest C alloc tar (Some es) = Some FOTA_INSTALL_OK"
    and "manifest_of tar es = Some mfs"
    and "distinct (map (\<lambda>mf. cstr (mf_path mf)) mfs)"
    and "manifest_name \<notin> (\<lambda>mf. cstr (mf_path mf)) ` set mfs"
  shows "(\<lambda>mf. cstr (mf_path mf)) ` set mfs = path ` {e \<in> set es. is_payload_file e} \<and>
    distinct (map path (filter is_payload_file es)) \<and>
    (\<forall>e \<in> set es. is_payload_file e \<longrightarrow>
       (\<exists>mf \<in> set mfs. \<exists>digest. cstr (mf_path mf) = path e \<and>
          EVP_Digest C (entry_data tar e) EVP_sha256 = (1, digest) \<and> hex_text digest = cstr (mf_sha256_hex mf)))"
proof -
  have agrees: "manifest_agrees C tar es"
    using verify_manifest_cases [OF assms(1,2), of alloc] assms(3) by auto
  note exact = manifest_agrees_exact [OF agrees assms(4-6)]
  have "\<exists>mf \<in> set mfs. \<exists>digest. cstr (mf_path mf) = path e \<and>
      EVP_Digest C (entry_data tar e) EVP_sha256 = (1, digest) \<and> hex_text digest = cstr (mf_sha256_hex mf)"
    if "e \<in> set es" "is_payload_file e" for e
    using manifest_agrees_covers [OF agrees assms(4-6) that] by blast
  then show ?thesis using exact by blast
qed

definition single_manifest :: "u8 list" where
  "single_manifest =
     manifest_text (ascii ''GENERIC'') (ascii ''2.0.0.0'') (ascii ''2024-01-01T00:00:00Z'') (ascii ''unknown'')
       [(ascii ''a'', hex_text sha256_of_nothing)]"

definition single_tar :: "u8 list" where
  "single_tar = replicate 512 0 @ single_manifest @ replicate (512 * (length single_manifest + 2)) 7"

definition single_entries :: "fota_tar_entry list" where
  "single_entries =
     [\<lparr>path = manifest_name, etype = FOTA_TAR_ENTRY_FILE, data_off = 512, esize = length single_manifest\<rparr>,
      \<lparr>path = ascii ''a'', etype = FOTA_TAR_ENTRY_FILE,
        data_off = 512 * (length single_manifest + 2), esize = 0\<rparr>]"

lemma single_archive:
  "wf_entries single_tar single_entries"
  "manifest_of single_tar single_entries =
    Some [\<lparr>mf_path = ascii ''a'', mf_sha256_hex = hex_text sha256_of_nothing\<rparr>]"
  "EVP_Digest C [] EVP_sha256 = (1, sha256_of_nothing) \<Longrightarrow> manifest_agrees C single_tar single_entries"
proof -
  show "wf_entries single_tar single_entries"
    by (simp add: wf_entries_def entry_ok_def single_entries_def single_tar_def safe_path_def
        manifest_name_def ascii_def)
  have "length (hex_text sha256_of_nothing) = 64" by (simp add: sha256_of_nothing_def)
  then have l: "listing (ascii ''a'', hex_text sha256_of_nothing)"
    by (simp add: listing_def ascii_def)
  have "manifest_spec single_manifest = Some [\<lparr>mf_path = ascii ''a'', mf_sha256_hex = hex_text sha256_of_nothing\<rparr>]"
    unfolding single_manifest_def
    by (subst manifest_spec_manifest_text) (use l in \<open>simp_all add: plain_value_def ascii_def\<close>)
  then show m: "manifest_of single_tar single_entries =
      Some [\<lparr>mf_path = ascii ''a'', mf_sha256_hex = hex_text sha256_of_nothing\<rparr>]"
    by (simp add: manifest_of_def single_entries_def entry_data_def single_tar_def)
  have c: "cstr (ascii ''a'') = ascii ''a''" "cstr (hex_text x) = hex_text x" for x
    using hex_text_no_nul by (simp_all add: cstr_id ascii_def)
  assume "EVP_Digest C [] EVP_sha256 = (1, sha256_of_nothing)"
  then have "listing_ok C single_tar single_entries
      \<lparr>mf_path = ascii ''a'', mf_sha256_hex = hex_text sha256_of_nothing\<rparr>"
    by (simp add: listing_ok_def c single_entries_def entry_data_def) (simp add: manifest_name_def ascii_def)
  then show "manifest_agrees C single_tar single_entries"
    by (simp add: manifest_agrees_def m)
       (simp add: single_entries_def is_payload_file_def manifest_name_def ascii_def)
qed

theorem verify_manifest_exact_witness:
  "path ` {e \<in> set single_entries. is_payload_file e} = {ascii ''a''}"
proof -
  have c: "cstr (ascii ''a'') = ascii ''a''" by (simp add: cstr_id ascii_def)
  have "fota_verify_manifest sha256_sample unlimited single_tar (Some single_entries) = Some FOTA_INSTALL_OK"
    using verify_manifest_cases [OF single_archive(1) sha256_sample_digest(1), of unlimited]
      single_archive(3) [OF sha256_sample_digest(2)] by auto
  from verify_manifest_exact [OF single_archive(1) sha256_sample_digest(1) this single_archive(2)]
  show ?thesis by (simp add: c) (simp add: manifest_name_def ascii_def)
qed

text \<open>
  C38. Set equality fails in general: with the real SHA-256 of the empty string, an archive of an empty file \<open>a\<close>,
  listed twice, and an unlisted file \<open>b\<close> is accepted, because \<open>matched_count\<close> counts listings and the marks in
  \<open>matched\<close> are never read.
\<close>

theorem repeated_listing_admits_unlisted_file:
  assumes "digest_contract C" and "EVP_Digest C [] EVP_sha256 = (1, sha256_of_nothing)"
  shows "fota_verify_manifest C unlimited doubled_tar (Some doubled_entries) = Some FOTA_INSTALL_OK \<and>
    wf_entries doubled_tar doubled_entries \<and>
    (\<exists>e \<in> set doubled_entries. is_payload_file e \<and> path e = ascii ''b'' \<and>
       (\<exists>mfs. manifest_of doubled_tar doubled_entries = Some mfs \<and> (\<forall>mf \<in> set mfs. cstr (mf_path mf) \<noteq> path e)))"
proof -
  have "cstr (ascii ''a'') = ascii ''a''" by (simp add: cstr_id ascii_def)
  then have "cstr (ascii ''a'') \<noteq> ascii ''b''" by (simp add: ascii_def)
  then have unlisted: "\<exists>e \<in> set doubled_entries. is_payload_file e \<and> path e = ascii ''b'' \<and>
       (\<exists>mfs. manifest_of doubled_tar doubled_entries = Some mfs \<and> (\<forall>mf \<in> set mfs. cstr (mf_path mf) \<noteq> path e))"
    by (simp add: doubled_manifest_of)
       (simp add: doubled_entries_def is_payload_file_def manifest_name_def ascii_def)
  show ?thesis
    using verify_manifest_cases [OF doubled_wf assms(1), of unlimited] doubled_agrees [OF assms(2)]
      unlisted doubled_wf by auto
qed

theorem repeated_listing_admits_unlisted_file_witness:
  "fota_verify_manifest sha256_sample unlimited doubled_tar (Some doubled_entries) = Some FOTA_INSTALL_OK"
  using repeated_listing_admits_unlisted_file [OF sha256_sample_digest] by blast

end
