(* ===== verification/Fota_Package.thy ===== *)
theory Fota_Package
  imports Fota_Tar_Writer Fota_Manifest_Props
begin

section \<open>What the packager packs, the consumer accepts\<close>

text \<open>
  The archive of \<open>stage_and_compress\<close>, the files of the input directory followed by \<open>manifest.json\<close> with their hashes,
  passes the consumer's tar parser and its manifest check.
\<close>

definition packed_members ::
    "(u8 list \<Rightarrow> u8 list) \<Rightarrow> u8 list \<Rightarrow> u8 list \<Rightarrow> u8 list \<Rightarrow> u8 list \<Rightarrow> (u8 list \<times> u8 list) list \<Rightarrow>
     (u8 list \<times> u8 list) list"
where
  "packed_members hash platform fw_version build_date git_commit fs =
     fs @ [(manifest_name,
            manifest_text platform fw_version build_date git_commit (map (\<lambda>(p, d). (p, hex_text (hash d))) fs))]"

text \<open>The files a package may hold.\<close>

definition packable :: "(u8 list \<times> u8 list) list \<Rightarrow> bool" where
  "packable fs \<longleftrightarrow>
     distinct (map fst fs) \<and> manifest_name \<notin> fst ` set fs \<and> (\<forall>f \<in> set fs. storable f \<and> printable (fst f))"

lemma find_entry_append:
  "find_entry (xs @ ys) p = (case find_entry xs p of None \<Rightarrow> find_entry ys p | Some e \<Rightarrow> Some e)"
  by (induction xs) auto

lemma tar_entries_at_append:
  "tar_entries_at off (xs @ ys) =
    tar_entries_at off xs @ tar_entries_at (off + sum_list (map (\<lambda>f. member_span (length (snd f))) xs)) ys"
  by (induction xs arbitrary: off) (simp_all add: add.assoc)

lemma map_eq_membersD: "map f xs = ys \<Longrightarrow> x \<in> set xs \<Longrightarrow> f x \<in> set ys"
  by auto

lemma packed_agrees:
  assumes m: "\<forall>f. wf_meta (m f)" and fs: "packable fs" and tail: "512 \<le> tail_len"
    and vals: "\<forall>v \<in> {platform, fw_version, build_date, git_commit}. plain_value v \<and> printable v"
    and hash: "\<forall>d. EVP_Digest C d EVP_sha256 = (1, hash d) \<and> length (hash d) = 32"
    and ms: "storable (last (packed_members hash platform fw_version build_date git_commit fs))"
    and archive: "archive = tar_image m (packed_members hash platform fw_version build_date git_commit fs) tail_len"
    and es: "es = tar_entries_at 0 (packed_members hash platform fw_version build_date git_commit fs)"
  shows "manifest_agrees C archive es \<and>
    map (\<lambda>e. (path e, entry_data archive e)) (filter is_payload_file es) = fs \<and>
    manifest_of archive es = Some (map (\<lambda>(p, d). \<lparr>mf_path = p, mf_sha256_hex = hex_text (hash d)\<rparr>) fs)"
proof -
  let ?text = "manifest_text platform fw_version build_date git_commit (map (\<lambda>(p, d). (p, hex_text (hash d))) fs)"
  let ?pm = "packed_members hash platform fw_version build_date git_commit fs"
  have pm: "?pm = fs @ [(manifest_name, ?text)]" by (simp add: packed_members_def)
  have st: "\<forall>f \<in> set ?pm. storable f" using fs ms by (auto simp: pm packable_def)
  have data: "map (\<lambda>e. (path e, entry_data archive e)) es = ?pm"
    using tar_entries_at_data [OF m st, of "[]" tail_len] by (simp add: es archive)
  obtain es1 me where es1: "es = es1 @ [me]" "es1 = tar_entries_at 0 fs" "path me = manifest_name"
      "etype me = FOTA_TAR_ENTRY_FILE"
    by (simp add: es pm tar_entries_at_append)
  have d1: "map (\<lambda>e. (path e, entry_data archive e)) es1 = fs" and dm: "entry_data archive me = ?text"
    using data by (simp_all add: es1(1) pm)
  have files: "etype e = FOTA_TAR_ENTRY_FILE" if "e \<in> set es1" for e
    using that tar_entries_at_props(2) es1(2) by blast
  have paths: "map path es1 = map fst fs" using tar_entries_at_props(1) es1(2) by simp
  have no_own: "path e \<noteq> manifest_name" if "e \<in> set es1" for e
    using that paths fs by (metis image_eqI list.set_map packable_def)
  have "is_payload_file e" if "e \<in> set es1" for e
    using that files no_own by (simp add: is_payload_file_def)
  then have payload: "filter is_payload_file es = es1"
    by (simp add: es1(1,3) is_payload_file_def filter_id_conv)
  have "find_entry es1 manifest_name = None" using no_own by (simp add: find_entry_None_iff)
  then have fm: "find_entry es manifest_name = Some me" using es1(3,4) by (simp add: es1(1) find_entry_append)
  have "listing (p, hex_text (hash d))" if "(p, d) \<in> set fs" for p d
    using that fs hash by (fastforce simp: listing_def packable_def storable_def)
  then have "\<forall>f \<in> set (map (\<lambda>(p, d). (p, hex_text (hash d))) fs). listing f" by auto
  then have spec: "manifest_of archive es =
      Some (map (\<lambda>(p, h). \<lparr>mf_path = p, mf_sha256_hex = h\<rparr>) (map (\<lambda>(p, d). (p, hex_text (hash d))) fs))"
    using manifest_spec_manifest_text [OF vals] by (simp only: manifest_of_def fm dm Option.bind.simps)
  have "listing_ok C archive es \<lparr>mf_path = p, mf_sha256_hex = hex_text (hash d)\<rparr>" if pd: "(p, d) \<in> set fs" for p d
  proof -
    obtain e where e: "e \<in> set es1" "path e = p" "entry_data archive e = d"
      using pd d1 by (metis (mono_tags, lifting) fst_conv imageE list.set_map snd_conv)
    have "distinct (map path (filter is_payload_file es))" using payload paths fs by (simp add: packable_def)
    moreover have "e \<in> set es" "is_payload_file e"
      using e(1) es1(1) files no_own by (simp_all add: is_payload_file_def)
    ultimately have "find_entry es p = Some e" using find_entry_unique e(2) by blast
    moreover have "cstr p = p" using pd fs by (fastforce simp: packable_def storable_def intro: cstr_id)
    ultimately show ?thesis using hash e(3) by (simp add: listing_ok_def cstr_id [OF hex_text_no_nul])
  qed
  then have "manifest_agrees C archive es"
    using d1 [symmetric] by (auto simp: manifest_agrees_def spec payload dest: arg_cong [where f = length])
  then show ?thesis using payload d1 spec by (simp add: comp_def case_prod_unfold)
qed

lemma packed_accepted:
  assumes "36 < LENGTH('s)" and "length archive < 2 ^ LENGTH('s)" and "\<forall>s n. alloc s n"
    and "\<forall>f. wf_meta (m f)" and "512 \<le> tail_len" and "packable fs"
    and "\<forall>v \<in> {platform, fw_version, build_date, git_commit}. plain_value v \<and> printable v"
    and "\<forall>d. EVP_Digest C d EVP_sha256 = (1, hash d) \<and> length (hash d) = 32"
    and "length (snd (last (packed_members hash platform fw_version build_date git_commit fs))) < 8 ^ 11"
    and "archive = tar_image m (packed_members hash platform fw_version build_date git_commit fs) tail_len"
  shows "\<exists>es. fota_tar_parse TYPE('s::len) alloc (Some archive) (length archive) True = Some (Inr es) \<and>
    fota_verify_manifest C alloc archive (Some es) = Some FOTA_INSTALL_OK \<and>
    map (\<lambda>e. (path e, entry_data archive e)) (filter is_payload_file es) = fs \<and>
    manifest_of archive es = Some (map (\<lambda>(p, d). \<lparr>mf_path = p, mf_sha256_hex = hex_text (hash d)\<rparr>) fs)"
proof -
  let ?pm = "packed_members hash platform fw_version build_date git_commit fs"
  have ms: "storable (last ?pm)"
    using assms(9) by (simp add: packed_members_def storable_def safe_path_def manifest_name_def ascii_def)
  then have st: "\<forall>f \<in> set ?pm. storable f"
    using assms(6) by (auto simp: packed_members_def packable_def)
  have items: "tar_items archive 0 = Inr (tar_entries_at 0 ?pm)"
    using tar_items_image [OF assms(4) st assms(5), of "[]"] assms(10) by simp
  then have parse: "fota_tar_parse TYPE('s) alloc (Some archive) (length archive) True = Some (Inr (tar_entries_at 0 ?pm))"
    using fota_tar_parse_cases [OF assms(1,2), of alloc] assms(3) by auto
  have wf: "wf_entries archive (tar_entries_at 0 ?pm)" using tar_items_ok [OF items] by simp
  note agrees = packed_agrees [OF assms(4,6,5,7,8) ms assms(10) refl]
  have "digest_contract C" using assms(8) by (simp add: digest_contract_def)
  from verify_manifest_cases [OF wf this, of alloc] agrees assms(3)
  have "fota_verify_manifest C alloc archive (Some (tar_entries_at 0 ?pm)) = Some FOTA_INSTALL_OK" by auto
  then show ?thesis using parse agrees by blast
qed

subsection \<open>Properties\<close>

text \<open>
  Archive round trip: with a \<open>size_t\<close> of more than 36 bits and enough memory, parsing the USTAR image of a list of
  files with safe names of at most 100 bytes gives one entry per file, in order, with its name and
  exactly its bytes.
\<close>

theorem tar_roundtrip:
  assumes "36 < LENGTH('s)" and "length (tar_image m fs tail_len) < 2 ^ LENGTH('s)"
    and "\<forall>f. wf_meta (m f)" and "512 \<le> tail_len" and "\<forall>n. alloc Site_tar_entries n"
    and "\<forall>(name, d) \<in> set fs. name \<noteq> [] \<and> hd name \<noteq> slash \<and> dotdot_comp \<notin> set (split_on slash name) \<and>
           0 \<notin> set name \<and> length name \<le> 100 \<and> length d < 8 ^ 11"
  shows "\<exists>es. fota_tar_parse TYPE('s::len) alloc (Some (tar_image m fs tail_len)) (length (tar_image m fs tail_len)) True =
      Some (Inr es) \<and>
    map (\<lambda>e. (path e, entry_data (tar_image m fs tail_len) e)) es = fs \<and>
    (\<forall>e \<in> set es. etype e = FOTA_TAR_ENTRY_FILE)"
proof -
  have st: "\<forall>f \<in> set fs. storable f" using assms(6) by (fastforce simp: storable_def safe_path_def)
  show ?thesis
    using fota_tar_parse_cases [OF assms(1,2), of alloc] tar_items_image [OF assms(3) st assms(4), of "[]"]
      tar_entries_at_data [OF assms(3) st, of "[]" tail_len] tar_entries_at_props(2) assms(5)
    by (intro exI [of _ "tar_entries_at 0 fs"]) auto
qed

definition sample_meta :: ustar_meta where
  "sample_meta = \<lparr>mode_uid_gid = replicate 24 48, mtime = replicate 12 48, link_to_devminor = replicate 188 0\<rparr>"

lemma sample_meta_wf: "\<forall>f :: u8 list. wf_meta sample_meta"
  by (simp add: wf_meta_def sample_meta_def)

theorem tar_roundtrip_witness:
  "\<exists>t es. fota_tar_parse TYPE(64) unlimited (Some t) (length t) True = Some (Inr es) \<and>
    map (\<lambda>e. (path e, entry_data t e)) es = [(ascii ''a'', [1, 2]), (ascii ''d/b'', [])]"
proof -
  let ?fs = "[(ascii ''a'', [1, 2 :: u8]), (ascii ''d/b'', [])]"
  have st: "storable (ascii ''a'', [1, 2])" "storable (ascii ''d/b'', [])"
    by (simp_all add: storable_def safe_path_def ascii_def)
  have len: "length (tar_image (\<lambda>_. sample_meta) ?fs 1024) < 2 ^ LENGTH(64)"
    using length_tar_member [of "\<lambda>_. sample_meta", OF spec [OF sample_meta_wf] st(1)]
      length_tar_member [of "\<lambda>_. sample_meta", OF spec [OF sample_meta_wf] st(2)]
    by (simp add: tar_image_def member_span_def)
  have names: "\<forall>(name, d) \<in> set ?fs. name \<noteq> [] \<and> hd name \<noteq> slash \<and> dotdot_comp \<notin> set (split_on slash name) \<and>
      0 \<notin> set name \<and> length name \<le> 100 \<and> length d < 8 ^ 11"
    using st by (simp add: storable_def safe_path_def)
  have "36 < LENGTH(64)" "512 \<le> (1024 :: nat)" "\<forall>n. unlimited Site_tar_entries n" by simp_all
  from tar_roundtrip [where alloc = unlimited, OF this(1) len sample_meta_wf this(2,3) names] show ?thesis
    by (elim exE conjE) (intro exI conjI, assumption+)
qed

text \<open>
  C23. What the packager packs, the consumer accepts: the archive of distinct, printable, safely named files with their
  manifest passes \<open>fota_tar_parse\<close> and \<open>fota_verify_manifest\<close>, and the files the installer would write are
  exactly those that were packed, when memory suffices and both sides compute the same SHA-256.
\<close>

theorem packed_archive_accepted:
  assumes "36 < LENGTH('s)" and "length archive < 2 ^ LENGTH('s)" and "\<forall>s n. alloc s n"
    and "\<forall>f. wf_meta (m f)" and "512 \<le> tail_len" and "packable fs"
    and "\<forall>v \<in> {platform, fw_version, build_date, git_commit}. plain_value v \<and> printable v"
    and "\<forall>d. EVP_Digest C d EVP_sha256 = (1, hash d) \<and> length (hash d) = 32"
    and "length (snd (last (packed_members hash platform fw_version build_date git_commit fs))) < 8 ^ 11"
    and "archive = tar_image m (packed_members hash platform fw_version build_date git_commit fs) tail_len"
  shows "\<exists>es. fota_tar_parse TYPE('s::len) alloc (Some archive) (length archive) True = Some (Inr es) \<and>
    fota_verify_manifest C alloc archive (Some es) = Some FOTA_INSTALL_OK \<and>
    map (\<lambda>e. (path e, entry_data archive e)) (filter is_payload_file es) = fs"
  using packed_accepted [OF assms] by blast

definition sample_hash :: "u8 list \<Rightarrow> u8 list" where
  "sample_hash d = (if d = [] then sha256_of_nothing else replicate 32 1)"

definition sample_members :: "(u8 list \<times> u8 list) list" where
  "sample_members =
     packed_members sample_hash (ascii ''GENERIC'') (ascii ''2.0.0.0'') (ascii ''2024-01-01T00:00:00Z'')
       (ascii ''unknown'') [(ascii ''a'', [])]"

definition sample_archive :: "u8 list" where
  "sample_archive = tar_image (\<lambda>_. sample_meta) sample_members 1024"

lemma sample_archive_facts:
  "packable [(ascii ''a'', [])]"
  "\<forall>v \<in> {ascii ''GENERIC'', ascii ''2.0.0.0'', ascii ''2024-01-01T00:00:00Z'', ascii ''unknown''}.
     plain_value v \<and> printable v"
  "\<forall>d. EVP_Digest sha256_sample d EVP_sha256 = (1, sample_hash d) \<and> length (sample_hash d) = 32"
  "length (snd (last sample_members)) \<le> 1000"
  "length sample_archive \<le> 4096"
proof -
  show p: "packable [(ascii ''a'', [])]"
    by (simp add: packable_def storable_def safe_path_def printable_def manifest_name_def ascii_def)
  show "\<forall>v \<in> {ascii ''GENERIC'', ascii ''2.0.0.0'', ascii ''2024-01-01T00:00:00Z'', ascii ''unknown''}.
     plain_value v \<and> printable v"
    by (simp add: plain_value_def printable_def ascii_def)
  show "\<forall>d. EVP_Digest sha256_sample d EVP_sha256 = (1, sample_hash d) \<and> length (sample_hash d) = 32"
    by (simp add: sha256_sample_def sample_hash_def sha256_of_nothing_def)
  have e: "printable s \<Longrightarrow> length (json_escape s) \<le> 2 * length s" for s
    by (induction s) (auto simp: json_escape_def json_char_printable)
  have "length (hex_text sha256_of_nothing) = 64" by (simp add: sha256_of_nothing_def)
  then show n: "length (snd (last sample_members)) \<le> 1000"
    using e [of "ascii ''a''"] e [of "hex_text sha256_of_nothing"] e [of path_key] e [of sha256_key]
      e [of "ascii ''GENERIC''"] e [of "ascii ''2.0.0.0''"] e [of "ascii ''2024-01-01T00:00:00Z''"]
      e [of "ascii ''unknown''"] e [of "ascii ''platform''"] e [of "ascii ''fw_version''"]
      e [of "ascii ''build_date_utc''"] e [of "ascii ''git_commit''"] e [of "ascii ''files''"]
    by (simp add: sample_members_def packed_members_def manifest_text_def json_member_def json_array_def
        json_file_def json_string_def newline_indent_def sample_hash_def path_key_def sha256_key_def ascii_def)
  obtain x where x: "sample_members = [(ascii ''a'', []), (manifest_name, x)]"
    by (simp add: sample_members_def packed_members_def)
  have nx: "length x \<le> 1000" using n unfolding x by simp
  have st: "storable (ascii ''a'', [])" "storable (manifest_name, x)"
    using p nx by (simp_all add: packable_def storable_def safe_path_def manifest_name_def ascii_def)
  have "length sample_archive = member_span 0 + member_span (length x) + 1024"
    using length_tar_member [of "\<lambda>_. sample_meta", OF spec [OF sample_meta_wf] st(1)]
      length_tar_member [of "\<lambda>_. sample_meta", OF spec [OF sample_meta_wf] st(2)]
    unfolding sample_archive_def tar_image_def x by simp
  then show "length sample_archive \<le> 4096"
    using member_span_bounds(2) [of 0] member_span_bounds(2) [of "length x"] nx by simp
qed

lemma sample_archive_accepted:
  "\<exists>es. fota_tar_parse TYPE(64) unlimited (Some sample_archive) (length sample_archive) True = Some (Inr es) \<and>
    fota_verify_manifest sha256_sample unlimited sample_archive (Some es) = Some FOTA_INSTALL_OK \<and>
    map (\<lambda>e. (path e, entry_data sample_archive e)) (filter is_payload_file es) = [(ascii ''a'', [])] \<and>
    manifest_of sample_archive es =
      Some (map (\<lambda>(p, d). \<lparr>mf_path = p, mf_sha256_hex = hex_text (sample_hash d)\<rparr>) [(ascii ''a'', [])])"
proof (rule packed_accepted [OF _ _ _ sample_meta_wf _ sample_archive_facts(1-3)])
  show "length (snd (last (packed_members sample_hash (ascii ''GENERIC'') (ascii ''2.0.0.0'')
      (ascii ''2024-01-01T00:00:00Z'') (ascii ''unknown'') [(ascii ''a'', [])]))) < 8 ^ 11"
    using sample_archive_facts(4) by (simp add: sample_members_def)
  show "length sample_archive < 2 ^ LENGTH(64)" using sample_archive_facts(5) by simp
qed (simp_all add: sample_archive_def sample_members_def)

theorem packed_archive_accepted_witness:
  "\<exists>es. fota_tar_parse TYPE(64) unlimited (Some sample_archive) (length sample_archive) True = Some (Inr es) \<and>
    fota_verify_manifest sha256_sample unlimited sample_archive (Some es) = Some FOTA_INSTALL_OK \<and>
    map (\<lambda>e. (path e, entry_data sample_archive e)) (filter is_payload_file es) = [(ascii ''a'', [])]"
proof (rule packed_archive_accepted [OF _ _ _ sample_meta_wf _ sample_archive_facts(1-3)])
  show "length (snd (last (packed_members sample_hash (ascii ''GENERIC'') (ascii ''2.0.0.0'')
      (ascii ''2024-01-01T00:00:00Z'') (ascii ''unknown'') [(ascii ''a'', [])]))) < 8 ^ 11"
    using sample_archive_facts(4) by (simp add: sample_members_def)
  show "length sample_archive < 2 ^ LENGTH(64)" using sample_archive_facts(5) by simp
qed (simp_all add: sample_archive_def sample_members_def)

end
