(* ===== verification/Fota_Header.thy ===== *)
theory Fota_Header
  imports Fota_Prelude
begin

section \<open>The package header (header.c, header.h) and its writer (blob.py)\<close>

text \<open>
  \<open>fota_header_parse\<close> of \<open>consumer/src/header.c\<close>, and the packager's side of the same format,
  \<open>build_header\<close>, \<open>_pack_ascii_field\<close> and \<open>assemble\<close> of \<open>packager/fota_secure/blob.py\<close>.  The lemmas
  show that the parser reads only inside the \<open>data_len\<close> bytes it is given, which headers it accepts,
  what each field holds, and that it reads back what \<open>build_header\<close> writes.
\<close>

subsection \<open>Constants and types\<close>

definition FOTA_MAGIC :: "u8 list" where "FOTA_MAGIC = [0x46, 0x4F, 0x54, 0x53]"

definition FOTA_MAGIC_SIZE :: nat where "FOTA_MAGIC_SIZE = 4"

definition FOTA_FORMAT_VERSION :: u8 where "FOTA_FORMAT_VERSION = 1"

definition FOTA_PLATFORM_TAG_SIZE :: nat where "FOTA_PLATFORM_TAG_SIZE = 16"

definition FOTA_FW_VERSION_SIZE :: nat where "FOTA_FW_VERSION_SIZE = 12"

definition FOTA_IV_SIZE :: nat where "FOTA_IV_SIZE = 16"

definition FOTA_HEADER_SIZE :: nat where "FOTA_HEADER_SIZE = 51"

lemmas header_sizes = FOTA_MAGIC_def FOTA_MAGIC_SIZE_def FOTA_FORMAT_VERSION_def
  FOTA_PLATFORM_TAG_SIZE_def FOTA_FW_VERSION_SIZE_def FOTA_IV_SIZE_def FOTA_HEADER_SIZE_def

datatype fota_header_result =
    FOTA_HEADER_OK
  | FOTA_HEADER_ERR_TRUNCATED
  | FOTA_HEADER_ERR_BAD_MAGIC
  | FOTA_HEADER_ERR_BAD_VERSION

record fota_header =
  platform_tag :: "u8 list"
  fw_version :: "u8 list"
  wrapped_key_len :: u16
  iv :: "u8 list"

subsection \<open>Parsing\<close>

text \<open>
  \<open>(uint16_t)((data[33] << 8) | data[34])\<close>: both bytes are promoted to \<open>int\<close>, and the result is
  cut to 16 bits.
\<close>

definition be16 :: "u8 \<Rightarrow> u8 \<Rightarrow> u16" where
  "be16 hi lo = ucast (or (push_bit 8 (ucast hi :: u32)) (ucast lo))"

text \<open>
  \<open>data\<close> and \<open>out\<close> are \<open>None\<close> for NULL; the second component of the result is \<open>*out\<close> afterwards.
\<close>

definition fota_header_parse ::
    "u8 list option \<Rightarrow> nat \<Rightarrow> fota_header option \<Rightarrow> (fota_header_result \<times> fota_header option) option"
where
  "fota_header_parse data data_len out =
     (case (data, out) of
        (Some d, Some _) \<Rightarrow>
          if data_len < FOTA_HEADER_SIZE then Some (FOTA_HEADER_ERR_TRUNCATED, out)
          else do {
            magic \<leftarrow> rd_slice d 0 FOTA_MAGIC_SIZE;
            if magic \<noteq> FOTA_MAGIC then Some (FOTA_HEADER_ERR_BAD_MAGIC, out)
            else do {
              version \<leftarrow> rd d 4;
              if version \<noteq> FOTA_FORMAT_VERSION then Some (FOTA_HEADER_ERR_BAD_VERSION, out)
              else do {
                tag \<leftarrow> rd_slice d 5 FOTA_PLATFORM_TAG_SIZE;
                fw \<leftarrow> rd_slice d 21 FOTA_FW_VERSION_SIZE;
                hi \<leftarrow> rd d 33;
                lo \<leftarrow> rd d 34;
                vec \<leftarrow> rd_slice d 35 FOTA_IV_SIZE;
                Some (FOTA_HEADER_OK,
                      Some \<lparr>platform_tag = tag, fw_version = fw,
                            wrapped_key_len = be16 hi lo, iv = vec\<rparr>)
              }
            }
          }
      | _ \<Rightarrow> Some (FOTA_HEADER_ERR_TRUNCATED, out))"

subsection \<open>Writing (packager)\<close>

text \<open>
  The errors are the three \<open>BlobFormatError\<close>s of \<open>build_header\<close>, the \<open>UnicodeEncodeError\<close> of
  \<open>value.encode ("ascii")\<close> and the two \<open>BlobFormatError\<close>s of \<open>assemble\<close>.  A \<open>str\<close> is the list of its
  character codes; \<open>encode\<close> refuses every code from 128 on.
\<close>

datatype blob_error =
    Iv_size | Wrapped_key_len_range | Field_not_ascii | Field_too_long | Header_size | Signature_size

definition SIGNATURE_SIZE :: nat where "SIGNATURE_SIZE = 256"

definition encode_ascii :: "u8 list \<Rightarrow> blob_error + u8 list" where
  "encode_ascii text = (if \<exists>c \<in> set text. 128 \<le> c then Inl Field_not_ascii else Inr text)"

definition pack_ascii_field :: "u8 list \<Rightarrow> nat \<Rightarrow> blob_error + u8 list" where
  "pack_ascii_field text width =
     (case encode_ascii text of
        Inl e \<Rightarrow> Inl e
      | Inr encoded \<Rightarrow>
          if length encoded > width then Inl Field_too_long
          else Inr (encoded @ replicate (width - length encoded) 0))"

definition struct_H :: "nat \<Rightarrow> u8 list" where
  "struct_H n = [of_nat (n div 256), of_nat n]"

definition build_header ::
    "u8 list \<Rightarrow> u8 list \<Rightarrow> u8 list \<Rightarrow> int \<Rightarrow> blob_error + u8 list" where
  "build_header tag fw vec key_len =
     (if length vec \<noteq> FOTA_IV_SIZE then Inl Iv_size
      else if \<not> (0 \<le> key_len \<and> key_len \<le> 0xFFFF) then Inl Wrapped_key_len_range
      else (case pack_ascii_field tag FOTA_PLATFORM_TAG_SIZE of
              Inl e \<Rightarrow> Inl e
            | Inr tag_field \<Rightarrow>
                (case pack_ascii_field fw FOTA_FW_VERSION_SIZE of
                   Inl e \<Rightarrow> Inl e
                 | Inr fw_field \<Rightarrow>
                     Inr (FOTA_MAGIC @ [FOTA_FORMAT_VERSION] @ tag_field @ fw_field
                          @ struct_H (nat key_len) @ vec))))"

definition assemble :: "u8 list \<Rightarrow> u8 list \<Rightarrow> u8 list \<Rightarrow> u8 list \<Rightarrow> blob_error + u8 list" where
  "assemble header wrapped_key signature payload =
     (if length header \<noteq> FOTA_HEADER_SIZE then Inl Header_size
      else if length signature \<noteq> SIGNATURE_SIZE then Inl Signature_size
      else Inr (header @ wrapped_key @ signature @ payload))"

subsection \<open>Lemmas\<close>

lemma be16_disjoint:
  "or (push_bit 8 (ucast hi :: u32)) (ucast lo) = push_bit 8 (ucast hi :: u32) + ucast (lo :: u8)"
  by (rule disjunctive_add [symmetric])
     (auto simp: bit_push_bit_iff bit_ucast_iff dest: bit_imp_le_length)

lemma unat_be16: "unat (be16 hi lo) = 256 * unat hi + unat lo"
proof -
  have lo: "unat lo < 256" and hi: "unat hi < 256"
    using unsigned_less [of lo] unsigned_less [of hi] by simp_all
  then have "unat (push_bit 8 (ucast hi :: u32) + ucast lo) = 256 * unat hi + unat lo"
    by (simp add: push_bit_eq_mult unat_word_ariths unsigned_ucast_eq take_bit_eq_mod)
  then show ?thesis
    using lo hi by (simp add: be16_def be16_disjoint unsigned_ucast_eq take_bit_eq_mod)
qed

text \<open>The header of a buffer, field by field: what the parser computes when it accepts.\<close>

definition header_fields :: "u8 list \<Rightarrow> fota_header" where
  "header_fields d =
     \<lparr>platform_tag = take 16 (drop 5 d), fw_version = take 12 (drop 21 d),
      wrapped_key_len = be16 (d ! 33) (d ! 34), iv = take 16 (drop 35 d)\<rparr>"

lemma fota_header_parse_eq:
  assumes "n \<le> length d"
  shows "fota_header_parse (Some d) n (Some out) =
    Some (if n < 51 then (FOTA_HEADER_ERR_TRUNCATED, Some out)
          else if take 4 d \<noteq> FOTA_MAGIC then (FOTA_HEADER_ERR_BAD_MAGIC, Some out)
          else if d ! 4 \<noteq> 1 then (FOTA_HEADER_ERR_BAD_VERSION, Some out)
          else (FOTA_HEADER_OK, Some (header_fields d)))"
  using assms
  by (simp add: fota_header_parse_def header_sizes(2-) checked_access header_fields_def)

lemma length_build_header:
  assumes "build_header tag fw vec key_len = Inr h"
  shows "length h = 51"
  using assms
  by (auto simp: build_header_def pack_ascii_field_def encode_ascii_def header_sizes struct_H_def
      split: if_splits sum.splits)

lemma build_header_Inr:
  "build_header tag fw vec key_len = Inr h \<longleftrightarrow>
     length vec = 16 \<and> 0 \<le> key_len \<and> key_len \<le> 0xFFFF \<and>
     (\<forall>b \<in> set tag. b < 128) \<and> (\<forall>b \<in> set fw. b < 128) \<and> length tag \<le> 16 \<and> length fw \<le> 12 \<and>
     h = FOTA_MAGIC @ [1] @ (tag @ replicate (16 - length tag) 0)
           @ (fw @ replicate (12 - length fw) 0) @ struct_H (nat key_len) @ vec"
  by (auto simp: build_header_def pack_ascii_field_def encode_ascii_def header_sizes(2-) not_less)

lemma be16_of_nat:
  assumes "n \<le> 0xFFFF"
  shows "be16 (of_nat (n div 256)) (of_nat n) = of_nat n"
proof -
  have "unat (be16 (of_nat (n div 256)) (of_nat n)) = unat (of_nat n :: u16)"
    using assms by (simp add: unat_be16 unat_of_nat)
  then show ?thesis by (simp add: word_unat_eq_iff)
qed

lemma struct_H_be16: "struct_H (unat (be16 hi lo)) = [hi, lo]"
proof -
  have "unat lo < 256" using unsigned_less [of lo, where 'a = nat] by simp
  moreover have "256 * hi = 0" by (rule word_unat_eq_iff [THEN iffD2]) (simp add: unat_word_ariths)
  ultimately show ?thesis by (simp add: struct_H_def unat_be16)
qed

lemma take_one: "i < length d \<Longrightarrow> take (Suc 0) (drop i d) = [d ! i]"
  by (simp add: take_Suc hd_drop_conv_nth)

lemma take_drop_take: "i + k \<le> n \<Longrightarrow> take k (drop i (take n d)) = take k (drop i d)"
  by (simp add: drop_take min_def)

text \<open>The first 51 bytes of a long enough buffer, cut at the field boundaries.\<close>

lemma header_cut:
  assumes "51 \<le> length d"
  shows "take 51 d = take 4 d @ [d ! 4] @ take 16 (drop 5 d) @ take 12 (drop 21 d)
    @ [d ! 33, d ! 34] @ take 16 (drop 35 d)"
proof -
  have "take (4 + (1 + (16 + (12 + (1 + (1 + 16)))))) d
    = take 4 d @ take 1 (drop 4 d) @ take 16 (drop 5 d) @ take 12 (drop 21 d)
      @ take 1 (drop 33 d) @ take 1 (drop 34 d) @ take 16 (drop 35 d)"
    by (simp only: take_add drop_drop) simp
  then show ?thesis using assms by (simp add: take_one del: append_eq_append_conv)
qed

definition wf_header :: "fota_header \<Rightarrow> bool" where
  "wf_header h \<longleftrightarrow> length (platform_tag h) = 16 \<and> length (fw_version h) = 12 \<and> length (iv h) = 16"

lemma wf_header_fields: "51 \<le> length d \<Longrightarrow> wf_header (header_fields d)"
  by (simp add: wf_header_def header_fields_def)

definition ascii_fields :: "fota_header \<Rightarrow> bool" where
  "ascii_fields h \<longleftrightarrow> (\<forall>b \<in> set (platform_tag h) \<union> set (fw_version h). b < 128)"

text \<open>The 51 bytes that hold the fields of a header, in wire order.\<close>

definition header_bytes :: "fota_header \<Rightarrow> u8 list" where
  "header_bytes h =
     FOTA_MAGIC @ [1] @ platform_tag h @ fw_version h @ struct_H (unat (wrapped_key_len h)) @ iv h"

lemma build_header_wf:
  assumes "wf_header h"
  shows "build_header (platform_tag h) (fw_version h) (iv h) (uint (wrapped_key_len h)) = Inr d \<longleftrightarrow>
    ascii_fields h \<and> d = header_bytes h"
  using assms unsigned_less [of "wrapped_key_len h", where 'a = int]
  by (auto simp: build_header_Inr wf_header_def ascii_fields_def header_bytes_def)

lemma header_fields_of_bytes:
  assumes "wf_header h" and "51 \<le> length d"
    and "take 51 d = FOTA_MAGIC @ [1] @ platform_tag h @ fw_version h
           @ struct_H (unat (wrapped_key_len h)) @ iv h"
  shows "take 4 d = FOTA_MAGIC" "d ! 4 = 1" "header_fields d = h"
proof -
  have lens: "length (platform_tag h) = 16" "length (fw_version h) = 12" "length (iv h) = 16"
    using assms(1) by (simp_all add: wf_header_def)
  have cut: "take k (drop i d) = take k (drop i (FOTA_MAGIC @ [1] @ platform_tag h @ fw_version h
      @ struct_H (unat (wrapped_key_len h)) @ iv h))" if "i + k \<le> 51" for i k
    using take_drop_take [OF that, of d] assms(3) by simp
  have "[d ! 4] = [1]" "[d ! 33] = [of_nat (unat (wrapped_key_len h) div 256)]"
    "[d ! 34] = [of_nat (unat (wrapped_key_len h))]"
    using cut [of 4 1] cut [of 33 1] cut [of 34 1] lens assms(2)
    by (simp_all add: take_one FOTA_MAGIC_def struct_H_def)
  moreover from this have "be16 (d ! 33) (d ! 34) = wrapped_key_len h"
    using be16_of_nat [of "unat (wrapped_key_len h)"]
      unsigned_less [of "wrapped_key_len h", where 'a = nat] by simp
  moreover have "take 4 d = FOTA_MAGIC" "take 16 (drop 5 d) = platform_tag h"
    "take 12 (drop 21 d) = fw_version h" "take 16 (drop 35 d) = iv h"
    using cut [of 0 4] cut [of 5 16] cut [of 21 12] cut [of 35 16] lens
    by (simp_all add: FOTA_MAGIC_def struct_H_def)
  ultimately show "take 4 d = FOTA_MAGIC" "d ! 4 = 1" "header_fields d = h"
    by (simp_all add: header_fields_def)
qed

lemma header_fields_built:
  assumes "build_header tag fw vec key_len = Inr h"
  shows "take 4 (h @ rest) = FOTA_MAGIC" "(h @ rest) ! 4 = 1"
    "header_fields (h @ rest) =
      \<lparr>platform_tag = tag @ replicate (16 - length tag) 0, fw_version = fw @ replicate (12 - length fw) 0,
       wrapped_key_len = word_of_int key_len, iv = vec\<rparr>"
proof -
  let ?h = "\<lparr>platform_tag = tag @ replicate (16 - length tag) 0,
            fw_version = fw @ replicate (12 - length fw) 0,
            wrapped_key_len = word_of_int key_len, iv = vec\<rparr>"
  have u: "uint (word_of_int key_len :: u16) = key_len"
    using assms by (simp add: build_header_Inr uint_word_of_int)
  then have "unat (word_of_int key_len :: u16) = nat key_len" by (simp add: unat_eq_nat_uint)
  then have "h = FOTA_MAGIC @ [1] @ platform_tag ?h @ fw_version ?h
           @ struct_H (unat (wrapped_key_len ?h)) @ iv ?h" and wf: "wf_header ?h"
    using assms by (auto simp: build_header_Inr wf_header_def)
  moreover have len: "51 \<le> length (h @ rest)" and "take 51 (h @ rest) = h"
    using length_build_header [OF assms] by simp_all
  ultimately have "take 51 (h @ rest) = FOTA_MAGIC @ [1] @ platform_tag ?h @ fw_version ?h
           @ struct_H (unat (wrapped_key_len ?h)) @ iv ?h" by (simp only:)
  from header_fields_of_bytes [OF wf len this]
  show "take 4 (h @ rest) = FOTA_MAGIC" "(h @ rest) ! 4 = 1" "header_fields (h @ rest) = ?h" .
qed

lemma header_parse_bytes:
  assumes "n \<le> length d"
  shows "fota_header_parse (Some d) n (Some out) = Some (FOTA_HEADER_OK, Some h) \<longleftrightarrow>
    51 \<le> n \<and> wf_header h \<and> take 51 d = header_bytes h"
    (is "?l \<longleftrightarrow> ?r")
proof
  assume ?l
  then have n: "51 \<le> n" and m: "take 4 d = FOTA_MAGIC" "d ! 4 = 1" and h: "h = header_fields d"
    using assms by (auto simp: fota_header_parse_eq split: if_splits)
  have "take 51 d = header_bytes h"
    using header_cut [of d] n assms m h by (simp add: header_fields_def header_bytes_def struct_H_be16)
  then show ?r using n assms h by (simp add: wf_header_fields)
next
  assume ?r
  then have "take 4 d = FOTA_MAGIC" "d ! 4 = 1" "header_fields d = h"
    using assms by (auto intro!: header_fields_of_bytes simp: header_bytes_def)
  with \<open>?r\<close> show ?l using assms by (simp add: fota_header_parse_eq)
qed

subsection \<open>Properties\<close>

text \<open>
  C20. The parser returns \<open>h\<close> exactly when the first 51 bytes are the wire form of \<open>h\<close>: magic, version 1, tag and
  version in their full widths, the key length in big-endian order, the IV.  For a tag and version that are ASCII
  this is exactly the header that the packager's \<open>build_header\<close> writes for the fields the parser returns, so on what
  the packager can write the C parser is the inverse of the Python writer.  A tag or version with a byte above 127
  the parser takes all the same, but \<open>build_header\<close> writes no such header: \<open>encode ("ascii")\<close> raises.
\<close>

theorem header_parse_inverts_build_header:
  assumes "n \<le> length d"
  shows "(fota_header_parse (Some d) n (Some out) = Some (FOTA_HEADER_OK, Some h) \<longleftrightarrow>
      51 \<le> n \<and> wf_header h \<and> take 51 d = header_bytes h) \<and>
    (fota_header_parse (Some d) n (Some out) = Some (FOTA_HEADER_OK, Some h) \<and> ascii_fields h \<longleftrightarrow>
      51 \<le> n \<and> wf_header h \<and>
      build_header (platform_tag h) (fw_version h) (iv h) (uint (wrapped_key_len h)) = Inr (take 51 d))"
  using header_parse_bytes [OF assms, of out h] by (auto simp: build_header_wf)

definition sample_header :: "u8 list" where
  "sample_header = FOTA_MAGIC @ [1] @ (ascii ''GENERIC'' @ replicate 9 0)
     @ (ascii ''1.2.3.4'' @ replicate 5 0) @ [1, 0] @ replicate 16 7"

theorem header_parse_inverts_build_header_witness:
  "fota_header_parse (Some (sample_header @ [9])) 52 (Some (header_fields (replicate 51 0)))
     = Some (FOTA_HEADER_OK, Some (header_fields sample_header))"
proof -
  have "build_header (ascii ''GENERIC'' @ replicate 9 0) (ascii ''1.2.3.4'' @ replicate 5 0)
     (replicate 16 7) 256 = Inr sample_header" by code_simp
  moreover have "header_fields sample_header = \<lparr>platform_tag = ascii ''GENERIC'' @ replicate 9 0,
    fw_version = ascii ''1.2.3.4'' @ replicate 5 0, wrapped_key_len = 256, iv = replicate 16 7\<rparr>"
    by code_simp
  moreover have "length sample_header = 51" by code_simp
  ultimately show ?thesis
    using header_parse_inverts_build_header [of 52 "sample_header @ [9]" "header_fields (replicate 51 0)"
        "header_fields sample_header"]
    by (simp add: wf_header_def ascii_def)
qed

text \<open>
  What \<open>build_header\<close> writes is parsed back: the consumer gets the tag and version NUL-padded to their
  field widths, the key length and the IV, whatever follows the header in the package.
\<close>

theorem header_roundtrip:
  assumes "build_header tag fw vec key_len = Inr h"
  shows "fota_header_parse (Some (h @ rest)) (length (h @ rest)) (Some out) =
    Some (FOTA_HEADER_OK,
      Some \<lparr>platform_tag = tag @ replicate (16 - length tag) 0,
            fw_version = fw @ replicate (12 - length fw) 0,
            wrapped_key_len = word_of_int key_len, iv = vec\<rparr>)"
  using header_fields_built [OF assms, of rest] length_build_header [OF assms]
  by (simp only: fota_header_parse_eq order.refl) simp

theorem header_roundtrip_witness:
  "fota_header_parse (Some (sample_header @ [1, 2, 3])) 54 (Some (header_fields (replicate 51 0))) =
    Some (FOTA_HEADER_OK,
      Some \<lparr>platform_tag = ascii ''GENERIC'' @ replicate 9 0,
            fw_version = ascii ''1.2.3.4'' @ replicate 5 0,
            wrapped_key_len = 256, iv = replicate 16 7\<rparr>)"
proof -
  have "build_header (ascii ''GENERIC'') (ascii ''1.2.3.4'') (replicate 16 7) 256 = Inr sample_header"
    by code_simp
  from header_roundtrip [OF this, of "[1, 2, 3]" "header_fields (replicate 51 0)"]
  show ?thesis by (simp add: ascii_def sample_header_def FOTA_MAGIC_def)
qed

text \<open>
  With at most as many bytes announced as there are, the parser never reads outside the announced
  bytes (its result is defined and depends on them only), it always returns a code, and on any error
  \<open>*out\<close> keeps its value.
\<close>

lemma header_parse_bounded:
  assumes "n \<le> length d"
  shows "\<exists>r out'. fota_header_parse (Some d) n (Some out) = Some (r, Some out') \<and>
    fota_header_parse (Some (take n d)) n (Some out) = Some (r, Some out') \<and>
    (r \<noteq> FOTA_HEADER_OK \<longrightarrow> out' = out)"
proof (cases "n < 51")
  case True
  then show ?thesis using assms by (simp add: fota_header_parse_eq)
next
  case False
  then have "header_fields (take n d) = header_fields d" "take 4 (take n d) = take 4 d"
    "take n d ! 4 = d ! 4"
    using assms by (simp_all add: header_fields_def drop_take min_def)
  then show ?thesis using assms False by (simp add: fota_header_parse_eq)
qed

end
