(* ===== verification/Fota_Version.thy ===== *)
theory Fota_Version
  imports Fota_Crypto
begin

section \<open>Firmware versions and downgrade protection (version.c, version.h)\<close>

text \<open>
  The parser of dotted versions, the comparison, the installed-version file, the downgrade-override
  hash file and the downgrade decision of \<open>consumer/src/version.c\<close>.  The lemmas show that the
  parser accepts exactly the four-part decimal versions with 32-bit parts and computes their values, that the
  comparison returns the sign of the lexicographic order of the four parts (which is defined on its own, and makes the
  type an instance of the library's \<open>linorder\<close>), that a written version file is read back, and exactly when a downgrade passes.
\<close>

subsection \<open>Types\<close>

text \<open>\<open>uint32_t parts[4]\<close>\<close>

datatype fota_version = Fota_version (part0: u32) (part1: u32) (part2: u32) (part3: u32)

definition FOTA_VERSION_PARTS :: nat where "FOTA_VERSION_PARTS = 4"

definition FOTA_DOWNGRADE_SECRET_HASH_SIZE :: nat where "FOTA_DOWNGRADE_SECRET_HASH_SIZE = 32"

definition FOTA_VERSION_READ_BUF_SIZE :: nat where "FOTA_VERSION_READ_BUF_SIZE = 64"

lemmas version_sizes = FOTA_VERSION_PARTS_def FOTA_DOWNGRADE_SECRET_HASH_SIZE_def
  FOTA_VERSION_READ_BUF_SIZE_def

definition parts :: "fota_version \<Rightarrow> u32 list" where
  "parts v = [part0 v, part1 v, part2 v, part3 v]"

definition version_of_parts :: "u32 list \<Rightarrow> fota_version" where
  "version_of_parts ps = Fota_version (ps ! 0) (ps ! 1) (ps ! 2) (ps ! 3)"

datatype fota_version_parse_result = FOTA_VERSION_PARSE_OK | FOTA_VERSION_PARSE_ERR_MALFORMED

datatype fota_version_read_result = FOTA_VERSION_READ_OK | FOTA_VERSION_READ_ERR_MALFORMED_CONTENTS

datatype fota_secret_hash_read_result =
  FOTA_SECRET_HASH_READ_OK | FOTA_SECRET_HASH_READ_ERR_UNAVAILABLE

datatype fota_downgrade_check_result =
  FOTA_DOWNGRADE_CHECK_ALLOW | FOTA_DOWNGRADE_CHECK_UP_TO_DATE | FOTA_DOWNGRADE_CHECK_BLOCKED

subsection \<open>Parsing\<close>

abbreviation is_digit :: "u8 \<Rightarrow> bool" where "is_digit b \<equiv> 48 \<le> b \<and> b \<le> 57"

abbreviation dot :: u8 where "dot \<equiv> 46"

text \<open>The content ends at the first NUL or at \<open>data_len\<close>.\<close>

function content_len :: "u8 list \<Rightarrow> nat \<Rightarrow> nat \<Rightarrow> nat option" where
  "content_len d n i =
     (if i < n then do {
        b \<leftarrow> rd d i;
        if b \<noteq> 0 then content_len d n (Suc i) else Some i
      } else Some i)"
  by pat_completeness auto
termination by (relation "measure (\<lambda>(d, n, i). n - i)") auto

text \<open>The value of one component: 64-bit arithmetic, refused as soon as it leaves 32 bits.\<close>

function component_value ::
    "u8 list \<Rightarrow> nat \<Rightarrow> nat \<Rightarrow> u64 \<Rightarrow> (fota_version_parse_result + u64) option" where
  "component_value d j i value =
     (if j < i then do {
        b \<leftarrow> rd d j;
        let value' = value * 10 + (ucast b - 48);
        if value' > 0xFFFFFFFF then Some (Inl FOTA_VERSION_PARSE_ERR_MALFORMED)
        else component_value d (Suc j) i value'
      } else Some (Inr value))"
  by pat_completeness auto
termination by (relation "measure (\<lambda>(d, j, i, value). i - j)") auto

text \<open>The main loop: \<open>i\<close> runs to \<open>content_len\<close> inclusive, \<open>ps\<close> are the parts found so far.\<close>

function version_scan ::
    "u8 list \<Rightarrow> nat \<Rightarrow> nat \<Rightarrow> nat \<Rightarrow> u32 list \<Rightarrow> (fota_version_parse_result + u32 list) option" where
  "version_scan d clen i component_start ps =
     (if i \<le> clen then do {
        at_boundary \<leftarrow> (if i = clen then Some True else do { b \<leftarrow> rd d i; Some (b = dot) });
        if \<not> at_boundary then do {
          b \<leftarrow> rd d i;
          if b < 48 \<or> b > 57 then Some (Inl FOTA_VERSION_PARSE_ERR_MALFORMED)
          else version_scan d clen (Suc i) component_start ps
        }
        else let component_len = i - component_start in
          if component_len = 0 \<or> length ps \<ge> FOTA_VERSION_PARTS
          then Some (Inl FOTA_VERSION_PARSE_ERR_MALFORMED)
          else do {
            r \<leftarrow> component_value d component_start i 0;
            (case r of
               Inl e \<Rightarrow> Some (Inl e)
             | Inr value \<Rightarrow> version_scan d clen (Suc i) (Suc i) (ps @ [ucast value]))
          }
      } else Some (Inr ps))"
  by pat_completeness auto
termination by (relation "measure (\<lambda>(d, clen, i, component_start, ps). Suc clen - i)") auto

declare content_len.simps [simp del] component_value.simps [simp del] version_scan.simps [simp del]

definition fota_version_parse ::
    "u8 list option \<Rightarrow> nat \<Rightarrow> fota_version option \<Rightarrow>
     (fota_version_parse_result \<times> fota_version option) option"
where
  "fota_version_parse data data_len out =
     (case (data, out) of
        (Some d, Some _) \<Rightarrow>
          if data_len = 0 then Some (FOTA_VERSION_PARSE_ERR_MALFORMED, out)
          else do {
            clen \<leftarrow> content_len d data_len 0;
            if clen = 0 then Some (FOTA_VERSION_PARSE_ERR_MALFORMED, out)
            else do {
              r \<leftarrow> version_scan d clen 0 0 [];
              (case r of
                 Inl e \<Rightarrow> Some (e, out)
               | Inr ps \<Rightarrow>
                   if length ps \<noteq> FOTA_VERSION_PARTS
                   then Some (FOTA_VERSION_PARSE_ERR_MALFORMED, out)
                   else Some (FOTA_VERSION_PARSE_OK, Some (version_of_parts ps)))
            }
          }
      | _ \<Rightarrow> Some (FOTA_VERSION_PARSE_ERR_MALFORMED, out))"

subsection \<open>Comparison\<close>

function compare_from :: "u32 list \<Rightarrow> u32 list \<Rightarrow> nat \<Rightarrow> int" where
  "compare_from as bs i =
     (if i < FOTA_VERSION_PARTS then
        if as ! i < bs ! i then -1
        else if as ! i > bs ! i then 1
        else compare_from as bs (Suc i)
      else 0)"
  by pat_completeness auto
termination by (relation "measure (\<lambda>(as, bs, i). FOTA_VERSION_PARTS - i)") auto

declare compare_from.simps [simp del]

definition fota_version_compare :: "fota_version \<Rightarrow> fota_version \<Rightarrow> int" where
  "fota_version_compare a b = compare_from (parts a) (parts b) 0"

subsection \<open>The installed-version file\<close>

abbreviation is_ws :: "u8 \<Rightarrow> bool" where "is_ws b \<equiv> b = 10 \<or> b = 13 \<or> b = 32 \<or> b = 9"

fun trim_trailing :: "u8 list \<Rightarrow> nat \<Rightarrow> nat option" where
  "trim_trailing buf 0 = Some 0"
| "trim_trailing buf (Suc k) = do {
     b \<leftarrow> rd buf k;
     if is_ws b then trim_trailing buf k else Some (Suc k)
   }"

text \<open>The result is the code and \<open>*out\<close>, which starts as 0.0.0.0.\<close>

definition fota_version_read_installed ::
    "world \<Rightarrow> u8 list option \<Rightarrow> (fota_version_read_result \<times> fota_version) option"
where
  "fota_version_read_installed w path =
     (let out = Fota_version 0 0 0 0 in
      case path of
        None \<Rightarrow> Some (FOTA_VERSION_READ_OK, out)
      | Some p \<Rightarrow>
          (case fopen_rb w p of
             None \<Rightarrow> Some (FOTA_VERSION_READ_OK, out)
           | Some fp \<Rightarrow>
               let (buf, fp1) = fread FOTA_VERSION_READ_BUF_SIZE fp;
                   n = length buf;
                   has_more = (n = FOTA_VERSION_READ_BUF_SIZE \<and> length (fst (fread 1 fp1)) = 1)
               in if has_more then Some (FOTA_VERSION_READ_ERR_MALFORMED_CONTENTS, out)
                  else do {
                    n' \<leftarrow> trim_trailing buf n;
                    if n' = 0 then Some (FOTA_VERSION_READ_OK, out)
                    else do {
                      (r, parsed) \<leftarrow> fota_version_parse (Some buf) n' (Some out);
                      (case (r, parsed) of
                         (FOTA_VERSION_PARSE_OK, Some v) \<Rightarrow> Some (FOTA_VERSION_READ_OK, v)
                       | _ \<Rightarrow> Some (FOTA_VERSION_READ_ERR_MALFORMED_CONTENTS, out))
                    }
                  }))"

text \<open>\<open>%u\<close> of \<open>snprintf\<close>: the decimal digits, no leading zero.\<close>

fun dec_digits :: "nat \<Rightarrow> u8 list" where
  "dec_digits n = (if n < 10 then [of_nat (48 + n)]
                   else dec_digits (n div 10) @ [of_nat (48 + n mod 10)])"

declare dec_digits.simps [simp del]

definition version_text :: "fota_version \<Rightarrow> u8 list" where
  "version_text v =
     dec_digits (unat (part0 v)) @ [dot] @ dec_digits (unat (part1 v)) @ [dot]
     @ dec_digits (unat (part2 v)) @ [dot] @ dec_digits (unat (part3 v)) @ [10]"

text \<open>
  \<open>snprintf\<close> returns the length of the whole text, whatever the size of \<open>buf\<close>.
\<close>

definition fota_version_write_installed ::
    "u8 list option \<Rightarrow> fota_version option \<Rightarrow> world \<Rightarrow> int \<times> world"
where
  "fota_version_write_installed path version w =
     (case (path, version) of
        (Some p, Some v) \<Rightarrow>
          let text = version_text v; written = length text in
          if written \<ge> 64 then (-1, w)
          else (case put_file p text w of (ok, w') \<Rightarrow> (if ok then 0 else -1, w'))
      | _ \<Rightarrow> (-1, w))"

subsection \<open>The downgrade override\<close>

text \<open>
  The result is the code and the contents of \<open>out_hash\<close>, which a failed read may have changed.
\<close>

definition fota_version_read_downgrade_secret_hash ::
    "world \<Rightarrow> u8 list option \<Rightarrow> u8 list option \<Rightarrow>
     (fota_secret_hash_read_result \<times> u8 list option) option"
where
  "fota_version_read_downgrade_secret_hash w path out_hash =
     (case (path, out_hash) of
        (Some p, Some out) \<Rightarrow>
          (case fopen_rb w p of
             None \<Rightarrow> Some (FOTA_SECRET_HASH_READ_ERR_UNAVAILABLE, out_hash)
           | Some fp \<Rightarrow> do {
               let (bytes, fp1) = fread FOTA_DOWNGRADE_SECRET_HASH_SIZE fp;
               out' \<leftarrow> wr_slice out 0 bytes;
               let (extra, _) = fread 1 fp1;
               if length bytes \<noteq> FOTA_DOWNGRADE_SECRET_HASH_SIZE \<or> length extra \<noteq> 0
               then Some (FOTA_SECRET_HASH_READ_ERR_UNAVAILABLE, Some out')
               else Some (FOTA_SECRET_HASH_READ_OK, Some out')
             })
      | _ \<Rightarrow> Some (FOTA_SECRET_HASH_READ_ERR_UNAVAILABLE, out_hash))"

text \<open>
  \<open>EVP_Digest\<close> writes into a buffer of 32 bytes; a longer digest would run over it.
\<close>

definition fota_downgrade_check ::
    "'h openssl \<Rightarrow> fota_version \<Rightarrow> fota_version \<Rightarrow> u8 list option \<Rightarrow> nat \<Rightarrow> u8 list option \<Rightarrow>
     fota_downgrade_check_result option"
where
  "fota_downgrade_check C new_version installed_version override_secret override_secret_len
     stored_secret_hash =
     (let cmp = fota_version_compare new_version installed_version in
      if cmp > 0 then Some FOTA_DOWNGRADE_CHECK_ALLOW
      else if cmp = 0 then Some FOTA_DOWNGRADE_CHECK_UP_TO_DATE
      else (case (stored_secret_hash, override_secret) of
              (Some stored, Some secret) \<Rightarrow>
                if override_secret_len = 0 then Some FOTA_DOWNGRADE_CHECK_BLOCKED
                else do {
                  s \<leftarrow> rd_slice secret 0 override_secret_len;
                  let (rc, computed_hash) = EVP_Digest C s EVP_sha256;
                  if length computed_hash > FOTA_DOWNGRADE_SECRET_HASH_SIZE then None
                  else if rc \<noteq> 1 \<or> length computed_hash \<noteq> FOTA_DOWNGRADE_SECRET_HASH_SIZE
                  then Some FOTA_DOWNGRADE_CHECK_BLOCKED
                  else do {
                    h \<leftarrow> rd_slice stored 0 FOTA_DOWNGRADE_SECRET_HASH_SIZE;
                    Some (if computed_hash = h then FOTA_DOWNGRADE_CHECK_ALLOW
                          else FOTA_DOWNGRADE_CHECK_BLOCKED)
                  }
                }
            | _ \<Rightarrow> Some FOTA_DOWNGRADE_CHECK_BLOCKED))"

subsection \<open>The parser against a specification\<close>

text \<open>
  A version is four components between dots, each a non-empty string of digits with a value below \<open>2 ^ 32\<close>.
\<close>

definition dec_val :: "u8 list \<Rightarrow> nat" where
  "dec_val cs = foldl (\<lambda>v b. v * 10 + (unat b - 48)) 0 cs"

definition component_ok :: "u8 list \<Rightarrow> bool" where
  "component_ok cs \<longleftrightarrow> cs \<noteq> [] \<and> (\<forall>b \<in> set cs. is_digit b) \<and> dec_val cs < 2 ^ 32"

definition version_spec :: "u8 list \<Rightarrow> fota_version option" where
  "version_spec content =
     (let cs = split_on dot content in
      if length cs = 4 \<and> (\<forall>c \<in> set cs. component_ok c)
      then Some (version_of_parts (map (\<lambda>c. of_nat (dec_val c)) cs)) else None)"

lemma content_len_cstr:
  "n \<le> length d \<Longrightarrow> content_len d n i = Some (i + length (cstr (drop i (take n d))))"
proof (induction d n i rule: content_len.induct)
  case (1 d n i)
  show ?case
  proof (cases "i < n")
    case True
    then have "drop i (take n d) = d ! i # drop (Suc i) (take n d)"
      using "1.prems" by (simp add: Cons_nth_drop_Suc [symmetric])
    then show ?thesis
      using True "1.prems" "1.IH" [OF True]
      by (auto simp: content_len.simps [of d n i] rd_def cstr_def)
  qed (simp add: content_len.simps [of d n i] cstr_def)
qed

lemma foldl_dec_mono: "v \<le> foldl (\<lambda>v b. v * 10 + (unat b - 48)) v (cs :: u8 list)"
proof (induction cs arbitrary: v)
  case (Cons c cs)
  have "v \<le> v * 10 + (unat c - 48)" by simp
  then show ?case using Cons [of "v * 10 + (unat c - 48)"] by simp
qed simp

lemma digit_step:
  assumes "is_digit b"
  shows "of_nat v * 10 + (ucast b - 48) = (of_nat (v * 10 + (unat b - 48)) :: u64)"
proof -
  have "48 \<le> unat b" using assms by (simp add: word_le_nat_alt)
  then show ?thesis by (simp add: of_nat_diff)
qed

lemma component_value_seg:
  assumes "\<forall>b \<in> set (seg d j i). is_digit b" and "v < 2 ^ 32" and "i \<le> length d"
  shows "component_value d j i (of_nat v) =
    (let t = foldl (\<lambda>v b. v * 10 + (unat b - 48)) v (seg d j i) in
     Some (if t < 2 ^ 32 then Inr (of_nat t) else Inl FOTA_VERSION_PARSE_ERR_MALFORMED))"
  using assms
proof (induction "i - j" arbitrary: j v)
  case 0
  then show ?case by (simp add: component_value.simps seg_def)
next
  case (Suc k)
  then have ji: "j < i" by simp
  note cons = seg_Cons [OF ji Suc.prems(3)]
  let ?v = "v * 10 + (unat (d ! j) - 48)"
  have dig: "is_digit (d ! j)" using Suc.prems(1) cons by simp
  then have "unat (d ! j) \<le> 57" by (simp add: word_le_nat_alt)
  then have small: "?v < 2 ^ 64" using Suc.prems(2) by simp
  then have "unat (of_nat ?v :: u64) = ?v"
    by (simp add: unat_of_nat del: of_nat_add of_nat_mult)
  then have cmp: "(of_nat ?v :: u64) > 0xFFFFFFFF \<longleftrightarrow> 2 ^ 32 \<le> ?v"
    by (simp only: word_less_nat_alt) auto
  show ?case
  proof (cases "?v < 2 ^ 32")
    case True
    have "component_value d j i (of_nat v) = component_value d (Suc j) i (of_nat ?v)"
      using ji Suc.prems True cmp
      by (simp add: component_value.simps [of d j i] rd_def digit_step [OF dig] Let_def del: of_nat_add of_nat_mult)
    then show ?thesis
      using Suc.hyps(1) [of "Suc j" ?v] Suc.hyps(2) Suc.prems True cons by simp
  next
    case False
    then have "\<not> foldl (\<lambda>v b. v * 10 + (unat b - 48)) v (seg d j i) < 2 ^ 32"
      using foldl_dec_mono [of ?v "seg d (Suc j) i"] cons by simp
    then show ?thesis
      using ji Suc.prems False cmp
      by (simp add: component_value.simps [of d j i] rd_def digit_step [OF dig] Let_def del: of_nat_add of_nat_mult)
  qed
qed

text \<open>The main loop over the bytes that are left, with the open component in front.\<close>

definition close_component ::
    "u8 list \<Rightarrow> u32 list \<Rightarrow> fota_version_parse_result + u32 list" where
  "close_component pre ps =
     (if pre = [] \<or> 4 \<le> length ps \<or> 2 ^ 32 \<le> dec_val pre then Inl FOTA_VERSION_PARSE_ERR_MALFORMED
      else Inr (ps @ [of_nat (dec_val pre)]))"

fun scan_list ::
    "u8 list \<Rightarrow> u8 list \<Rightarrow> u32 list \<Rightarrow> fota_version_parse_result + u32 list" where
  "scan_list pre [] ps = close_component pre ps"
| "scan_list pre (b # r) ps =
     (if b = dot then (case close_component pre ps of Inl e \<Rightarrow> Inl e | Inr ps' \<Rightarrow> scan_list [] r ps')
      else if is_digit b then scan_list (pre @ [b]) r ps
      else Inl FOTA_VERSION_PARSE_ERR_MALFORMED)"

lemma version_scan_boundary:
  assumes "component_start \<le> i" and "i \<le> length d"
    and "\<forall>b \<in> set (seg d component_start i). is_digit b"
  shows "(let component_len = i - component_start in
      if component_len = 0 \<or> length ps \<ge> FOTA_VERSION_PARTS
      then Some (Inl FOTA_VERSION_PARSE_ERR_MALFORMED)
      else do {
        r \<leftarrow> component_value d component_start i 0;
        (case r of Inl e \<Rightarrow> Some (Inl e) | Inr value \<Rightarrow> f (ps @ [ucast value]))
      }) = (case close_component (seg d component_start i) ps of Inl e \<Rightarrow> Some (Inl e) | Inr ps' \<Rightarrow> f ps')"
proof -
  have "seg d component_start i = [] \<longleftrightarrow> i - component_start = 0"
    using assms length_seg [of i d component_start] by (metis length_0_conv)
  moreover have "component_value d component_start i 0 =
    (let t = dec_val (seg d component_start i) in
     Some (if t < 2 ^ 32 then Inr (of_nat t) else Inl FOTA_VERSION_PARSE_ERR_MALFORMED))"
    using component_value_seg [of d component_start i 0] assms by (simp add: dec_val_def)
  ultimately show ?thesis
    by (auto simp: close_component_def FOTA_VERSION_PARTS_def Let_def ucast_of_nat_u64)
qed

lemma version_scan_list:
  assumes "component_start \<le> i" and "i \<le> clen" and "clen \<le> length d"
    and "\<forall>b \<in> set (seg d component_start i). is_digit b"
  shows "version_scan d clen i component_start ps =
    Some (scan_list (seg d component_start i) (seg d i clen) ps)"
  using assms
proof (induction "clen - i" arbitrary: i component_start ps)
  case 0
  then have i: "i = clen" by simp
  have stop: "version_scan d clen (Suc clen) (Suc clen) ps' = Some (Inr ps')" for ps'
    by (simp add: version_scan.simps)
  show ?case
    using version_scan_boundary [of component_start clen d ps
        "version_scan d clen (Suc clen) (Suc clen)"] 0 i
    by (simp add: version_scan.simps [of d clen clen] stop split: sum.splits)
next
  case (Suc k)
  then have i: "i < clen" and il: "i < length d" by simp_all
  note cons = seg_Cons [OF i Suc.prems(3)]
  consider (dot) "d ! i = dot" | (digit) "d ! i \<noteq> dot" "is_digit (d ! i)"
    | (other) "d ! i \<noteq> dot" "\<not> is_digit (d ! i)" by blast
  then show ?case
  proof cases
    case dot
    have "version_scan d clen i component_start ps =
      (case close_component (seg d component_start i) ps of
         Inl e \<Rightarrow> Some (Inl e) | Inr ps' \<Rightarrow> version_scan d clen (Suc i) (Suc i) ps')"
      using version_scan_boundary [of component_start i d ps "version_scan d clen (Suc i) (Suc i)"]
        Suc.prems il i dot
      by (simp add: version_scan.simps [of d clen i] rd_def)
    moreover have "version_scan d clen (Suc i) (Suc i) ps' = Some (scan_list [] (seg d (Suc i) clen) ps')" for ps'
      using Suc.hyps(1) [of "Suc i" "Suc i" ps'] Suc.hyps(2) Suc.prems i by simp
    ultimately show ?thesis using dot cons by (simp split: sum.splits)
  next
    case digit
    have "\<not> d ! i < 48" "\<not> 57 < d ! i" using digit by (simp_all add: not_less)
    then have "version_scan d clen i component_start ps = version_scan d clen (Suc i) component_start ps"
      using digit(1) i il by (simp add: version_scan.simps [of d clen i] rd_def)
    then show ?thesis
      using Suc.hyps(1) [of "Suc i" component_start ps] Suc.hyps(2) Suc.prems i il digit cons
      by (simp add: seg_snoc)
  next
    case other
    then show ?thesis
      using i il cons by (auto simp: version_scan.simps [of d clen i] rd_def not_le dest: leD)
  qed
qed

lemma split_on_covers: "b \<in> set xs \<Longrightarrow> b \<noteq> c \<Longrightarrow> \<exists>p \<in> set (split_on c xs). b \<in> set p"
  by (induction xs) (fastforce split: list.splits)+

lemma scan_list_spec:
  assumes "\<forall>b \<in> set pre. is_digit b"
  shows "scan_list pre r ps =
    (let cs = split_on dot (pre @ r) in
     if (\<forall>c \<in> set cs. component_ok c) \<and> length ps + length cs \<le> 4
     then Inr (ps @ map (\<lambda>c. of_nat (dec_val c)) cs) else Inl FOTA_VERSION_PARSE_ERR_MALFORMED)"
  using assms
proof (induction pre r ps rule: scan_list.induct)
  case (1 pre ps)
  then have "dot \<notin> set pre" by auto
  then show ?case using 1 by (auto simp: split_on_no_sep close_component_def component_ok_def)
next
  case (2 pre b r ps)
  consider (dot) "b = dot" | (digit) "b \<noteq> dot" "is_digit b" | (other) "b \<noteq> dot" "\<not> is_digit b"
    by blast
  then show ?case
  proof cases
    case dot
    have "dot \<notin> set pre" using 2(3) by auto
    then have "split_on dot (pre @ b # r) = pre # split_on dot r"
      using dot by (simp add: split_on_append_sep)
    then show ?thesis
      using dot 2 by (auto simp: close_component_def component_ok_def Let_def)
  next
    case digit
    then show ?thesis using 2 by simp
  next
    case other
    then obtain p where "p \<in> set (split_on dot (pre @ b # r))" "b \<in> set p"
      using split_on_covers [of b "pre @ b # r" dot] by auto
    then have "\<exists>p \<in> set (split_on dot (pre @ b # r)). \<not> component_ok p"
      using other by (auto simp: component_ok_def)
    then show ?thesis using other by (auto simp: Let_def)
  qed
qed

lemma fota_version_parse_eq:
  assumes "n \<le> length d"
  shows "fota_version_parse (Some d) n (Some out) =
    Some (case version_spec (cstr (take n d)) of
            Some v \<Rightarrow> (FOTA_VERSION_PARSE_OK, Some v)
          | None \<Rightarrow> (FOTA_VERSION_PARSE_ERR_MALFORMED, Some out))"
proof -
  let ?c = "cstr (take n d)"
  have len: "content_len d n 0 = Some (length ?c)"
    using content_len_cstr [OF assms, of 0] by simp
  have pre: "seg d 0 (length ?c) = ?c"
    using cstr_length_le [of "take n d"] assms
    by (simp add: seg_def cstr_def takeWhile_eq_take [symmetric] flip: take_take)
       (metis min.absorb1 take_take takeWhile_eq_take)
  have "length ?c \<le> length d"
    using cstr_length_le [of "take n d"] assms by simp
  then have "version_scan d (length ?c) 0 0 [] = Some (scan_list [] ?c [])"
    using version_scan_list [of 0 0 "length ?c" d "[]"] pre by simp
  then show ?thesis
    using len by (auto simp: fota_version_parse_def scan_list_spec version_spec_def Let_def
        FOTA_VERSION_PARTS_def)
qed

subsection \<open>The comparison as an order\<close>

text \<open>What a three-way comparison promises to the policy that calls it.\<close>

locale three_way =
  fixes cmp :: "'v \<Rightarrow> 'v \<Rightarrow> int"
  assumes cmp_range: "cmp a b \<in> {-1, 0, 1}"
    and cmp_eq: "cmp a b = 0 \<longleftrightarrow> a = b"
    and cmp_swap: "cmp b a = - cmp a b"
    and cmp_trans: "cmp a b < 0 \<Longrightarrow> cmp b c < 0 \<Longrightarrow> cmp a c < 0"
begin

lemma cmp_refl [simp]: "cmp a a = 0"
  by (simp add: cmp_eq)

lemma cmp_le_trans: "cmp a b \<le> 0 \<Longrightarrow> cmp b c \<le> 0 \<Longrightarrow> cmp a c \<le> 0"
  using cmp_eq cmp_trans by (metis order_le_less)

lemma cmp_antisym: "cmp a b \<le> 0 \<Longrightarrow> cmp b a \<le> 0 \<Longrightarrow> a = b"
  using cmp_swap [of b a] cmp_eq by force

lemma cmp_total: "cmp a b \<le> 0 \<or> cmp b a \<le> 0"
  using cmp_swap [of b a] by linarith

lemma cmp_less: "cmp a b < 0 \<longleftrightarrow> cmp a b \<le> 0 \<and> \<not> cmp b a \<le> 0"
  using cmp_swap [of b a] by linarith

text \<open>
  A chain of updates in which every version is greater than the one before never comes back to a version it
  had left.
\<close>

lemma increasing_chain:
  assumes "\<forall>i. Suc i < length vs \<longrightarrow> cmp (vs ! Suc i) (vs ! i) > 0"
    and "i < j" and "j < length vs"
  shows "cmp (vs ! j) (vs ! i) > 0"
  using assms(2,3)
proof (induction j)
  case (Suc j)
  have step: "cmp (vs ! Suc j) (vs ! j) > 0" using assms(1) Suc.prems by blast
  show ?case
  proof (cases "i = j")
    case False
    then have "cmp (vs ! j) (vs ! i) > 0" using Suc by simp
    then show ?thesis
      using step cmp_trans cmp_swap by (metis neg_less_0_iff_less)
  qed (use step in simp)
qed simp

end

text \<open>The number that a version stands for, its parts read as digits to the base \<open>2 ^ 32\<close>.\<close>

definition version_rank :: "fota_version \<Rightarrow> nat" where
  "version_rank v =
     ((unat (part0 v) * 2 ^ 32 + unat (part1 v)) * 2 ^ 32 + unat (part2 v)) * 2 ^ 32 + unat (part3 v)"

lemma compare_cases:
  "fota_version_compare a b =
     (if part0 a < part0 b then -1 else if part0 b < part0 a then 1
      else if part1 a < part1 b then -1 else if part1 b < part1 a then 1
      else if part2 a < part2 b then -1 else if part2 b < part2 a then 1
      else if part3 a < part3 b then -1 else if part3 b < part3 a then 1 else 0)"
proof -
  let ?c = "compare_from (parts a) (parts b)"
  have step: "?c i = (if i < 4 then if parts a ! i < parts b ! i then -1
       else if parts a ! i > parts b ! i then 1 else ?c (Suc i) else 0)" for i
    by (subst compare_from.simps) (simp add: FOTA_VERSION_PARTS_def)
  have nth: "parts v ! 0 = part0 v" "parts v ! Suc 0 = part1 v" "parts v ! Suc (Suc 0) = part2 v"
    "parts v ! Suc (Suc (Suc 0)) = part3 v" for v
    by (simp_all add: parts_def)
  show ?thesis
    using step [of 0] step [of "Suc 0"] step [of "Suc (Suc 0)"] step [of "Suc (Suc (Suc 0))"]
      step [of "Suc (Suc (Suc (Suc 0)))"]
    by (simp add: fota_version_compare_def nth)
qed

lemma rank_digits:
  fixes a b c d a' b' c' d' :: nat
  assumes "b < m" "c < m" "d < m" "b' < m" "c' < m" "d' < m"
  shows "((a * m + b) * m + c) * m + d < ((a' * m + b') * m + c') * m + d' \<longleftrightarrow>
    a < a' \<or> a = a' \<and> (b < b' \<or> b = b' \<and> (c < c' \<or> c = c' \<and> d < d'))"
proof -
  have digit: "x * m + y < x' * m + y' \<longleftrightarrow> x < x' \<or> x = x' \<and> y < y'"
    if "y < m" "y' < m" for x y x' y' :: nat
  proof (cases x x' rule: linorder_cases)
    case less
    then have "Suc x * m \<le> x' * m" by (intro mult_right_mono) auto
    then show ?thesis using less that by simp
  next
    case greater
    then have "Suc x' * m \<le> x * m" by (intro mult_right_mono) auto
    then show ?thesis using greater that by simp
  qed simp
  have digit_eq: "x * m + y = x' * m + y' \<longleftrightarrow> x = x' \<and> y = y'"
    if "y < m" "y' < m" for x y x' y' :: nat
    using digit [OF that] digit [OF that(2,1)] by (metis less_irrefl nat_neq_iff)
  show ?thesis using assms by (simp add: digit digit_eq) blast
qed

lemma version_rank_less:
  "version_rank a < version_rank b \<longleftrightarrow> fota_version_compare a b = -1"
proof -
  have bnd: "unat w < 2 ^ 32" for w :: u32
    using unsigned_less [of w, where 'a = nat] by simp
  show ?thesis
    unfolding version_rank_def compare_cases
    by (subst rank_digits) (simp_all only: bnd, auto simp: word_less_nat_alt)
qed

lemma compare_swap: "fota_version_compare b a = - fota_version_compare a b"
  by (cases "part0 a" "part0 b" rule: linorder_cases;
      cases "part1 a" "part1 b" rule: linorder_cases;
      cases "part2 a" "part2 b" rule: linorder_cases;
      cases "part3 a" "part3 b" rule: linorder_cases; simp add: compare_cases)

lemma compare_eq: "fota_version_compare a b = 0 \<longleftrightarrow> a = b"
  by (auto simp: compare_cases fota_version.expand split: if_splits)

lemma compare_range: "fota_version_compare a b \<in> {-1, 0, 1}"
  by (simp add: compare_cases)

interpretation version_order: three_way fota_version_compare
proof unfold_locales
  fix a b c :: fota_version
  show "fota_version_compare a b \<in> {-1, 0, 1}" by (rule compare_range)
  show "fota_version_compare a b = 0 \<longleftrightarrow> a = b" by (rule compare_eq)
  show "fota_version_compare b a = - fota_version_compare a b" by (rule compare_swap)
  assume "fota_version_compare a b < 0" "fota_version_compare b c < 0"
  then have "version_rank a < version_rank b" "version_rank b < version_rank c"
    using compare_range [of a b] compare_range [of b c] by (auto simp: version_rank_less)
  then have "version_rank a < version_rank c" by simp
  then show "fota_version_compare a c < 0" by (simp add: version_rank_less)
qed

text \<open>
  The order of versions, written without the comparison of the code: the first part in which two versions
  differ decides, as an unsigned number.  The laws of the library's \<open>linorder\<close> come from the
  interface above, because \<open>fota_version_compare\<close> is the sign of this order.
\<close>

instantiation fota_version :: linorder
begin

definition less_fota_version :: "fota_version \<Rightarrow> fota_version \<Rightarrow> bool" where
  "less_fota_version a b \<longleftrightarrow>
     part0 a < part0 b \<or> part0 a = part0 b \<and>
     (part1 a < part1 b \<or> part1 a = part1 b \<and>
     (part2 a < part2 b \<or> part2 a = part2 b \<and> part3 a < part3 b))"

definition less_eq_fota_version :: "fota_version \<Rightarrow> fota_version \<Rightarrow> bool" where
  "less_eq_fota_version a b \<longleftrightarrow> a = b \<or> a < b"

lemma less_compare: "(a :: fota_version) < b \<longleftrightarrow> fota_version_compare a b < 0"
  by (auto simp: less_fota_version_def compare_cases)

lemma less_eq_compare: "(a :: fota_version) \<le> b \<longleftrightarrow> fota_version_compare a b \<le> 0"
  using compare_eq [of a b] by (auto simp: less_eq_fota_version_def less_compare)

instance
proof
  fix a b c :: fota_version
  show "a < b \<longleftrightarrow> a \<le> b \<and> \<not> b \<le> a"
    unfolding less_eq_compare less_compare by (rule version_order.cmp_less)
  show "a \<le> a" by (simp add: less_eq_compare)
  show "a \<le> b \<Longrightarrow> b \<le> c \<Longrightarrow> a \<le> c"
    unfolding less_eq_compare by (rule version_order.cmp_le_trans)
  show "a \<le> b \<Longrightarrow> b \<le> a \<Longrightarrow> a = b"
    unfolding less_eq_compare by (rule version_order.cmp_antisym)
  show "a \<le> b \<or> b \<le> a"
    unfolding less_eq_compare by (rule version_order.cmp_total)
qed

end

subsection \<open>Decimal text\<close>

lemma dec_val_append_digit: "dec_val (cs @ [b]) = dec_val cs * 10 + (unat b - 48)"
  by (simp add: dec_val_def)

lemma digit_byte:
  assumes "k < 10"
  shows "unat (of_nat (48 + k) :: u8) = 48 + k"
  using assms by (simp add: unat_of_nat del: of_nat_add)

lemma dec_digits_props:
  "dec_digits n \<noteq> [] \<and> (\<forall>b \<in> set (dec_digits n). is_digit b) \<and> dec_val (dec_digits n) = n"
proof (induction n rule: dec_digits.induct)
  case (1 n)
  have dig: "is_digit (of_nat (48 + k))" if "k < 10" for k
    using digit_byte [OF that] that by (simp add: word_le_nat_alt del: of_nat_add)
  show ?case
  proof (cases "n < 10")
    case True
    then show ?thesis
      using dig [OF True] digit_byte [OF True]
      by (simp add: dec_digits.simps [of n] dec_val_def del: of_nat_add)
  next
    case False
    then show ?thesis
      using 1 dig [of "n mod 10"] digit_byte [of "n mod 10"]
      by (simp add: dec_digits.simps [of n] dec_val_append_digit del: of_nat_add)
  qed
qed

lemma dec_digits_length: "n < 10 ^ k \<Longrightarrow> 0 < k \<Longrightarrow> length (dec_digits n) \<le> k"
proof (induction n arbitrary: k rule: dec_digits.induct)
  case (1 n)
  show ?case
  proof (cases "n < 10")
    case True
    then show ?thesis using 1(3) by (simp add: dec_digits.simps [of n])
  next
    case False
    with 1(2) obtain k' where k: "k = Suc k'" "0 < k'"
      by (metis One_nat_def gr0_implies_Suc gr0I power_one_right 1(3))
    then have "n div 10 < 10 ^ k'" using 1(2) by (simp add: less_mult_imp_div_less)
    then show ?thesis using 1(1) [OF False] k False by (simp add: dec_digits.simps [of n])
  qed
qed

lemma dec_digits_ok: "n < 2 ^ 32 \<Longrightarrow> component_ok (dec_digits n)"
  using dec_digits_props [of n] by (simp add: component_ok_def)

lemma dec_digits_no_dot: "dot \<notin> set (dec_digits n)"
  using dec_digits_props [of n] by force

lemma version_text_length: "length (version_text v) \<le> 44"
proof -
  have "length (dec_digits (unat w)) \<le> 10" for w :: u32
    using dec_digits_length [of "unat w" 10] unsigned_less [of w, where 'a = nat] by simp
  from this [of "part0 v"] this [of "part1 v"] this [of "part2 v"] this [of "part3 v"]
  show ?thesis by (simp add: version_text_def)
qed

lemma version_spec_text: "version_spec (butlast (version_text v)) = Some v"
proof -
  have "butlast (version_text v) = dec_digits (unat (part0 v)) @ dot # dec_digits (unat (part1 v)) @ dot #
     dec_digits (unat (part2 v)) @ dot # dec_digits (unat (part3 v))"
    by (simp add: version_text_def butlast_append)
  then have "split_on dot (butlast (version_text v)) =
    [dec_digits (unat (part0 v)), dec_digits (unat (part1 v)), dec_digits (unat (part2 v)),
     dec_digits (unat (part3 v))]"
    by (simp add: split_on_append_sep split_on_no_sep dec_digits_no_dot)
  moreover have "unat w < 2 ^ 32" for w :: u32
    using unsigned_less [of w, where 'a = nat] by simp
  ultimately show ?thesis
    using dec_digits_props by (simp add: version_spec_def dec_digits_ok version_of_parts_def)
qed

lemma version_text_bytes:
  "b \<in> set (butlast (version_text v)) \<Longrightarrow> is_digit b \<or> b = dot"
  using dec_digits_props by (auto simp: version_text_def butlast_append)

subsection \<open>Reading the installed version\<close>

definition strip :: "u8 list \<Rightarrow> u8 list" where
  "strip bs = rev (dropWhile is_ws (rev bs))"

text \<open>What the readable content of the version file means.\<close>

definition installed_spec :: "u8 list \<Rightarrow> fota_version_read_result \<times> fota_version" where
  "installed_spec c =
     (if 64 < length c then (FOTA_VERSION_READ_ERR_MALFORMED_CONTENTS, Fota_version 0 0 0 0)
      else if strip c = [] then (FOTA_VERSION_READ_OK, Fota_version 0 0 0 0)
      else (case version_spec (cstr (strip c)) of
              Some v \<Rightarrow> (FOTA_VERSION_READ_OK, v)
            | None \<Rightarrow> (FOTA_VERSION_READ_ERR_MALFORMED_CONTENTS, Fota_version 0 0 0 0)))"

lemma trim_trailing_strip:
  "n \<le> length buf \<Longrightarrow>
     trim_trailing buf n = Some (length (strip (take n buf))) \<and>
     take (length (strip (take n buf))) buf = strip (take n buf) \<and>
     length (strip (take n buf)) \<le> n"
proof (induction n)
  case (Suc k)
  then have "take (Suc k) buf = take k buf @ [buf ! k]" by (simp add: take_Suc_conv_app_nth)
  then show ?case using Suc by (auto simp: strip_def rd_def)
qed (simp add: strip_def)

lemma read_installed_stream:
  assumes "fopen_rb w p = Some fp"
  shows "fota_version_read_installed w (Some p) = Some (installed_spec (avail fp))"
proof -
  let ?c = "avail fp" and ?buf = "take 64 (avail fp)"
  have has_more: "length ?buf = 64 \<and> length (take 1 (drop 64 ?c)) = 1 \<longleftrightarrow> 64 < length ?c"
    by auto
  show ?thesis
  proof (cases "64 < length ?c")
    case True
    then show ?thesis
      using assms by (simp add: fota_version_read_installed_def fread_def version_sizes installed_spec_def)
  next
    case False
    then have buf: "?buf = ?c" by simp
    note t = trim_trailing_strip [of "length ?c" ?c, OF order.refl, simplified]
    show ?thesis
      using assms False t fota_version_parse_eq [of "length (strip ?c)" ?c "Fota_version 0 0 0 0"] buf
      by (auto simp: fota_version_read_installed_def fread_def version_sizes installed_spec_def Let_def
          split: option.splits)
  qed
qed

lemma strip_version_text: "strip (version_text v) = butlast (version_text v)"
proof -
  have whole: "version_text v = butlast (version_text v) @ [10]"
    by (simp add: version_text_def butlast_append)
  have ne: "butlast (version_text v) \<noteq> []" by (simp add: version_text_def butlast_append)
  then have "\<not> is_ws (last (butlast (version_text v)))"
    using version_text_bytes [OF last_in_set [OF ne]] by (auto simp: word_le_nat_alt)
  then have "strip (butlast (version_text v) @ [10]) = butlast (version_text v)"
    using ne by (cases "butlast (version_text v)" rule: rev_cases) (auto simp: strip_def)
  then show ?thesis using whole by metis
qed

lemma installed_spec_text: "installed_spec (version_text v) = (FOTA_VERSION_READ_OK, v)"
proof -
  have "0 \<notin> set (butlast (version_text v))"
    using version_text_bytes [of 0 v] by (auto simp: word_le_nat_alt)
  moreover have "butlast (version_text v) \<noteq> []" by (simp add: version_text_def butlast_append)
  ultimately show ?thesis
    using version_text_length [of v]
    by (simp add: installed_spec_def strip_version_text cstr_id version_spec_text)
qed

text \<open>The version file as a cell of the file store.\<close>

definition decode_version :: "u8 list \<Rightarrow> fota_version option" where
  "decode_version c = (case installed_spec c of (FOTA_VERSION_READ_OK, v) \<Rightarrow> Some v | _ \<Rightarrow> None)"

interpretation version_cell: file_cell put_file get_file resolve readable version_text decode_version
  by unfold_locales (simp add: decode_version_def installed_spec_text)

lemma read_installed_get_file:
  assumes "Option.bind (get_file w p) decode_version = Some v"
  shows "fota_version_read_installed w (Some p) = Some (FOTA_VERSION_READ_OK, v)"
  using assms
  by (auto simp: get_file_def decode_version_def read_installed_stream
      split: option.splits if_splits prod.splits fota_version_read_result.splits Option.bind_split_asm)

lemma write_installed_put_file:
  "fota_version_write_installed (Some p) (Some v) w =
     (case put_file p (version_text v) w of (ok, w') \<Rightarrow> (if ok then 0 else -1, w'))"
  using version_text_length [of v] by (simp add: fota_version_write_installed_def)

lemma read_secret_hash_eq:
  assumes "length out = 32"
  shows "\<exists>r out'. fota_version_read_downgrade_secret_hash w (Some p) (Some out) = Some (r, Some out') \<and>
    length out' = 32 \<and>
    (r = FOTA_SECRET_HASH_READ_OK \<longleftrightarrow>
       (\<exists>fp. fopen_rb w p = Some fp \<and> length (avail fp) = 32)) \<and>
    (r = FOTA_SECRET_HASH_READ_OK \<longrightarrow> (\<exists>fp. fopen_rb w p = Some fp \<and> out' = avail fp))"
proof (cases "fopen_rb w p")
  case None
  then show ?thesis using assms by (simp add: fota_version_read_downgrade_secret_hash_def)
next
  case (Some fp)
  have "length (avail fp) = 32 \<longleftrightarrow> length (take 32 (avail fp)) = 32 \<and> length (take 1 (drop 32 (avail fp))) = 0"
    by auto
  then show ?thesis
    using Some assms
    by (auto simp: fota_version_read_downgrade_secret_hash_def version_sizes fread_def wr_slice_def)
qed

lemma downgrade_check_eq:
  assumes "digest_contract C" and "\<forall>h. stored = Some h \<longrightarrow> length h = 32"
    and "\<forall>s. secret = Some s \<longrightarrow> secret_len \<le> length s"
  shows "fota_downgrade_check C new_v installed secret secret_len stored =
    Some (if installed < new_v then FOTA_DOWNGRADE_CHECK_ALLOW
          else if new_v = installed then FOTA_DOWNGRADE_CHECK_UP_TO_DATE
          else if \<exists>h s. stored = Some h \<and> secret = Some s \<and> 0 < secret_len \<and>
                  EVP_Digest C (take secret_len s) EVP_sha256 = (1, h)
          then FOTA_DOWNGRADE_CHECK_ALLOW else FOTA_DOWNGRADE_CHECK_BLOCKED)"
proof -
  have gt: "installed < new_v \<longleftrightarrow> 0 < fota_version_compare new_v installed"
    using compare_swap [of new_v installed] by (simp add: less_compare)
  note eq = compare_eq [of new_v installed]
  show ?thesis
  proof (cases "fota_version_compare new_v installed < 0")
    case False
    then show ?thesis using gt eq by (auto simp: fota_downgrade_check_def)
  next
    case True
    have dc: "length (snd (EVP_Digest C d EVP_sha256)) \<le> 32"
      "fst (EVP_Digest C d EVP_sha256) = 1 \<Longrightarrow> length (snd (EVP_Digest C d EVP_sha256)) = 32" for d
      using assms(1) by (auto simp: digest_contract_def)
    show ?thesis
    proof (cases "stored = None \<or> secret = None \<or> secret_len = 0")
      case True
      with \<open>fota_version_compare new_v installed < 0\<close> show ?thesis
        using gt eq by (auto simp: fota_downgrade_check_def split: option.splits)
    next
      case False
      then obtain h s where "stored = Some h" "secret = Some s" "0 < secret_len" by auto
      moreover obtain rc md where "EVP_Digest C (take secret_len s) EVP_sha256 = (rc, md)" by fastforce
      ultimately show ?thesis
        using \<open>fota_version_compare new_v installed < 0\<close> gt eq assms(2,3)
          dc [of "take secret_len s"]
        by (auto simp: fota_downgrade_check_def checked_access version_sizes)
    qed
  qed
qed

subsection \<open>Properties\<close>

text \<open>
  C19. The version parser is the specification: for every buffer and announced length it accepts exactly the
  content (up to the first NUL) that is four dot-separated non-empty decimal components below \<open>2 ^ 32\<close>, it then
  stores their values, and otherwise it reports an error and leaves \<open>*out\<close> alone; it never reads past the
  announced length.
\<close>

theorem version_parse_spec:
  assumes "n \<le> length d"
  shows "fota_version_parse (Some d) n (Some out) =
    Some (case version_spec (cstr (take n d)) of
            Some v \<Rightarrow> (FOTA_VERSION_PARSE_OK, Some v)
          | None \<Rightarrow> (FOTA_VERSION_PARSE_ERR_MALFORMED, Some out))"
  by (rule fota_version_parse_eq [OF assms])

theorem version_parse_spec_witness:
  "fota_version_parse (Some (ascii ''1.20.3.4'' @ [0, 9])) 9 (Some (Fota_version 0 0 0 0)) =
     Some (FOTA_VERSION_PARSE_OK, Some (Fota_version 1 20 3 4))"
proof -
  have "version_spec (cstr (take 9 (ascii ''1.20.3.4'' @ [0, 9]))) = Some (Fota_version 1 20 3 4)"
    by (simp add: ascii_def cstr_def version_spec_def component_ok_def dec_val_def version_of_parts_def)
  then show ?thesis
    using version_parse_spec [of 9 "ascii ''1.20.3.4'' @ [0, 9]" "Fota_version 0 0 0 0"]
    by (simp add: ascii_def)
qed

text \<open>
  C18. The comparison is numeric and lexicographic: it returns the sign of the difference of the two
  versions read as numbers to the base \<open>2 ^ 32\<close>.
\<close>

theorem version_compare_numeric:
  "fota_version_compare a b = sgn (int (version_rank a) - int (version_rank b))"
proof -
  consider "fota_version_compare a b = -1" | "fota_version_compare a b = 0" | "fota_version_compare b a = -1"
    using compare_range [of a b] compare_swap [of b a] by auto
  then show ?thesis
    using compare_eq [of a b] compare_swap [of b a] version_rank_less [of a b] version_rank_less [of b a]
    by cases auto
qed

text \<open>
  C34. The installed-version file, every case: no path, or a file that cannot be opened, is version 0.0.0.0
  without an error; otherwise the readable content decides as in \<open>installed_spec\<close>: more than 64 bytes are an
  error, whatever they are, and so is an unparsable rest after trimming; blank content of at most 64 bytes is
  0.0.0.0.  The first of these rules departs from the comment in \<open>version.h\<close>, which promises that a file
  that is empty after trimming is no error and that only content that does not parse is one: see
  \<open>long_blank_tail_refused\<close> below.
\<close>

theorem read_installed_spec:
  "fota_version_read_installed w path =
    Some (case path of None \<Rightarrow> (FOTA_VERSION_READ_OK, Fota_version 0 0 0 0)
          | Some p \<Rightarrow> (case fopen_rb w p of None \<Rightarrow> (FOTA_VERSION_READ_OK, Fota_version 0 0 0 0)
                     | Some fp \<Rightarrow> installed_spec (avail fp)))"
  by (auto simp: read_installed_stream split: option.splits)
     (simp_all add: fota_version_read_installed_def)

text \<open>
  Sixty-five blanks, or a well-formed version with a long enough blank tail, are refused as malformed although
  what trimming leaves is nothing, or parses.
\<close>

theorem long_blank_tail_refused:
  assumes "fopen_rb w p = Some fp" and "avail fp = content @ replicate n 32"
    and "content = [] \<or> (\<exists>v. content = butlast (version_text v))" and "64 < length (avail fp)"
  shows "fota_version_read_installed w (Some p) =
      Some (FOTA_VERSION_READ_ERR_MALFORMED_CONTENTS, Fota_version 0 0 0 0) \<and>
    (content = [] \<or> (\<exists>v. version_spec content = Some v))"
  using assms(3,4) read_installed_stream [OF assms(1)]
  by (auto simp: installed_spec_def version_spec_text)

definition sample_world :: world where
  "sample_world =
     \<lparr>cwd = [], dirs = (\<lambda>l. l \<in> {[], [ascii ''etc'']}), files = (\<lambda>_. None), no_read = (\<lambda>_. False),
      no_write = (\<lambda>_. False), read_stop = (\<lambda>_. None), write_stop = (\<lambda>_. None),
      close_fails = (\<lambda>_. False), vfs_space = (\<lambda>_. None), log = []\<rparr>"

theorem long_blank_tail_refused_witness:
  "fota_version_read_installed
     (sample_world\<lparr>files := (\<lambda>_. None)([ascii ''etc'', ascii ''v''] := Some (replicate 65 32))\<rparr>)
     (Some (ascii ''/etc/v'')) = Some (FOTA_VERSION_READ_ERR_MALFORMED_CONTENTS, Fota_version 0 0 0 0)"
proof -
  let ?w = "sample_world\<lparr>files := (\<lambda>_. None)([ascii ''etc'', ascii ''v''] := Some (replicate 65 32))\<rparr>"
  have r: "resolve ?w (ascii ''/etc/v'') = Some [ascii ''etc'', ascii ''v'']"
    by (simp add: resolve_def sample_world_def ascii_def)
  then obtain fp where fp: "fopen_rb ?w (ascii ''/etc/v'') = Some fp" "avail fp = replicate 65 32"
    by (auto simp: fopen_rb_def sample_world_def open_stream_def)
  show ?thesis using long_blank_tail_refused [OF fp(1), of "[]" 65] fp(2) by simp
qed

text \<open>
  A version that was written is read back: after a successful \<open>fota_version_write_installed\<close> the reader returns
  exactly that version, also when another file is written in between.
\<close>

theorem version_file_roundtrip:
  assumes "fota_version_write_installed (Some p) (Some v) w = (0, w1)" and "readable w p"
    and "put_file q c w1 = (ok, w2)" and "resolve w q \<noteq> resolve w p"
  shows "fota_version_read_installed w1 (Some p) = Some (FOTA_VERSION_READ_OK, v) \<and>
    fota_version_read_installed w2 (Some p) = Some (FOTA_VERSION_READ_OK, v)"
proof -
  have st: "put_file p (version_text v) w = (True, w1)"
    using assms(1) by (auto simp: write_installed_put_file split: prod.splits if_splits)
  show ?thesis
    using version_cell.reload [OF st assms(2)]
      version_cell.reload_after_other [OF st assms(2,3,4)]
    by (simp add: read_installed_get_file)
qed

theorem version_file_roundtrip_witness:
  "fota_version_read_installed
     (snd (put_file (ascii ''/etc/x'') [1]
        (snd (fota_version_write_installed (Some (ascii ''/etc/v'')) (Some (Fota_version 1 0 7 42)) sample_world))))
     (Some (ascii ''/etc/v'')) = Some (FOTA_VERSION_READ_OK, Fota_version 1 0 7 42)"
proof -
  let ?p = "ascii ''/etc/v''" and ?v = "Fota_version 1 0 7 42"
  let ?w1 = "snd (fota_version_write_installed (Some ?p) (Some ?v) sample_world)"
  have r: "resolve sample_world ?p = Some [ascii ''etc'', ascii ''v'']"
    and q: "resolve sample_world (ascii ''/etc/x'') = Some [ascii ''etc'', ascii ''x'']"
    by (simp_all add: resolve_def sample_world_def ascii_def)
  have "fota_version_write_installed (Some ?p) (Some ?v) sample_world = (0, ?w1)"
    using r by (simp add: write_installed_put_file stdio_defs Let_def sample_world_def ascii_def)
  moreover have "readable sample_world ?p"
    using r by (simp add: readable_def sample_world_def)
  moreover have "put_file (ascii ''/etc/x'') [1] ?w1 =
      (fst (put_file (ascii ''/etc/x'') [1] ?w1), snd (put_file (ascii ''/etc/x'') [1] ?w1))" by simp
  moreover have "resolve sample_world (ascii ''/etc/x'') \<noteq> resolve sample_world ?p"
    using r q by (simp add: ascii_def)
  ultimately show ?thesis by (rule version_file_roundtrip [THEN conjunct2])
qed

text \<open>
  The override hash is available exactly when 32 bytes can be read from the file and no more follow;
  the 32-byte result buffer is never overrun.
\<close>

theorem read_secret_hash_spec:
  assumes "length out = 32"
  shows "\<exists>r out'. fota_version_read_downgrade_secret_hash w (Some p) (Some out) = Some (r, Some out') \<and>
    length out' = 32 \<and>
    (r = FOTA_SECRET_HASH_READ_OK \<longleftrightarrow>
       (\<exists>fp. fopen_rb w p = Some fp \<and> length (avail fp) = 32)) \<and>
    (r = FOTA_SECRET_HASH_READ_OK \<longrightarrow> (\<exists>fp. fopen_rb w p = Some fp \<and> out' = avail fp))"
  by (rule read_secret_hash_eq [OF assms])

theorem read_secret_hash_spec_witness:
  "\<exists>r out'. fota_version_read_downgrade_secret_hash sample_world (Some (ascii ''/etc/h'')) (Some (replicate 32 0))
      = Some (r, Some out') \<and> length out' = 32"
  using read_secret_hash_spec [of "replicate 32 0" sample_world "ascii ''/etc/h''"] by auto

text \<open>
  C17. The downgrade decision, exactly: a greater version passes, an equal one is up to date, and a smaller one is
  blocked unless the device has a stored hash, a non-empty secret was given, and SHA-256 of the secret is the
  stored hash.  Greater and smaller are the lexicographic order of the four parts as unsigned 32-bit numbers,
  spelled out by \<open>less_fota_version\<close> above and independent of \<open>fota_version_compare\<close>.
\<close>

theorem downgrade_check_spec:
  assumes "digest_contract C" and "\<forall>h. stored = Some h \<longrightarrow> length h = 32"
    and "\<forall>s. secret = Some s \<longrightarrow> secret_len \<le> length s"
  shows "fota_downgrade_check C new_v installed secret secret_len stored =
    Some (if installed < new_v then FOTA_DOWNGRADE_CHECK_ALLOW
          else if new_v = installed then FOTA_DOWNGRADE_CHECK_UP_TO_DATE
          else if \<exists>h s. stored = Some h \<and> secret = Some s \<and> 0 < secret_len \<and>
                  EVP_Digest C (take secret_len s) EVP_sha256 = (1, h)
          then FOTA_DOWNGRADE_CHECK_ALLOW else FOTA_DOWNGRADE_CHECK_BLOCKED)"
  by (rule downgrade_check_eq [OF assms])

theorem downgrade_check_spec_witness:
  "fota_downgrade_check sample_crypto (Fota_version 1 0 0 0) (Fota_version 2 0 0 0)
     (Some [3, 4]) 2 (Some (replicate 32 7)) = Some FOTA_DOWNGRADE_CHECK_ALLOW"
proof -
  have "EVP_Digest sample_crypto (take 2 [3, 4]) EVP_sha256 = (1, replicate 32 7)"
    by (simp add: sample_crypto_def byte_sum_def)
  moreover have "\<not> Fota_version 2 0 0 0 < Fota_version 1 0 0 0"
    by (simp add: less_fota_version_def)
  ultimately show ?thesis
    using downgrade_check_spec [OF sample_crypto_contracts(3), of "Some (replicate 32 7)" "Some [3, 4]" 2
        "Fota_version 1 0 0 0" "Fota_version 2 0 0 0"] by simp
qed

text \<open>
  Without the override the installed version only grows: in a run of updates each of which the check allowed
  with no stored hash, every later version is greater than every earlier one, so no earlier version ever returns.
\<close>

theorem no_rollback_without_override:
  assumes "\<forall>i. Suc i < length vs \<longrightarrow>
      fota_downgrade_check C (vs ! Suc i) (vs ! i) secret secret_len None = Some FOTA_DOWNGRADE_CHECK_ALLOW"
    and "i < j" and "j < length vs"
  shows "vs ! i < vs ! j"
proof -
  have "\<forall>i. Suc i < length vs \<longrightarrow> fota_version_compare (vs ! Suc i) (vs ! i) > 0"
    using assms(1) by (fastforce simp: fota_downgrade_check_def Let_def split: if_splits)
  from version_order.increasing_chain [OF this assms(2,3)]
  have "fota_version_compare (vs ! i) (vs ! j) < 0"
    using compare_swap [of "vs ! i" "vs ! j"] by simp
  then show ?thesis by (simp add: less_compare)
qed

theorem no_rollback_without_override_witness:
  "Fota_version 1 0 0 0 < Fota_version 1 2 0 0"
proof -
  have "\<forall>i. Suc i < length [Fota_version 1 0 0 0, Fota_version 1 2 0 0] \<longrightarrow>
      fota_downgrade_check sample_crypto ([Fota_version 1 0 0 0, Fota_version 1 2 0 0] ! Suc i)
        ([Fota_version 1 0 0 0, Fota_version 1 2 0 0] ! i) None 0 None = Some FOTA_DOWNGRADE_CHECK_ALLOW"
    by (simp add: fota_downgrade_check_def compare_cases)
  from no_rollback_without_override [OF this, of 0 1] show ?thesis by simp
qed

end
