(* ===== verification/Fota_Installer.thy ===== *)
theory Fota_Installer
  imports Fota_Verify
begin

section \<open>The installer pipeline (installer.c)\<close>

text \<open>
  \<open>ensure_parent_dirs\<close>, \<open>write_entry_file\<close> and \<open>fota_installer_extract\<close> of \<open>consumer/src/installer.c\<close>: decompress,
  parse, verify, and only then write below the install directory.  The lemmas show that a path the parser accepts
  stays below that directory, and relate each write to the entry it comes from.
\<close>

subsection \<open>Paths below the install directory\<close>

definition full_path_size :: nat where "full_path_size = 4096"

text \<open>\<open>snprintf (full_path, sizeof full_path, "%s/%s", install_dir, rel_path)\<close>; \<open>None\<close> when it does not fit.\<close>

definition make_full_path :: "u8 list \<Rightarrow> u8 list \<Rightarrow> u8 list option" where
  "make_full_path install_dir rel_path =
     (let s = install_dir @ [slash] @ rel_path
      in if length s \<ge> full_path_size then None else Some s)"

function strchr_from :: "u8 list \<Rightarrow> u8 \<Rightarrow> nat \<Rightarrow> nat option" where
  "strchr_from s c i =
     (if i < length s then (if s ! i = c then Some i else strchr_from s c (Suc i)) else None)"
  by pat_completeness auto
termination by (relation "measure (\<lambda>(s, c, i). length s - i)") auto

declare strchr_from.simps [simp del]

lemma strchr_from_Some:
  "strchr_from s c i = Some k \<Longrightarrow> i \<le> k \<and> k < length s \<and> s ! k = c"
proof (induction s c i rule: strchr_from.induct)
  case (1 s c i)
  then show ?case
    by (subst (asm) (2) strchr_from.simps) (auto split: if_split_asm dest: Suc_leD)
qed

text \<open>
  The loop of \<open>ensure_parent_dirs\<close>: \<open>mkdir\<close> of every proper prefix that ends before a slash, from \<open>start\<close> on.
  The boolean is the return value 0.
\<close>

function mkdir_loop :: "u8 list \<Rightarrow> nat \<Rightarrow> world \<Rightarrow> bool \<times> world" where
  "mkdir_loop s start w =
     (case strchr_from s slash start of
        None \<Rightarrow> (True, w)
      | Some i \<Rightarrow>
          (case mkdir (take i s) w of
             (r, w1) \<Rightarrow> if r = Mkdir_error then (False, w1) else mkdir_loop s (Suc i) w1))"
  by pat_completeness auto
termination
  by (relation "measure (\<lambda>(s, start, w). length s - start)") (auto dest: strchr_from_Some)

declare mkdir_loop.simps [simp del]

definition ensure_parent_dirs :: "u8 list \<Rightarrow> u8 list \<Rightarrow> world \<Rightarrow> bool \<times> world" where
  "ensure_parent_dirs install_dir rel_path w =
     (case make_full_path install_dir rel_path of
        None \<Rightarrow> (False, w)
      | Some s \<Rightarrow> mkdir_loop s (length install_dir + 1) w)"

definition write_entry_file :: "u8 list \<Rightarrow> u8 list \<Rightarrow> fota_tar_entry \<Rightarrow> world \<Rightarrow> (bool \<times> world) option" where
  "write_entry_file install_dir tar e w =
     (case ensure_parent_dirs install_dir (path e) w of
        (ok, w1) \<Rightarrow>
          if \<not> ok then Some (False, w1)
          else (case make_full_path install_dir (path e) of
             None \<Rightarrow> Some (False, w1)
           | Some s \<Rightarrow>
               (case fopen_wb w1 s of
                  None \<Rightarrow> Some (False, w1)
                | Some (l, w2) \<Rightarrow> do {
                    (written_bytes, w3) \<leftarrow>
                      (if esize e > 0 then map_option (\<lambda>d. fwrite d l w2) (rd_slice tar (data_off e) (esize e))
                       else Some (0, w2));
                    let close_ok = fclose_ok w3 l;
                    Some (written_bytes = esize e \<and> close_ok, w3)
                  })))"

subsection \<open>The pipeline\<close>

definition FOTA_INSTALLER_MAX_DECOMPRESSED_SIZE :: nat where
  "FOTA_INSTALLER_MAX_DECOMPRESSED_SIZE = 512 * 1024 * 1024"

fun install_loop ::
    "u8 list \<Rightarrow> u8 list \<Rightarrow> fota_tar_entry list \<Rightarrow> world \<Rightarrow> (fota_install_result \<times> world) option"
where
  "install_loop install_dir tar [] w = Some (FOTA_INSTALL_OK, w)"
| "install_loop install_dir tar (e # es) w =
     (if etype e \<noteq> FOTA_TAR_ENTRY_FILE then install_loop install_dir tar es w
      else if path e = manifest_name then install_loop install_dir tar es w
      else do {
        (ok, w1) \<leftarrow> write_entry_file install_dir tar e w;
        if \<not> ok then Some (FOTA_INSTALL_ERR_IO, w1) else install_loop install_dir tar es w1
      })"

text \<open>
  The first argument only fixes the width of \<open>size_t\<close>.  The event \<open>Ev_validated\<close> marks the line between
  the checks and the first write.
\<close>

definition fota_installer_extract ::
    "'s::len itself \<Rightarrow> 'z zlib \<Rightarrow> 'h openssl \<Rightarrow> allocator \<Rightarrow> u8 list option \<Rightarrow> nat \<Rightarrow> u8 list option \<Rightarrow>
     world \<Rightarrow> (fota_install_result \<times> world) option"
where
  "fota_installer_extract width Z C alloc tar_gz_data tar_gz_len install_dir w =
     (case install_dir of
        None \<Rightarrow> Some (FOTA_INSTALL_ERR_INVALID_ARG, w)
      | Some dir \<Rightarrow>
          if tar_gz_data = None then Some (FOTA_INSTALL_ERR_INVALID_ARG, w)
          else do {
            g \<leftarrow> fota_gunzip Z alloc tar_gz_data tar_gz_len FOTA_INSTALLER_MAX_DECOMPRESSED_SIZE True;
            (case g of
               Inl e \<Rightarrow> Some (e, w)
             | Inr tar \<Rightarrow> do {
                 p \<leftarrow> fota_tar_parse TYPE('s) alloc (Some tar) (length tar) True;
                 (case p of
                    Inl e \<Rightarrow> Some (e, w)
                  | Inr entries \<Rightarrow> do {
                      v \<leftarrow> fota_verify_manifest C alloc tar (Some entries);
                      if v \<noteq> FOTA_INSTALL_OK then Some (v, w)
                      else install_loop dir tar entries (emit Ev_validated w)
                    })
               })
          })"

subsection \<open>Walking below a directory\<close>

lemma walk_append: "walk ds (xs @ ys) here = Option.bind (walk ds xs here) (walk ds ys)"
  by (induction xs arbitrary: here) auto

lemma walk_mono:
  assumes "\<And>l. ds l \<Longrightarrow> ds' l" and "walk ds cs here = Some l"
  shows "walk ds' cs here = Some l"
  using assms(2) by (induction cs arbitrary: here) (auto split: if_split_asm intro: assms(1))

lemma walk_prefix: "dotdot_comp \<notin> set cs \<Longrightarrow> walk ds cs here = Some l \<Longrightarrow> prefix here l"
proof (induction cs arbitrary: here)
  case (Cons c cs)
  then show ?case
    by (auto split: if_split_asm dest: append_prefixD)
qed simp

text \<open>A location inside an optional root.\<close>

definition inside :: "loc option \<Rightarrow> loc \<Rightarrow> bool" where
  "inside root l \<longleftrightarrow> (\<exists>b. root = Some b \<and> prefix b l)"

lemma resolve_below:
  assumes "d \<noteq> []" and "resolve w (d @ slash # q) = Some l" and "dotdot_comp \<notin> set (split_on slash q)"
  shows "inside (resolve w d) l"
proof -
  obtain b where "resolve w d = Some b" "walk (dirs w) (split_on slash q) b = Some l"
    using assms(1,2) by (auto simp: resolve_def split_on_sep_append walk_append split: Option.bind_split_asm)
  then show ?thesis using walk_prefix [OF assms(3)] by (simp add: inside_def)
qed

lemma resolve_mono:
  assumes "\<And>l. dirs w l \<Longrightarrow> dirs w' l" and "cwd w' = cwd w" and "resolve w p = Some l"
  shows "resolve w' p = Some l"
  using assms walk_mono [OF assms(1)] by (auto simp: resolve_def split: if_split_asm)

subsection \<open>Changes below a root\<close>

text \<open>\<open>w'\<close> comes from \<open>w\<close> by creating directories and writing files inside \<open>root\<close> only.\<close>

definition installs :: "loc option \<Rightarrow> world \<Rightarrow> world \<Rightarrow> bool" where
  "installs root w w' \<longleftrightarrow>
     cwd w' = cwd w \<and> no_read w' = no_read w \<and> no_write w' = no_write w \<and> read_stop w' = read_stop w \<and>
     write_stop w' = write_stop w \<and> close_fails w' = close_fails w \<and> vfs_space w' = vfs_space w \<and>
     (\<forall>l. dirs w l \<longrightarrow> dirs w' l) \<and> (\<forall>l. dirs w' l \<longrightarrow> dirs w l \<or> inside root l) \<and>
     (\<forall>l. files w' l = files w l \<or> inside root l) \<and>
     (\<exists>evs. log w' = log w @ evs \<and>
        (\<forall>e \<in> set evs. \<exists>l. inside root l \<and> (e = Ev_mkdir l \<or> e = Ev_write l)))"

lemma installs_refl [simp]: "installs root w w"
  by (simp add: installs_def)

lemma installs_trans:
  assumes "installs root w1 w2" and "installs root w2 w3"
  shows "installs root w1 w3"
proof -
  obtain e1 e2 where "log w2 = log w1 @ e1" "log w3 = log w2 @ e2"
      "\<forall>e \<in> set (e1 @ e2). \<exists>l. inside root l \<and> (e = Ev_mkdir l \<or> e = Ev_write l)"
    using assms unfolding installs_def by fastforce
  then have "\<exists>evs. log w3 = log w1 @ evs \<and>
      (\<forall>e \<in> set evs. \<exists>l. inside root l \<and> (e = Ev_mkdir l \<or> e = Ev_write l))"
    by (metis append.assoc)
  then show ?thesis using assms unfolding installs_def by metis
qed

lemma installs_resolve:
  assumes "installs root w w'" and "resolve w p = Some l"
  shows "resolve w' p = Some l"
  using assms by (intro resolve_mono [of w w']) (auto simp: installs_def)

lemma installs_root:
  assumes "installs (resolve w d) w w'"
  shows "resolve w' d = resolve w d"
proof (cases "resolve w d")
  case None
  then have "dirs w' = dirs w" "cwd w' = cwd w" using assms by (auto simp: installs_def inside_def)
  then show ?thesis by (rule resolve_dirs_cwd)
next
  case (Some b)
  then show ?thesis using installs_resolve [OF assms Some] by simp
qed

lemma mkdir_installs:
  assumes "mkdir p w = (r, w')" and "\<And>l. resolve w p = Some l \<Longrightarrow> inside root l"
  shows "installs root w w'"
  using assms by (auto simp: mkdir_def installs_def emit_def split: option.split_asm if_split_asm)

lemma mkdir_files: "mkdir p w = (r, w') \<Longrightarrow> files w' = files w"
  by (auto simp: mkdir_def emit_def split: option.split_asm if_split_asm)

text \<open>Each prefix that \<open>mkdir_loop\<close> makes is below the install directory when no component is \<open>..\<close>.\<close>

lemma mkdir_loop_installs:
  assumes "mkdir_loop (d @ slash # q) start w = (ok, w')" and "d \<noteq> []" and "length d < start"
    and "dotdot_comp \<notin> set (split_on slash q)"
  shows "installs (resolve w d) w w' \<and> files w' = files w"
  using assms(1,3)
proof (induction "d @ slash # q" start w arbitrary: ok w' rule: mkdir_loop.induct)
  case (1 start w)
  let ?s = "d @ slash # q"
  show ?case
  proof (cases "strchr_from ?s slash start")
    case None
    then show ?thesis using "1.prems"(1) by (subst (asm) mkdir_loop.simps) simp
  next
    case (Some i)
    then have i: "start \<le> i" "i < length ?s" "?s ! i = slash" using strchr_from_Some by blast+
    define k where "k = i - Suc (length d)"
    have k: "i = Suc (length d + k)" "k < length q" "q ! k = slash"
      using i "1.prems"(2) by (auto simp: k_def nth_append nth_Cons' split: if_split_asm)
    have pre: "take i ?s = d @ slash # take k q" using k(1) by simp
    have "q = take k q @ slash # drop (Suc k) q" using k(2,3) by (metis id_take_nth_drop)
    then have "split_on slash q = split_on slash (take k q) @ split_on slash (drop (Suc k) q)"
      by (metis split_on_sep_append)
    then have safe: "dotdot_comp \<notin> set (split_on slash (take k q))" using assms(4) by simp
    obtain r w1 where m: "mkdir (take i ?s) w = (r, w1)" by fastforce
    have step: "installs (resolve w d) w w1"
      using mkdir_installs [OF m] resolve_below [OF assms(2) _ safe] pre by simp
    note root = installs_root [OF step]
    show ?thesis
    proof (cases "r = Mkdir_error")
      case True
      then show ?thesis using "1.prems"(1) Some m step mkdir_files [OF m]
        by (subst (asm) mkdir_loop.simps) simp
    next
      case False
      then have rest: "mkdir_loop ?s (Suc i) w1 = (ok, w')"
        using "1.prems"(1) Some m by (subst (asm) mkdir_loop.simps) simp
      have "length d < Suc i" using i(1) "1.prems"(2) by simp
      from "1.hyps" [OF Some m [symmetric] False rest this]
      show ?thesis using step root mkdir_files [OF m] installs_trans by metis
    qed
  qed
qed

subsection \<open>Writing one entry\<close>

lemma put_file_installs:
  assumes "put_file p bytes w = (ok, w')" and "\<And>l. resolve w p = Some l \<Longrightarrow> inside root l"
  shows "installs root w w'"
proof -
  have "files w' l = files w l \<or> inside root l" for l
    using put_file_frame [OF assms(1)] assms(2) by metis
  then show ?thesis
    using put_file_dirs [OF assms(1)] put_file_log [OF assms(1)] assms(2) unfolding installs_def by auto
qed

lemma put_file_content:
  assumes "put_file p bytes w = (ok, w')"
  shows "files w' l = files w l \<or> resolve w p = Some l \<and> (\<exists>k. files w' l = Some (take k bytes))"
proof -
  let ?k = "case write_stop w l of None \<Rightarrow> length bytes | Some s \<Rightarrow> min s (length bytes)"
  have "files w' l = files w l \<or> resolve w p = Some l \<and> files w' l = Some (take ?k bytes)"
    using assms by (auto simp: stdio_defs Let_def split: option.split_asm if_split_asm)
  then show ?thesis by blast
qed

lemma write_entry_file_eq:
  assumes "rd_slice tar (data_off e) (esize e) = Some d"
  shows "write_entry_file dir tar e w =
    (case ensure_parent_dirs dir (path e) w of
       (ok, w1) \<Rightarrow>
         if \<not> ok then Some (False, w1)
         else Some (case make_full_path dir (path e) of None \<Rightarrow> (False, w1) | Some s \<Rightarrow> put_file s d w1))"
proof -
  have len: "length d = esize e" using assms by (rule rd_slice_length)
  have zero: "put_file s [] w1 =
      (case fopen_wb w1 s of None \<Rightarrow> (False, w1) | Some (l, w2) \<Rightarrow> (fclose_ok w2 l, w2))" for s w1
    by (auto simp: stdio_defs Let_def min_def fun_upd_idem split: option.split)
  show ?thesis
  proof (cases "esize e = 0")
    case True
    then have "d = []" using len by simp
    then show ?thesis using True
      by (auto simp: write_entry_file_def zero Let_def split: prod.split option.split)
  next
    case False
    then show ?thesis using assms len
      by (auto simp: write_entry_file_def put_file_def Let_def split: prod.split option.split)
  qed
qed

lemma ensure_parent_dirs_installs:
  assumes "ensure_parent_dirs d q w = (ok, w')" and "d \<noteq> []" and "dotdot_comp \<notin> set (split_on slash q)"
  shows "installs (resolve w d) w w' \<and> files w' = files w"
proof (cases "make_full_path d q")
  case None
  then show ?thesis using assms(1) by (simp add: ensure_parent_dirs_def)
next
  case (Some s)
  then have "s = d @ slash # q" by (simp add: make_full_path_def Let_def split: if_split_asm)
  then show ?thesis
    using assms(1) Some mkdir_loop_installs [of d q "length d + 1" w ok w'] assms(2,3)
    by (simp add: ensure_parent_dirs_def)
qed

text \<open>The path an entry is written to.\<close>

abbreviation target :: "u8 list \<Rightarrow> fota_tar_entry \<Rightarrow> u8 list" where
  "target dir e \<equiv> dir @ slash # path e"

lemma write_entry_file_result:
  assumes "rd_slice tar (data_off e) (esize e) = Some d" and "dir \<noteq> []"
    and "dotdot_comp \<notin> set (split_on slash (path e))"
  shows "\<exists>ok w'. write_entry_file dir tar e w = Some (ok, w') \<and> installs (resolve w dir) w w' \<and>
    (\<forall>l. files w' l = files w l \<or>
       resolve w' (target dir e) = Some l \<and> (\<exists>k. files w' l = Some (take k d))) \<and>
    (ok \<longrightarrow> (\<exists>l. resolve w' (target dir e) = Some l \<and> files w' l = Some d \<and>
       (\<forall>l'. l' \<noteq> l \<longrightarrow> files w' l' = files w l')))"
proof -
  obtain ok1 w1 where en: "ensure_parent_dirs dir (path e) w = (ok1, w1)" by fastforce
  have i1: "installs (resolve w dir) w w1" "files w1 = files w"
    using ensure_parent_dirs_installs [OF en assms(2,3)] by simp_all
  show ?thesis
  proof (cases "ok1 \<and> make_full_path dir (path e) \<noteq> None")
    case False
    then show ?thesis using en i1 unfolding write_entry_file_eq [OF assms(1)] by auto
  next
    case True
    then have s: "make_full_path dir (path e) = Some (target dir e)"
      by (auto simp: make_full_path_def Let_def split: if_split_asm)
    obtain ok2 w2 where p: "put_file (target dir e) d w1 = (ok2, w2)" by fastforce
    have "inside (resolve w1 dir) l" if "resolve w1 (target dir e) = Some l" for l
      using resolve_below [OF assms(2) that assms(3)] .
    then have "installs (resolve w1 dir) w1 w2" using put_file_installs [OF p] by blast
    then have i2: "installs (resolve w dir) w w2"
      using installs_trans [OF i1(1)] installs_root [OF i1(1)] by simp
    note r2 = put_file_resolve [OF p, of "target dir e"]
    have ok: "\<exists>l. resolve w2 (target dir e) = Some l \<and> files w2 l = Some d \<and>
        (\<forall>l'. l' \<noteq> l \<longrightarrow> files w2 l' = files w l')" if o: ok2
    proof -
      obtain l where l: "resolve w1 (target dir e) = Some l" "files w2 l = Some d"
        using put_file_stored [of "target dir e" d w1 w2] p o by auto
      then show ?thesis using put_file_frame [OF p] i1(2) r2 by auto
    qed
    then show ?thesis
      using True en s p i2 put_file_content [OF p] i1(2) r2 unfolding write_entry_file_eq [OF assms(1)] by auto
  qed
qed

subsection \<open>Writing all entries\<close>

lemma target_not_Nil: "target dir e \<noteq> []"
  by simp

text \<open>What an entry needs so that it can be written: its data can be read and its path has no component \<open>..\<close>.\<close>

definition writable_entry :: "u8 list \<Rightarrow> fota_tar_entry \<Rightarrow> bool" where
  "writable_entry tar e \<longleftrightarrow>
     rd_slice tar (data_off e) (esize e) = Some (entry_data tar e) \<and> dotdot_comp \<notin> set (split_on slash (path e))"

lemma wf_entries_writable: "wf_entries tar es \<Longrightarrow> e \<in> set es \<Longrightarrow> writable_entry tar e"
  using wf_entries_readable by (auto simp: writable_entry_def wf_entries_def entry_ok_def safe_path_def)

lemma install_loop_skip:
  "\<not> is_payload_file e \<Longrightarrow> install_loop dir tar (e # es) w = install_loop dir tar es w"
  by (auto simp: is_payload_file_def)

lemma install_loop_write:
  "is_payload_file e \<Longrightarrow> write_entry_file dir tar e w = Some (ok, w1) \<Longrightarrow>
    install_loop dir tar (e # es) w =
      (if ok then install_loop dir tar es w1 else Some (FOTA_INSTALL_ERR_IO, w1))"
  by (simp add: is_payload_file_def)

text \<open>Where the content of a location comes from after some writes.\<close>

definition comes_from :: "u8 list \<Rightarrow> u8 list \<Rightarrow> fota_tar_entry list \<Rightarrow> world \<Rightarrow> loc \<Rightarrow> u8 list \<Rightarrow> bool" where
  "comes_from dir tar es w l d \<longleftrightarrow>
     (\<exists>e \<in> set es. is_payload_file e \<and> resolve w (target dir e) = Some l \<and> d = entry_data tar e)"

lemma comes_from_installs:
  "installs root w w' \<Longrightarrow> comes_from dir tar es w l d \<Longrightarrow> set es \<subseteq> set es' \<Longrightarrow> comes_from dir tar es' w' l d"
  using installs_resolve unfolding comes_from_def by blast

definition partly_written :: "u8 list \<Rightarrow> u8 list \<Rightarrow> fota_tar_entry list \<Rightarrow> world \<Rightarrow> world \<Rightarrow> bool" where
  "partly_written dir tar es w w' \<longleftrightarrow>
     (\<forall>l. files w' l = files w l \<or> (\<exists>d k. comes_from dir tar es w' l d \<and> files w' l = Some (take k d)))"

definition fully_written :: "u8 list \<Rightarrow> u8 list \<Rightarrow> fota_tar_entry list \<Rightarrow> world \<Rightarrow> world \<Rightarrow> bool" where
  "fully_written dir tar es w w' \<longleftrightarrow>
     (\<forall>l. files w' l = files w l \<or> (\<exists>d. comes_from dir tar es w' l d \<and> files w' l = Some d))"

lemma fully_partly: "fully_written dir tar es w w' \<Longrightarrow> partly_written dir tar es w w'"
proof -
  assume f: "fully_written dir tar es w w'"
  have "take (length d) d = d" for d :: "u8 list" by simp
  then show ?thesis using f unfolding fully_written_def partly_written_def by metis
qed

lemma comes_from_Cons: "comes_from dir tar es w l d \<Longrightarrow> comes_from dir tar (e # es) w l d"
  by (rule comes_from_installs [OF installs_refl]) auto

lemma written_Cons:
  assumes "fully_written dir tar [e] w w1" and "installs root w1 w'"
  shows "partly_written dir tar es w1 w' \<Longrightarrow> partly_written dir tar (e # es) w w'"
    and "fully_written dir tar es w1 w' \<Longrightarrow> fully_written dir tar (e # es) w w'"
proof -
  have first: "files w1 l = files w l \<or> (\<exists>d. comes_from dir tar (e # es) w' l d \<and> files w1 l = Some d)" for l
    using assms(1) comes_from_installs [OF assms(2), of dir tar "[e]" l _ "e # es"]
    unfolding fully_written_def by fastforce
  then have first': "files w1 l = files w l \<or> (\<exists>d k. comes_from dir tar (e # es) w' l d \<and> files w1 l = Some (take k d))" for l
    by (metis order_refl take_all)
  show "partly_written dir tar es w1 w' \<Longrightarrow> partly_written dir tar (e # es) w w'"
    unfolding partly_written_def using first' comes_from_Cons by metis
  show "fully_written dir tar es w1 w' \<Longrightarrow> fully_written dir tar (e # es) w w'"
    unfolding fully_written_def using first comes_from_Cons by metis
qed

lemma install_loop_result:
  assumes "\<forall>e \<in> set es. writable_entry tar e" and "dir \<noteq> []"
  shows "\<exists>r w'. install_loop dir tar es w = Some (r, w') \<and> (r = FOTA_INSTALL_OK \<or> r = FOTA_INSTALL_ERR_IO) \<and>
    installs (resolve w dir) w w' \<and> partly_written dir tar es w w' \<and>
    (r = FOTA_INSTALL_OK \<longrightarrow> fully_written dir tar es w w')"
  using assms(1)
proof (induction es arbitrary: w)
  case Nil
  then show ?case by (simp add: partly_written_def fully_written_def)
next
  case (Cons e es)
  have tl: "\<forall>e \<in> set es. writable_entry tar e" using Cons.prems by simp
  show ?case
  proof (cases "is_payload_file e")
    case False
    from Cons.IH [OF tl, of w] obtain r w' where lp: "install_loop dir tar es w = Some (r, w')"
        "r = FOTA_INSTALL_OK \<or> r = FOTA_INSTALL_ERR_IO" "installs (resolve w dir) w w'"
        "partly_written dir tar es w w'" "r = FOTA_INSTALL_OK \<longrightarrow> fully_written dir tar es w w'" by blast
    have "partly_written dir tar (e # es) w w'" "r = FOTA_INSTALL_OK \<longrightarrow> fully_written dir tar (e # es) w w'"
      using lp(4,5) comes_from_Cons unfolding partly_written_def fully_written_def by metis+
    then show ?thesis using install_loop_skip [OF False] lp by simp
  next
    case True
    have we: "rd_slice tar (data_off e) (esize e) = Some (entry_data tar e)"
        "dotdot_comp \<notin> set (split_on slash (path e))"
      using Cons.prems by (simp_all add: writable_entry_def)
    from write_entry_file_result [OF we(1) assms(2) we(2), of w]
    obtain ok w1 where wr: "write_entry_file dir tar e w = Some (ok, w1)"
        and i1: "installs (resolve w dir) w w1"
        and part: "\<forall>l. files w1 l = files w l \<or>
          resolve w1 (target dir e) = Some l \<and> (\<exists>k. files w1 l = Some (take k (entry_data tar e)))"
        and full: "ok \<longrightarrow> (\<exists>l. resolve w1 (target dir e) = Some l \<and> files w1 l = Some (entry_data tar e) \<and>
          (\<forall>l'. l' \<noteq> l \<longrightarrow> files w1 l' = files w l'))"
      by blast
    have here: "comes_from dir tar (e # es') w1 l (entry_data tar e)"
      if "resolve w1 (target dir e) = Some l" for l es'
      using that True by (simp add: comes_from_def)
    show ?thesis
    proof (cases ok)
      case False
      have "partly_written dir tar (e # es) w w1"
        unfolding partly_written_def using part here by blast
      then show ?thesis using install_loop_write [OF True wr] False i1 by simp
    next
      case ok: True
      from Cons.IH [OF tl, of w1] obtain r w' where lp: "install_loop dir tar es w1 = Some (r, w')"
          "r = FOTA_INSTALL_OK \<or> r = FOTA_INSTALL_ERR_IO" "installs (resolve w1 dir) w1 w'"
          "partly_written dir tar es w1 w'" "r = FOTA_INSTALL_OK \<longrightarrow> fully_written dir tar es w1 w'" by blast
      have i: "installs (resolve w dir) w w'"
        using installs_trans [OF i1] lp(3) installs_root [OF i1] by simp
      have "fully_written dir tar [e] w w1"
        unfolding fully_written_def using full ok here by metis
      note both = written_Cons [OF this lp(3), of es]
      show ?thesis using install_loop_write [OF True wr, of es] ok lp i both by simp
    qed
  qed
qed

end
