(* ===== verification/Fota_Installer_Props.thy ===== *)
theory Fota_Installer_Props
  imports Fota_Installer Fota_Package
begin

section \<open>Properties of the installer\<close>

text \<open>
  \<open>fota_installer_extract\<close> as a whole: it returns, it fails closed, it writes only below the install directory and
  only bytes of an accepted archive, and on success every file of the archive is in place.
\<close>

subsection \<open>Every file is in place\<close>

definition all_placed :: "u8 list \<Rightarrow> u8 list \<Rightarrow> fota_tar_entry list \<Rightarrow> world \<Rightarrow> bool" where
  "all_placed dir tar es w \<longleftrightarrow>
     (\<forall>e \<in> set es. is_payload_file e \<longrightarrow>
        (\<exists>l d. resolve w (target dir e) = Some l \<and> files w l = Some d \<and> comes_from dir tar es w l d))"

text \<open>
  Several paths of an archive can lead to the same place (\<open>a\<close> and \<open>./a\<close>).  \<open>writers\<close> are the entries that were written to
  \<open>l\<close>, in archive order: the last of them decides the content, and a place that none of them reaches is left alone.
\<close>

abbreviation writers :: "u8 list \<Rightarrow> world \<Rightarrow> fota_tar_entry list \<Rightarrow> loc \<Rightarrow> fota_tar_entry list" where
  "writers dir w es l \<equiv> filter (\<lambda>e. is_payload_file e \<and> resolve w (target dir e) = Some l) es"

definition last_written :: "u8 list \<Rightarrow> u8 list \<Rightarrow> fota_tar_entry list \<Rightarrow> world \<Rightarrow> world \<Rightarrow> bool" where
  "last_written dir tar es w w' \<longleftrightarrow>
     (\<forall>e \<in> set es. is_payload_file e \<longrightarrow> (\<exists>l. resolve w' (target dir e) = Some l)) \<and>
     (\<forall>l. files w' l =
        (if writers dir w' es l = [] then files w l else Some (entry_data tar (last (writers dir w' es l)))))"

lemma install_loop_last:
  assumes "\<forall>e \<in> set es. writable_entry tar e" and "dir \<noteq> []"
    and "install_loop dir tar es w = Some (FOTA_INSTALL_OK, w')"
  shows "last_written dir tar es w w'"
  using assms(1,3)
proof (induction es arbitrary: w)
  case (Cons e es)
  have tl: "\<forall>e \<in> set es. writable_entry tar e" using Cons.prems(1) by simp
  show ?case
  proof (cases "is_payload_file e")
    case False
    then have "last_written dir tar es w w'" using Cons.IH [OF tl] Cons.prems(2) install_loop_skip by metis
    then show ?thesis using False by (simp add: last_written_def)
  next
    case True
    have we: "rd_slice tar (data_off e) (esize e) = Some (entry_data tar e)"
        "dotdot_comp \<notin> set (split_on slash (path e))"
      using Cons.prems(1) by (simp_all add: writable_entry_def)
    from write_entry_file_result [OF we(1) assms(2) we(2), of w]
    obtain ok w1 where wr: "write_entry_file dir tar e w = Some (ok, w1)"
        and full: "ok \<longrightarrow> (\<exists>l. resolve w1 (target dir e) = Some l \<and> files w1 l = Some (entry_data tar e) \<and>
          (\<forall>l'. l' \<noteq> l \<longrightarrow> files w1 l' = files w l'))" by blast
    have ok: ok and rest: "install_loop dir tar es w1 = Some (FOTA_INSTALL_OK, w')"
      using Cons.prems(2) install_loop_write [OF True wr, of es] by (auto split: if_split_asm)
    then obtain l where l: "resolve w1 (target dir e) = Some l" "files w1 l = Some (entry_data tar e)"
        "\<forall>l'. l' \<noteq> l \<longrightarrow> files w1 l' = files w l'"
      using full by blast
    have "installs (resolve w1 dir) w1 w'" using install_loop_result [OF tl assms(2), of w1] rest by auto
    from installs_resolve [OF this l(1)] have l': "resolve w' (target dir e) = Some l" .
    have "last_written dir tar es w1 w'" using Cons.IH [OF tl rest] .
    then show ?thesis using True l' l(2,3) by (auto simp: last_written_def)
  qed
qed (simp add: last_written_def)

lemma last_writer:
  assumes "writers dir w es l \<noteq> []"
  shows "last (writers dir w es l) \<in> set es" "is_payload_file (last (writers dir w es l))"
    "resolve w (target dir (last (writers dir w es l))) = Some l"
  using last_in_set [OF assms] by auto

lemma last_written_placed:
  assumes "last_written dir tar es w w'" shows "all_placed dir tar es w'"
  unfolding all_placed_def
proof (intro ballI impI)
  fix e assume e: "e \<in> set es" "is_payload_file e"
  then obtain l where l: "resolve w' (target dir e) = Some l" using assms unfolding last_written_def by blast
  then have ne: "writers dir w' es l \<noteq> []" using e by (auto simp: filter_empty_conv)
  then have "files w' l = Some (entry_data tar (last (writers dir w' es l)))"
    using assms by (simp add: last_written_def)
  moreover have "comes_from dir tar es w' l (entry_data tar (last (writers dir w' es l)))"
    using last_writer [OF ne] unfolding comes_from_def by blast
  ultimately show "\<exists>l d. resolve w' (target dir e) = Some l \<and> files w' l = Some d \<and> comes_from dir tar es w' l d"
    using l by blast
qed

lemma last_written_at:
  assumes "last_written dir tar es w w'"
  shows "\<forall>e \<in> set es. is_payload_file e \<longrightarrow> (\<exists>l. resolve w' (target dir e) = Some l \<and>
      files w' l = Some (entry_data tar (last (writers dir w' es l))))"
    and "\<forall>e \<in> set es. is_payload_file e \<and>
       (\<forall>e' \<in> set es. is_payload_file e' \<and> resolve w' (target dir e') = resolve w' (target dir e) \<longrightarrow> e' = e) \<longrightarrow>
       (\<exists>l. resolve w' (target dir e) = Some l \<and> files w' l = Some (entry_data tar e))"
    and "\<forall>l. (\<forall>e \<in> set es. is_payload_file e \<longrightarrow> resolve w' (target dir e) \<noteq> Some l) \<longrightarrow> files w' l = files w l"
proof -
  show 1: "\<forall>e \<in> set es. is_payload_file e \<longrightarrow> (\<exists>l. resolve w' (target dir e) = Some l \<and>
      files w' l = Some (entry_data tar (last (writers dir w' es l))))"
  proof (intro ballI impI)
    fix e assume e: "e \<in> set es" "is_payload_file e"
    then obtain l where l: "resolve w' (target dir e) = Some l" using assms unfolding last_written_def by blast
    then have "writers dir w' es l \<noteq> []" using e by (auto simp: filter_empty_conv)
    then show "\<exists>l. resolve w' (target dir e) = Some l \<and>
        files w' l = Some (entry_data tar (last (writers dir w' es l)))"
      using assms l by (simp add: last_written_def)
  qed
  show "\<forall>e \<in> set es. is_payload_file e \<and>
       (\<forall>e' \<in> set es. is_payload_file e' \<and> resolve w' (target dir e') = resolve w' (target dir e) \<longrightarrow> e' = e) \<longrightarrow>
       (\<exists>l. resolve w' (target dir e) = Some l \<and> files w' l = Some (entry_data tar e))"
  proof (intro ballI impI, elim conjE)
    fix e assume e: "e \<in> set es" "is_payload_file e"
      and only: "\<forall>e' \<in> set es. is_payload_file e' \<and> resolve w' (target dir e') = resolve w' (target dir e) \<longrightarrow> e' = e"
    obtain l where l: "resolve w' (target dir e) = Some l"
        "files w' l = Some (entry_data tar (last (writers dir w' es l)))"
      using 1 e by blast
    define x where "x = last (writers dir w' es l)"
    have "writers dir w' es l \<noteq> []" using e l(1) by (auto simp: filter_empty_conv)
    note x = last_writer [OF this, folded x_def]
    have "x = e" using only [rule_format, OF x(1)] x(2,3) l(1) by simp
    then have "last (writers dir w' es l) = e" by (simp only: x_def)
    then show "\<exists>l. resolve w' (target dir e) = Some l \<and> files w' l = Some (entry_data tar e)" using l by auto
  qed
  show "\<forall>l. (\<forall>e \<in> set es. is_payload_file e \<longrightarrow> resolve w' (target dir e) \<noteq> Some l) \<longrightarrow> files w' l = files w l"
    using assms by (auto simp: last_written_def filter_empty_conv)
qed

subsection \<open>The outcomes of the pipeline\<close>

definition archive_accepted ::
    "'s::len itself \<Rightarrow> 'z zlib \<Rightarrow> 'h openssl \<Rightarrow> allocator \<Rightarrow> u8 list \<Rightarrow> nat \<Rightarrow> u8 list \<Rightarrow> fota_tar_entry list \<Rightarrow> bool"
where
  "archive_accepted width Z C alloc gz gz_len tar es \<longleftrightarrow>
     fota_gunzip Z alloc (Some gz) gz_len FOTA_INSTALLER_MAX_DECOMPRESSED_SIZE True = Some (Inr tar) \<and>
     fota_tar_parse TYPE('s) alloc (Some tar) (length tar) True = Some (Inr es) \<and>
     fota_verify_manifest C alloc tar (Some es) = Some FOTA_INSTALL_OK"

definition extracted :: "u8 list \<Rightarrow> u8 list \<Rightarrow> fota_tar_entry list \<Rightarrow> fota_install_result \<Rightarrow> world \<Rightarrow> world \<Rightarrow> bool" where
  "extracted dir tar es r w w' \<longleftrightarrow>
     (r = FOTA_INSTALL_OK \<or> r = FOTA_INSTALL_ERR_IO) \<and>
     installs (resolve w dir) (emit Ev_validated w) w' \<and> partly_written dir tar es w w' \<and>
     (r = FOTA_INSTALL_OK \<longrightarrow>
        fully_written dir tar es w w' \<and> all_placed dir tar es w' \<and> last_written dir tar es w w')"

definition gunzip_error :: "fota_install_result \<Rightarrow> bool" where
  "gunzip_error r \<longleftrightarrow>
     r \<in> {FOTA_INSTALL_ERR_INVALID_ARG, FOTA_INSTALL_ERR_DECOMPRESSED_TOO_LARGE, FOTA_INSTALL_ERR_DECOMPRESS_FAILED}"

definition tar_error :: "fota_install_result \<Rightarrow> bool" where
  "tar_error r \<longleftrightarrow>
     r \<in> {FOTA_INSTALL_ERR_MALFORMED_TAR, FOTA_INSTALL_ERR_UNSUPPORTED_ENTRY, FOTA_INSTALL_ERR_UNSAFE_PATH,
          FOTA_INSTALL_ERR_IO}"

lemma header_spec_error: "header_spec h = Inl e \<Longrightarrow> tar_error e"
  by (auto simp: header_spec_def tar_error_def split: if_split_asm option.split_asm)

lemma tar_items_error: "tar_items d off = Inl e \<Longrightarrow> tar_error e"
proof (induction d off arbitrary: e rule: tar_items.induct)
  case (1 d off)
  note items = tar_items.simps [of d off]
  show ?case
  proof (cases "length d < off + 512 \<or> all_zero (field off 512 d)")
    case True
    then show ?thesis using "1.prems" unfolding items by (auto simp: tar_error_def split: if_split_asm)
  next
    case False
    then have room: "\<not> length d < off + 512" "\<not> all_zero (field off 512 d)" by simp_all
    show ?thesis
    proof (cases "header_spec (field off 512 d)")
      case (Inl e')
      then show ?thesis using "1.prems" room header_spec_error unfolding items by simp
    next
      case (Inr x)
      then obtain name ty n where hs: "header_spec (field off 512 d) = Inr (name, ty, n)" by (cases x) simp
      show ?thesis
      proof (cases "length d < off + member_span n")
        case True
        then show ?thesis using "1.prems" room hs unfolding items by (simp add: tar_error_def)
      next
        case fits: False
        note IH = "1.IH" [OF room hs refl refl fits]
        show ?thesis
          using "1.prems" IH room hs fits unfolding items
          by (cases "tar_items d (off + member_span n)") simp_all
      qed
    qed
  qed
qed

lemma partly_written_emit: "partly_written dir tar es (emit e w) w' = partly_written dir tar es w w'"
  by (simp add: partly_written_def emit_def)

lemma fully_written_emit: "fully_written dir tar es (emit e w) w' = fully_written dir tar es w w'"
  by (simp add: fully_written_def emit_def)

lemma last_written_emit: "last_written dir tar es (emit e w) w' = last_written dir tar es w w'"
  by (simp add: last_written_def emit_def)

lemma extract_cases:
  assumes Z: "zlib_contract Z" and C: "digest_contract C" and W: "36 < LENGTH('s)"
    and gz: "gz_len \<le> length gz" and dir: "dir \<noteq> []"
  obtains (rejected) r
      where "fota_installer_extract TYPE('s::len) Z C alloc (Some gz) gz_len (Some dir) w = Some (r, w)"
        "gunzip_error r \<or> tar_error r \<or> manifest_error r"
        "\<nexists>tar es. archive_accepted TYPE('s) Z C alloc gz gz_len tar es"
    | (accepted) r w' tar es
      where "fota_installer_extract TYPE('s) Z C alloc (Some gz) gz_len (Some dir) w = Some (r, w')"
        "archive_accepted TYPE('s) Z C alloc gz gz_len tar es" "wf_entries tar es" "manifest_agrees C tar es"
        "extracted dir tar es r w w'"
proof -
  let ?ex = "fota_installer_extract TYPE('s) Z C alloc (Some gz) gz_len (Some dir) w"
  obtain g where g: "fota_gunzip Z alloc (Some gz) gz_len FOTA_INSTALLER_MAX_DECOMPRESSED_SIZE True = Some g"
      "case g of Inr out \<Rightarrow> length out \<le> FOTA_INSTALLER_MAX_DECOMPRESSED_SIZE \<and>
          inflates Z (snd (inflateInit2 Z (16 + MAX_WBITS))) (take (gz_len mod 2 ^ 32) gz) out
        | Inl e \<Rightarrow> e \<in> {FOTA_INSTALL_ERR_INVALID_ARG, FOTA_INSTALL_ERR_DECOMPRESSED_TOO_LARGE,
                     FOTA_INSTALL_ERR_DECOMPRESS_FAILED}"
    by (rule gunzip_cases [OF Z gz])
  show thesis
  proof (cases g)
    case (Inl e)
    have "?ex = Some (e, w)" using g(1) Inl by (simp add: fota_installer_extract_def)
    moreover have "gunzip_error e" using g(2) Inl by (simp add: gunzip_error_def)
    moreover have "\<nexists>tar es. archive_accepted TYPE('s) Z C alloc gz gz_len tar es"
      using g(1) Inl by (simp add: archive_accepted_def)
    ultimately show ?thesis using rejected by blast
  next
    case (Inr tar)
    have "length tar \<le> 2 ^ 29" using g(2) Inr by (simp add: FOTA_INSTALLER_MAX_DECOMPRESSED_SIZE_def)
    also have "(2 :: nat) ^ 29 < 2 ^ LENGTH('s)" using W by (intro power_strict_increasing) simp_all
    finally have fits: "36 < LENGTH('s) \<and> length tar < 2 ^ LENGTH('s)" using W by simp
    then obtain p where p: "fota_tar_parse TYPE('s) alloc (Some tar) (length tar) True = Some p"
      using tar.returns [where 's = 's] by blast
    show ?thesis
    proof (cases p)
      case (Inl e)
      have "tar_error e"
        using fota_tar_parse_cases [of tar alloc, where 's = 's] fits p Inl tar_items_error [of tar 0 e]
        by (auto simp: tar_error_def)
      moreover have "?ex = Some (e, w)" using g(1) Inr p Inl by (simp add: fota_installer_extract_def)
      moreover have "\<nexists>tar es. archive_accepted TYPE('s) Z C alloc gz gz_len tar es"
        using g(1) Inr p Inl by (simp add: archive_accepted_def)
      ultimately show ?thesis using rejected by blast
    next
      case es: (Inr es)
      have wf: "wf_entries tar es" using tar.accepted [where 's = 's, OF fits] p es by simp
      obtain v where v: "fota_verify_manifest C alloc tar (Some es) = Some v"
          "v = FOTA_INSTALL_OK \<longrightarrow> manifest_agrees C tar es" "v \<noteq> FOTA_INSTALL_OK \<longrightarrow> manifest_error v"
        using verify_manifest_cases [OF wf C, of alloc] by blast
      show ?thesis
      proof (cases "v = FOTA_INSTALL_OK")
        case False
        then have "?ex = Some (v, w)" using g(1) Inr p es v by (simp add: fota_installer_extract_def)
        moreover have "\<nexists>tar es. archive_accepted TYPE('s) Z C alloc gz gz_len tar es"
          using g(1) Inr p es v False by (simp add: archive_accepted_def)
        ultimately show ?thesis using rejected v(3) False by blast
      next
        case True
        have wr: "\<forall>e \<in> set es. writable_entry tar e" using wf_entries_writable [OF wf] by blast
        from install_loop_result [OF wr dir, of "emit Ev_validated w"]
        obtain r w' where lp: "install_loop dir tar es (emit Ev_validated w) = Some (r, w')"
            "r = FOTA_INSTALL_OK \<or> r = FOTA_INSTALL_ERR_IO"
            "installs (resolve w dir) (emit Ev_validated w) w'" "partly_written dir tar es w w'"
            "r = FOTA_INSTALL_OK \<longrightarrow> fully_written dir tar es w w'"
          unfolding partly_written_emit fully_written_emit resolve_emit by blast
        have "?ex = Some (r, w')" using g(1) Inr p es v True lp by (simp add: fota_installer_extract_def)
        moreover have "archive_accepted TYPE('s) Z C alloc gz gz_len tar es"
          using g(1) Inr p es v True by (simp add: archive_accepted_def)
        moreover have "extracted dir tar es r w w'"
          using lp install_loop_last [OF wr dir, of "emit Ev_validated w" w', unfolded last_written_emit]
            last_written_placed unfolding extracted_def by blast
        ultimately show ?thesis using accepted wf v(2) True by blast
      qed
    qed
  qed
qed

subsection \<open>A package to evaluate on\<close>

text \<open>\<open>sample_zlib\<close> copies its input, so the archive stands for its own compressed form.\<close>

lemma sample_gunzip:
  assumes "0 < length gz" and "length gz \<le> 65536"
  shows "fota_gunzip sample_zlib unlimited (Some gz) (length gz) FOTA_INSTALLER_MAX_DECOMPRESSED_SIZE True =
    Some (Inr gz)"
proof -
  have "unat (of_nat (length gz) :: u32) = length gz" "unat (of_nat 65536 :: u32) = 65536"
    using assms(2) by (simp_all add: unat_of_nat take_bit_nat_eq_self)
  moreover have "gunzip_loop sample_zlib unlimited 536870912 () gz [] 65536 = Some (Inr gz)"
    using assms by (subst gunzip_loop.simps) (simp add: gunzip_grow_def gunzip_inflate_def sample_zlib_def z_codes)
  moreover have "inflateInit2 sample_zlib k = (Z_OK, ())" for k by (simp add: sample_zlib_def)
  moreover have "rd_slice gz 0 (length gz) = Some gz" by (simp add: rd_slice_def)
  ultimately show ?thesis
    using assms by (simp add: fota_gunzip_def FOTA_INSTALLER_MAX_DECOMPRESSED_SIZE_def FOTA_GUNZIP_CHUNK_def)
qed

definition install_world :: world where
  "install_world =
     \<lparr>cwd = [], dirs = (\<lambda>l. l = [] \<or> l = [ascii ''d'']), files = (\<lambda>_. None), no_read = (\<lambda>_. False),
      no_write = (\<lambda>_. False), read_stop = (\<lambda>_. None), write_stop = (\<lambda>_. None),
      close_fails = (\<lambda>_. False), vfs_space = (\<lambda>_. None), log = []\<rparr>"

lemma sample_accepted:
  "\<exists>es. archive_accepted TYPE(64) sample_zlib sha256_sample unlimited sample_archive (length sample_archive)
     sample_archive es \<and> map (\<lambda>e. (path e, entry_data sample_archive e)) (filter is_payload_file es) = [(ascii ''a'', [])] \<and>
     manifest_of sample_archive es = Some [\<lparr>mf_path = ascii ''a'', mf_sha256_hex = hex_text (sample_hash [])\<rparr>]"
proof -
  have "0 < length sample_archive" by (simp add: sample_archive_def tar_image_def)
  moreover have "length sample_archive \<le> 65536" using sample_archive_facts(5) by simp
  ultimately show ?thesis
    using sample_gunzip [of sample_archive] sample_archive_accepted by (auto simp: archive_accepted_def)
qed

lemmas sample_contracts = sample_zlib_contract sha256_sample_digest(1)

lemma sample_dir: "resolve install_world (ascii ''/d'') = Some [ascii ''d'']"
  by (simp add: resolve_def install_world_def ascii_def)

subsection \<open>Properties\<close>

text \<open>
  C24. Memory safety and termination of the whole pipeline: with a \<open>size_t\<close> of more than 36 bits, for every package,
  every file system and every pattern of failures, \<open>fota_installer_extract\<close> returns without an access
  outside a buffer, with a result code of the installer.
\<close>

theorem extract_returns:
  assumes "zlib_contract Z" and "digest_contract C" and "36 < LENGTH('s)"
    and "gz_len \<le> length gz" and "dir \<noteq> []"
  shows "\<exists>r w'. fota_installer_extract TYPE('s::len) Z C alloc (Some gz) gz_len (Some dir) w = Some (r, w')"
  by (rule extract_cases [OF assms, where alloc = alloc and w = w]) (intro exI, assumption)+

theorem extract_returns_witness:
  "\<exists>r w'. fota_installer_extract TYPE(64) sample_zlib sha256_sample unlimited (Some [1, 2, 3]) 2
     (Some (ascii ''/d'')) install_world = Some (r, w')"
  by (rule extract_returns [OF sample_contracts]) (simp_all add: ascii_def)

text \<open>
  C9. Fail closed: unless decompression, tar parsing and manifest verification all succeed, the file system is exactly
  what it was before, and the result is an error.
\<close>

theorem extract_fails_closed:
  assumes "zlib_contract Z" and "digest_contract C" and "36 < LENGTH('s)"
    and "gz_len \<le> length gz" and "dir \<noteq> []"
    and "fota_installer_extract TYPE('s::len) Z C alloc (Some gz) gz_len (Some dir) w = Some (r, w')"
    and "\<nexists>tar es. fota_gunzip Z alloc (Some gz) gz_len (512 * 1024 * 1024) True = Some (Inr tar) \<and>
       fota_tar_parse TYPE('s) alloc (Some tar) (length tar) True = Some (Inr es) \<and>
       fota_verify_manifest C alloc tar (Some es) = Some FOTA_INSTALL_OK"
  shows "w' = w \<and> r \<noteq> FOTA_INSTALL_OK"
proof -
  have no: "\<nexists>tar es. archive_accepted TYPE('s) Z C alloc gz gz_len tar es"
    using assms(7) by (simp add: archive_accepted_def FOTA_INSTALLER_MAX_DECOMPRESSED_SIZE_def)
  show ?thesis
    by (rule extract_cases [OF assms(1-5), where alloc = alloc and w = w])
       (use no assms(6) in \<open>auto simp: gunzip_error_def tar_error_def manifest_error_def\<close>)
qed

theorem extract_fails_closed_witness:
  "fota_installer_extract TYPE(64) sample_zlib sha256_sample unlimited (Some [1]) 1
     (Some (ascii ''/d'')) install_world = Some (FOTA_INSTALL_ERR_MALFORMED_TAR, install_world)"
proof -
  have g: "fota_gunzip sample_zlib unlimited (Some [1]) 1 FOTA_INSTALLER_MAX_DECOMPRESSED_SIZE True = Some (Inr [1])"
    using sample_gunzip [of "[1]"] by simp
  have p: "fota_tar_parse TYPE(64) unlimited (Some [1]) 1 True = Some (Inl FOTA_INSTALL_ERR_MALFORMED_TAR)"
    by (simp add: fota_tar_parse_def tar_loop.simps tar_sizes)
  have ex: "fota_installer_extract TYPE(64) sample_zlib sha256_sample unlimited (Some [1]) 1
     (Some (ascii ''/d'')) install_world = Some (FOTA_INSTALL_ERR_MALFORMED_TAR, install_world)"
    using g p by (simp add: fota_installer_extract_def)
  have "install_world = install_world \<and> FOTA_INSTALL_ERR_MALFORMED_TAR \<noteq> FOTA_INSTALL_OK"
    by (rule extract_fails_closed [OF sample_contracts _ _ _ ex])
       (use g p in \<open>auto simp: ascii_def FOTA_INSTALLER_MAX_DECOMPRESSED_SIZE_def\<close>)
  then show ?thesis using ex by simp
qed

text \<open>
  C10. Containment: whatever the package holds, extraction creates directories and writes files only at or below the
  install directory; everything else keeps its content, and no write happens before the archive was
  validated.
\<close>

theorem extract_contained:
  assumes "zlib_contract Z" and "digest_contract C" and "36 < LENGTH('s)"
    and "gz_len \<le> length gz" and "dir \<noteq> []"
    and "fota_installer_extract TYPE('s::len) Z C alloc (Some gz) gz_len (Some dir) w = Some (r, w')"
  shows "(\<forall>l. files w' l \<noteq> files w l \<or> dirs w' l \<noteq> dirs w l \<longrightarrow>
      (\<exists>root. resolve w dir = Some root \<and> prefix root l)) \<and>
    (log w' = log w \<or>
     (\<exists>evs. log w' = log w @ Ev_validated # evs \<and>
        (\<forall>e \<in> set evs. \<exists>root l. resolve w dir = Some root \<and> prefix root l \<and> (e = Ev_mkdir l \<or> e = Ev_write l))))"
proof (rule extract_cases [OF assms(1-5), where alloc = alloc and w = w])
  fix r2 w2 tar es
  assume "fota_installer_extract TYPE('s) Z C alloc (Some gz) gz_len (Some dir) w = Some (r2, w2)"
    and "extracted dir tar es r2 w w2"
  then have "installs (resolve w dir) (emit Ev_validated w) w'" using assms(6) by (simp add: extracted_def)
  then show ?thesis unfolding installs_def inside_def emit_def by fastforce
qed (use assms(6) in simp)

theorem extract_contained_witness:
  "\<exists>r w'. fota_installer_extract TYPE(64) sample_zlib sha256_sample unlimited (Some sample_archive)
       (length sample_archive) (Some (ascii ''/d'')) install_world = Some (r, w') \<and>
     (\<forall>l. files w' l \<noteq> None \<longrightarrow> prefix [ascii ''d''] l)"
proof -
  obtain r w' where ex: "fota_installer_extract TYPE(64) sample_zlib sha256_sample unlimited (Some sample_archive)
       (length sample_archive) (Some (ascii ''/d'')) install_world = Some (r, w')"
    by (rule extract_cases [OF sample_contracts, where 's = 64 and gz = sample_archive
          and gz_len = "length sample_archive" and dir = "ascii ''/d''"]) (auto simp: ascii_def)
  have "36 < LENGTH(64)" "ascii ''/d'' \<noteq> []" by (simp_all add: ascii_def)
  from extract_contained [OF sample_contracts this(1) order_refl this(2) ex] ex sample_dir
  show ?thesis by (auto simp: install_world_def)
qed

text \<open>
  C25. A successful extraction installs the archive, exactly: the path of every file of the accepted archive other than
  the manifest leads to a place below the install directory; each such place holds the bytes of the last file of
  the archive whose path leads there, so a file whose place no other file shares is there with its own bytes; and
  no other place changed.
\<close>

theorem extract_installs:
  assumes "zlib_contract Z" and "digest_contract C" and "36 < LENGTH('s)"
    and "gz_len \<le> length gz" and "dir \<noteq> []"
    and "fota_installer_extract TYPE('s::len) Z C alloc (Some gz) gz_len (Some dir) w = Some (FOTA_INSTALL_OK, w')"
  shows "\<exists>tar es. archive_accepted TYPE('s) Z C alloc gz gz_len tar es \<and>
    (\<forall>e \<in> set es. etype e = FOTA_TAR_ENTRY_FILE \<and> path e \<noteq> manifest_name \<longrightarrow>
       (\<exists>l. resolve w' (dir @ slash # path e) = Some l \<and>
          files w' l = Some (entry_data tar (last (filter (\<lambda>e'. etype e' = FOTA_TAR_ENTRY_FILE \<and>
            path e' \<noteq> manifest_name \<and> resolve w' (dir @ slash # path e') = Some l) es))))) \<and>
    (\<forall>e \<in> set es. etype e = FOTA_TAR_ENTRY_FILE \<and> path e \<noteq> manifest_name \<and>
       (\<forall>e' \<in> set es. etype e' = FOTA_TAR_ENTRY_FILE \<and> path e' \<noteq> manifest_name \<and>
          resolve w' (dir @ slash # path e') = resolve w' (dir @ slash # path e) \<longrightarrow> e' = e) \<longrightarrow>
       (\<exists>l. resolve w' (dir @ slash # path e) = Some l \<and> files w' l = Some (entry_data tar e))) \<and>
    (\<forall>l. (\<forall>e \<in> set es. etype e = FOTA_TAR_ENTRY_FILE \<and> path e \<noteq> manifest_name \<longrightarrow>
         resolve w' (dir @ slash # path e) \<noteq> Some l) \<longrightarrow> files w' l = files w l)"
proof (rule extract_cases [OF assms(1-5), where alloc = alloc and w = w])
  fix r2 w2 tar es
  assume ex: "fota_installer_extract TYPE('s) Z C alloc (Some gz) gz_len (Some dir) w = Some (r2, w2)"
    and acc: "archive_accepted TYPE('s) Z C alloc gz gz_len tar es" and ext: "extracted dir tar es r2 w w2"
  have lw: "last_written dir tar es w w'" using ex ext assms(6) by (simp add: extracted_def)
  show ?thesis
    using acc last_written_at [OF lw, unfolded is_payload_file_def conj_assoc]
    by (intro exI [of _ tar] exI [of _ es]) blast
qed (use assms(6) in \<open>auto simp: gunzip_error_def tar_error_def manifest_error_def\<close>)

lemma install_loop_filter:
  "install_loop dir tar es w = install_loop dir tar (filter is_payload_file es) w"
  by (induction es arbitrary: w)
     (auto simp: is_payload_file_def split: prod.split option.split intro!: Option.bind_cong)

lemma sample_extract:
  "\<exists>w'. fota_installer_extract TYPE(64) sample_zlib sha256_sample unlimited (Some sample_archive)
     (length sample_archive) (Some (ascii ''/d'')) install_world = Some (FOTA_INSTALL_OK, w') \<and>
     files w' = (\<lambda>_. None)([ascii ''d'', ascii ''a''] := Some [])"
proof -
  let ?w = "emit Ev_validated install_world" and ?d = "ascii ''/d''"
  obtain es where acc: "archive_accepted TYPE(64) sample_zlib sha256_sample unlimited sample_archive
        (length sample_archive) sample_archive es"
      and fl: "map (\<lambda>e. (path e, entry_data sample_archive e)) (filter is_payload_file es) = [(ascii ''a'', [])]"
    using sample_accepted by (elim exE conjE) (rule that)
  obtain e where e: "filter is_payload_file es = [e]" "path e = ascii ''a''" "entry_data sample_archive e = []"
    using fl by (auto simp: map_eq_Cons_conv)
  have "36 < LENGTH(64) \<and> length sample_archive < 2 ^ LENGTH(64)" using sample_archive_facts(5) by simp
  from tar.accepted [OF this] have wf: "wf_entries sample_archive es"
    using acc unfolding archive_accepted_def by blast
  have "e \<in> set (filter is_payload_file es)" using e(1) by simp
  then have pe: "is_payload_file e" "writable_entry sample_archive e" using wf_entries_writable [OF wf] by auto
  then have rd: "rd_slice sample_archive (data_off e) (esize e) = Some []" using e(3) by (simp add: writable_entry_def)
  have res: "resolve ?w (ascii ''/d/a'') = Some [ascii ''d'', ascii ''a'']"
    by (simp add: resolve_def install_world_def emit_def ascii_def)
  obtain w' where put: "put_file (ascii ''/d/a'') [] ?w = (True, w')"
      "files w' = (\<lambda>_. None)([ascii ''d'', ascii ''a''] := Some [])"
    using res by (simp add: put_file_def fopen_wb_def) (simp add: install_world_def stdio_defs Let_def ascii_def)
  have "ensure_parent_dirs ?d (path e) ?w = (True, ?w)"
    by (simp add: ensure_parent_dirs_def make_full_path_def full_path_size_def e(2) ascii_def
        mkdir_loop.simps strchr_from.simps)
  moreover have "make_full_path ?d (path e) = Some (ascii ''/d/a'')"
    by (simp add: make_full_path_def full_path_size_def e(2) ascii_def)
  ultimately have "write_entry_file ?d sample_archive e ?w = Some (True, w')"
    unfolding write_entry_file_eq [OF rd] using put(1) by simp
  then have "install_loop ?d sample_archive es ?w = Some (FOTA_INSTALL_OK, w')"
    unfolding install_loop_filter [of _ _ es] e(1) using install_loop_write [OF pe(1)] by simp
  then have "fota_installer_extract TYPE(64) sample_zlib sha256_sample unlimited (Some sample_archive)
     (length sample_archive) (Some ?d) install_world = Some (FOTA_INSTALL_OK, w')"
    using acc by (simp add: fota_installer_extract_def archive_accepted_def)
  then show ?thesis using put(2) by blast
qed

theorem extract_installs_witness:
  "\<exists>(w' :: world) tar es. archive_accepted TYPE(64) sample_zlib sha256_sample unlimited sample_archive (length sample_archive) tar es \<and>
     (\<exists>e \<in> set es. resolve w' (ascii ''/d/'' @ path e) = Some [ascii ''d'', ascii ''a'']) \<and>
     files w' [ascii ''d'', ascii ''a''] = Some []"
proof -
  have h: "36 < LENGTH(64)" "ascii ''/d'' \<noteq> []" by (simp_all add: ascii_def)
  obtain w' where ex: "fota_installer_extract TYPE(64) sample_zlib sha256_sample unlimited (Some sample_archive)
     (length sample_archive) (Some (ascii ''/d'')) install_world = Some (FOTA_INSTALL_OK, w')"
      and w': "files w' = (\<lambda>_. None)([ascii ''d'', ascii ''a''] := Some [])"
    using sample_extract by blast
  have "files w' [ascii ''d'', ascii ''a''] \<noteq> files install_world [ascii ''d'', ascii ''a'']"
    by (simp add: w' install_world_def)
  moreover obtain tar es where acc: "archive_accepted TYPE(64) sample_zlib sha256_sample unlimited sample_archive
      (length sample_archive) tar es"
      and un: "\<forall>l. (\<forall>e \<in> set es. etype e = FOTA_TAR_ENTRY_FILE \<and> path e \<noteq> manifest_name \<longrightarrow>
         resolve w' (ascii ''/d'' @ slash # path e) \<noteq> Some l) \<longrightarrow> files w' l = files install_world l"
    using extract_installs [OF sample_contracts h(1) order_refl h(2) ex] by (elim exE conjE) (rule that)
  ultimately have "\<exists>e \<in> set es. resolve w' (ascii ''/d/'' @ path e) = Some [ascii ''d'', ascii ''a'']"
    by (force simp: ascii_def)
  then show ?thesis using acc w' by (intro exI [of _ w'] exI [of _ tar] exI [of _ es]) simp
qed

text \<open>
  C26. Only vouched-for bytes reach the disk, each at its own path: when the manifest of the accepted archive lists no
  path twice and does not list itself, every place that a successful extraction changed is where the path of some
  file of the archive leads, it holds the bytes of that file, and the manifest lists that very path with the SHA-256
  of those bytes.
\<close>

theorem extract_only_listed_content:
  assumes "zlib_contract Z" and "digest_contract C" and "36 < LENGTH('s)"
    and "gz_len \<le> length gz" and "dir \<noteq> []"
    and "fota_installer_extract TYPE('s::len) Z C alloc (Some gz) gz_len (Some dir) w = Some (FOTA_INSTALL_OK, w')"
    and "archive_accepted TYPE('s) Z C alloc gz gz_len tar es" and "manifest_of tar es = Some mfs"
    and "distinct (map (\<lambda>mf. cstr (mf_path mf)) mfs)"
    and "manifest_name \<notin> (\<lambda>mf. cstr (mf_path mf)) ` set mfs"
    and "files w' l \<noteq> files w l"
  shows "\<exists>e \<in> set es. \<exists>mf \<in> set mfs. \<exists>digest. etype e = FOTA_TAR_ENTRY_FILE \<and> path e \<noteq> manifest_name \<and>
    resolve w' (dir @ slash # path e) = Some l \<and> files w' l = Some (entry_data tar e) \<and>
    cstr (mf_path mf) = path e \<and>
    EVP_Digest C (entry_data tar e) EVP_sha256 = (1, digest) \<and> hex_text digest = cstr (mf_sha256_hex mf)"
proof (rule extract_cases [OF assms(1-5), where alloc = alloc and w = w])
  fix r2 w2 tar2 es2
  assume ex: "fota_installer_extract TYPE('s) Z C alloc (Some gz) gz_len (Some dir) w = Some (r2, w2)"
    and acc: "archive_accepted TYPE('s) Z C alloc gz gz_len tar2 es2"
    and agrees: "manifest_agrees C tar2 es2" and ext: "extracted dir tar2 es2 r2 w w2"
  have same: "tar2 = tar" "es2 = es" using acc assms(7) by (auto simp: archive_accepted_def)
  have "fully_written dir tar es w w'" using ex ext assms(6) by (simp add: extracted_def same)
  then obtain e where e: "e \<in> set es" "is_payload_file e" "files w' l = Some (entry_data tar e)"
      "resolve w' (target dir e) = Some l"
    using assms(11) unfolding fully_written_def comes_from_def by blast
  then show ?thesis
    using manifest_agrees_covers [OF agrees [unfolded same] assms(8-10) e(1,2)]
    unfolding is_payload_file_def by blast
qed (use assms(6) in \<open>auto simp: gunzip_error_def tar_error_def manifest_error_def\<close>)

theorem extract_only_listed_content_witness:
  "\<exists>w' es. \<exists>e \<in> set es. fota_installer_extract TYPE(64) sample_zlib sha256_sample unlimited (Some sample_archive)
     (length sample_archive) (Some (ascii ''/d'')) install_world = Some (FOTA_INSTALL_OK, w') \<and>
     files w' [ascii ''d'', ascii ''a''] = Some (entry_data sample_archive e) \<and> path e = ascii ''a''"
proof -
  have h: "36 < LENGTH(64)" "ascii ''/d'' \<noteq> []" by (simp_all add: ascii_def)
  obtain w' where ex: "fota_installer_extract TYPE(64) sample_zlib sha256_sample unlimited (Some sample_archive)
     (length sample_archive) (Some (ascii ''/d'')) install_world = Some (FOTA_INSTALL_OK, w')"
      and w': "files w' = (\<lambda>_. None)([ascii ''d'', ascii ''a''] := Some [])"
    using sample_extract by blast
  obtain es where acc: "archive_accepted TYPE(64) sample_zlib sha256_sample unlimited sample_archive
      (length sample_archive) sample_archive es"
      and mf: "manifest_of sample_archive es =
        Some [\<lparr>mf_path = ascii ''a'', mf_sha256_hex = hex_text (sample_hash [])\<rparr>]"
    using sample_accepted by (elim exE conjE) (rule that)
  have "cstr (ascii ''a'') = ascii ''a''" by (simp add: cstr_id ascii_def)
  then have own: "distinct (map (\<lambda>mf. cstr (mf_path mf)) [\<lparr>mf_path = ascii ''a'', mf_sha256_hex = hex_text (sample_hash [])\<rparr>])"
      "manifest_name \<notin> (\<lambda>mf. cstr (mf_path mf)) ` set [\<lparr>mf_path = ascii ''a'', mf_sha256_hex = hex_text (sample_hash [])\<rparr>]"
    by (simp_all add: manifest_name_def) (simp add: ascii_def)
  have "files w' [ascii ''d'', ascii ''a''] \<noteq> files install_world [ascii ''d'', ascii ''a'']"
    by (simp add: w' install_world_def)
  from extract_only_listed_content [OF sample_contracts h(1) order_refl h(2) ex acc mf own this]
  obtain e where "e \<in> set es" "files w' [ascii ''d'', ascii ''a''] = Some (entry_data sample_archive e)"
      "path e = ascii ''a''"
    using \<open>cstr (ascii ''a'') = ascii ''a''\<close> by auto
  then show ?thesis using ex by blast
qed

end
