(* ===== verification/Fota_Main.thy ===== *)
theory Fota_Main
  imports Fota_Header Fota_Version Fota_Installer_Props
begin

section \<open>The consumer program (main.c)\<close>

text \<open>
  \<open>read_all\<close>, the platform check, the exit codes and \<open>main\<close> of \<open>consumer/src/main.c\<close> with the configuration of
  \<open>config.h\<close>.  \<open>main\<close> is cut at its comment headings into stages, each of which ends with the call of the
  next one; a stage returns the exit code and the device afterwards.  The calls of libcrypto that decide about the
  package leave an event in the log.
\<close>

subsection \<open>Configuration and exit codes\<close>

definition FOTA_CONFIG_PLATFORM_TAG :: "u8 list" where
  "FOTA_CONFIG_PLATFORM_TAG = ascii ''GENERIC''"

definition FOTA_CONFIG_INSTALL_DIR :: "u8 list" where
  "FOTA_CONFIG_INSTALL_DIR = ascii ''/opt/fota-secure/install''"

definition FOTA_CONFIG_VERSION_FILE :: "u8 list" where
  "FOTA_CONFIG_VERSION_FILE = ascii ''/etc/fota-secure/version''"

definition FOTA_CONFIG_SIGNING_PUBLIC_KEY_FILE :: "u8 list" where
  "FOTA_CONFIG_SIGNING_PUBLIC_KEY_FILE = ascii ''/etc/fota-secure/signing_public.pem''"

definition FOTA_CONFIG_DEVICE_PRIVATE_KEY_FILE :: "u8 list" where
  "FOTA_CONFIG_DEVICE_PRIVATE_KEY_FILE = ascii ''/etc/fota-secure/device_private.pem''"

definition FOTA_CONFIG_DOWNGRADE_SECRET_HASH_FILE :: "u8 list" where
  "FOTA_CONFIG_DOWNGRADE_SECRET_HASH_FILE = ascii ''/etc/fota-secure/downgrade_secret.hash''"

datatype exit_code =
    FOTA_EXIT_SUCCESS
  | FOTA_EXIT_GENERIC_FAILURE
  | FOTA_EXIT_UP_TO_DATE
  | FOTA_EXIT_MALFORMED_HEADER
  | FOTA_EXIT_PLATFORM_MISMATCH
  | FOTA_EXIT_SIGNATURE_FAILED
  | FOTA_EXIT_DOWNGRADE_BLOCKED
  | FOTA_EXIT_INSUFFICIENT_DISK_SPACE
  | FOTA_EXIT_DECRYPTION_FAILED
  | FOTA_EXIT_INSTALLER_REJECTED

fun exit_status :: "exit_code \<Rightarrow> nat" where
  "exit_status FOTA_EXIT_SUCCESS = 0"
| "exit_status FOTA_EXIT_GENERIC_FAILURE = 1"
| "exit_status FOTA_EXIT_UP_TO_DATE = 2"
| "exit_status FOTA_EXIT_MALFORMED_HEADER = 3"
| "exit_status FOTA_EXIT_PLATFORM_MISMATCH = 4"
| "exit_status FOTA_EXIT_SIGNATURE_FAILED = 5"
| "exit_status FOTA_EXIT_DOWNGRADE_BLOCKED = 6"
| "exit_status FOTA_EXIT_INSUFFICIENT_DISK_SPACE = 7"
| "exit_status FOTA_EXIT_DECRYPTION_FAILED = 8"
| "exit_status FOTA_EXIT_INSTALLER_REJECTED = 9"

fun install_result_to_exit_code :: "fota_install_result \<Rightarrow> exit_code" where
  "install_result_to_exit_code FOTA_INSTALL_ERR_UNSAFE_PATH = FOTA_EXIT_INSTALLER_REJECTED"
| "install_result_to_exit_code FOTA_INSTALL_ERR_UNSUPPORTED_ENTRY = FOTA_EXIT_INSTALLER_REJECTED"
| "install_result_to_exit_code FOTA_INSTALL_ERR_DECOMPRESSED_TOO_LARGE = FOTA_EXIT_INSTALLER_REJECTED"
| "install_result_to_exit_code FOTA_INSTALL_ERR_MANIFEST_MISSING = FOTA_EXIT_INSTALLER_REJECTED"
| "install_result_to_exit_code FOTA_INSTALL_ERR_MANIFEST_PARSE = FOTA_EXIT_INSTALLER_REJECTED"
| "install_result_to_exit_code FOTA_INSTALL_ERR_MANIFEST_MISMATCH = FOTA_EXIT_INSTALLER_REJECTED"
| "install_result_to_exit_code _ = FOTA_EXIT_GENERIC_FAILURE"

subsection \<open>Reading the input\<close>

text \<open>
  The growth step.  The capacity is a \<open>nat\<close>: doubling wraps in a \<open>size_t\<close> of \<open>n\<close> bits only when a block of \<open>2 ^ (n - 1)\<close>
  bytes, half the address space, was granted and filled, and C allows no object of that size.

  The loop of \<open>read_all\<close>: \<open>buf\<close> holds the \<open>total\<close> bytes read so far.  The result \<open>None\<close> is NULL.  It ends because every
  round but the last takes bytes from the stream.
\<close>

definition read_all_grow :: "allocator \<Rightarrow> nat \<Rightarrow> nat \<Rightarrow> nat option" where
  "read_all_grow alloc filled capacity =
     (if filled = capacity then
        let new_capacity = capacity * 2
        in if \<not> alloc Site_read_all new_capacity then None else Some new_capacity
      else Some capacity)"

function read_all_loop :: "allocator \<Rightarrow> u8 list \<Rightarrow> nat \<Rightarrow> stream \<Rightarrow> u8 list option" where
  "read_all_loop alloc buf capacity fp =
     (case read_all_grow alloc (length buf) capacity of
        None \<Rightarrow> None
      | Some capacity' \<Rightarrow>
          (case fread (capacity' - length buf) fp of
             (got, fp') \<Rightarrow>
               if got = [] then (if err_flag fp' then None else Some buf)
               else read_all_loop alloc (buf @ got) capacity' fp'))"
  by pat_completeness auto
termination
  by (relation "measure (\<lambda>(alloc, buf, capacity, fp). length (avail fp))") (auto simp: fread_def neq_Nil_conv)

declare read_all_loop.simps [simp del]

definition read_all :: "allocator \<Rightarrow> stream \<Rightarrow> u8 list option" where
  "read_all alloc fp =
     (if \<not> alloc Site_read_all 65536 then None else read_all_loop alloc [] 65536 fp)"

subsection \<open>The platform check\<close>

definition platform_tag_matches :: "u8 list \<Rightarrow> bool option" where
  "platform_tag_matches header_tag =
     (let configured_len = length FOTA_CONFIG_PLATFORM_TAG in
      if configured_len > FOTA_PLATFORM_TAG_SIZE then Some False
      else do {
        expected \<leftarrow> wr_slice (replicate FOTA_PLATFORM_TAG_SIZE 0) 0 FOTA_CONFIG_PLATFORM_TAG;
        tag \<leftarrow> rd_slice header_tag 0 FOTA_PLATFORM_TAG_SIZE;
        Some (tag = expected)
      })"

definition platform_post_install_hook :: "world \<Rightarrow> world" where
  "platform_post_install_hook w = w"

subsection \<open>The stages of main\<close>

text \<open>Extract, install and persist the new version.\<close>

definition main_install ::
    "'s::len itself \<Rightarrow> 'z zlib \<Rightarrow> 'h openssl \<Rightarrow> allocator \<Rightarrow> fota_version \<Rightarrow> u8 list option \<Rightarrow> nat \<Rightarrow> world \<Rightarrow>
     (exit_code \<times> world) option"
where
  "main_install width Z C alloc new_version plaintext plaintext_len w = do {
     (install_result, w1) \<leftarrow>
       fota_installer_extract width Z C alloc plaintext plaintext_len (Some FOTA_CONFIG_INSTALL_DIR) w;
     if install_result \<noteq> FOTA_INSTALL_OK then Some (install_result_to_exit_code install_result, w1)
     else (case fota_version_write_installed (Some FOTA_CONFIG_VERSION_FILE) (Some new_version) w1 of
             (rc, w2) \<Rightarrow>
               if rc \<noteq> 0 then Some (FOTA_EXIT_GENERIC_FAILURE, w2)
               else Some (FOTA_EXIT_SUCCESS, platform_post_install_hook w2))
   }"

text \<open>
  Unwrap the key and decrypt the payload.  \<open>aes_key\<close> and the block from \<open>malloc\<close> hold arbitrary bytes before the
  calls; zeros stand for them, and no result depends on them.
\<close>

definition main_decrypt ::
    "'s::len itself \<Rightarrow> 'z zlib \<Rightarrow> 'h openssl \<Rightarrow> allocator \<Rightarrow> fota_header \<Rightarrow> fota_version \<Rightarrow> u8 list \<Rightarrow> u8 list \<Rightarrow> nat \<Rightarrow>
     world \<Rightarrow> (exit_code \<times> world) option"
where
  "main_decrypt width Z C alloc header new_version wrapped_key ciphertext ciphertext_len w =
     (case fota_load_private_key C w (Some FOTA_CONFIG_DEVICE_PRIVATE_KEY_FILE) of
        None \<Rightarrow> Some (FOTA_EXIT_GENERIC_FAILURE, w)
      | Some device_private_key \<Rightarrow> do {
          (unwrap_result, aes_key, aes_key_len) \<leftarrow>
            fota_unwrap_key C alloc (Some device_private_key) (Some wrapped_key) (unat (wrapped_key_len header))
              (Some (replicate FOTA_AES_KEY_SIZE 0)) (Some FOTA_AES_KEY_SIZE);
          let w1 = emit (Ev_unwrap (unwrap_result = FOTA_CRYPTO_OK)) w;
          if unwrap_result \<noteq> FOTA_CRYPTO_OK \<or> aes_key_len \<noteq> Some FOTA_AES_KEY_SIZE
          then Some (FOTA_EXIT_DECRYPTION_FAILED, w1)
          else if \<not> alloc Site_plaintext (ciphertext_len + FOTA_AES_IV_SIZE)
          then Some (FOTA_EXIT_GENERIC_FAILURE, w1)
          else do {
            (decrypt_result, plaintext, plaintext_len) \<leftarrow>
              fota_decrypt_payload C aes_key FOTA_AES_KEY_SIZE (Some (iv header)) FOTA_IV_SIZE
                (Some ciphertext) ciphertext_len
                (Some (replicate (ciphertext_len + FOTA_AES_IV_SIZE) 0)) (Some 0);
            let w2 = emit (Ev_decrypt (decrypt_result = FOTA_CRYPTO_OK)) w1;
            if decrypt_result \<noteq> FOTA_CRYPTO_OK then Some (FOTA_EXIT_DECRYPTION_FAILED, w2)
            else do {
              n \<leftarrow> plaintext_len;
              main_install width Z C alloc new_version plaintext n w2
            }
          }
        })"

text \<open>Verify the signature over header, wrapped key and ciphertext.\<close>

definition main_verify ::
    "'s::len itself \<Rightarrow> 'z zlib \<Rightarrow> 'h openssl \<Rightarrow> allocator \<Rightarrow> fota_header \<Rightarrow> fota_version \<Rightarrow> u8 list \<Rightarrow> nat \<Rightarrow>
     world \<Rightarrow> (exit_code \<times> world) option"
where
  "main_verify width Z C alloc header new_version data data_len w =
     (let wrapped_key_end = FOTA_HEADER_SIZE + unat (wrapped_key_len header);
          signature_end = wrapped_key_end + 256;
          wrapped_key = drop FOTA_HEADER_SIZE data;
          signature = drop wrapped_key_end data;
          ciphertext = drop signature_end data;
          ciphertext_len = data_len - signature_end
      in case fota_load_public_key C w (Some FOTA_CONFIG_SIGNING_PUBLIC_KEY_FILE) of
           None \<Rightarrow> Some (FOTA_EXIT_GENERIC_FAILURE, w)
         | Some signing_public_key \<Rightarrow>
             let signed_data_len = FOTA_HEADER_SIZE + unat (wrapped_key_len header) + ciphertext_len
             in if \<not> alloc Site_signed_data signed_data_len then Some (FOTA_EXIT_GENERIC_FAILURE, w)
                else do {
                  part1 \<leftarrow> rd_slice data 0 FOTA_HEADER_SIZE;
                  part2 \<leftarrow> rd_slice wrapped_key 0 (unat (wrapped_key_len header));
                  part3 \<leftarrow> rd_slice ciphertext 0 ciphertext_len;
                  let signed_data = part1 @ part2 @ part3;
                  verify_result \<leftarrow>
                    fota_verify_signature C (Some signing_public_key) (Some signed_data) signed_data_len
                      (Some signature) 256;
                  let w1 = emit (Ev_verify (verify_result = FOTA_CRYPTO_OK)) w;
                  if verify_result \<noteq> FOTA_CRYPTO_OK then Some (FOTA_EXIT_SIGNATURE_FAILED, w1)
                  else main_decrypt width Z C alloc header new_version wrapped_key ciphertext ciphertext_len w1
                })"

text \<open>Split the sections and check the disk space: \<open>f_bavail * f_frsize\<close> is computed modulo \<open>2 ^ 64\<close>.\<close>

definition main_sections ::
    "'s::len itself \<Rightarrow> 'z zlib \<Rightarrow> 'h openssl \<Rightarrow> allocator \<Rightarrow> fota_header \<Rightarrow> fota_version \<Rightarrow> u8 list \<Rightarrow> nat \<Rightarrow>
     world \<Rightarrow> (exit_code \<times> world) option"
where
  "main_sections width Z C alloc header new_version data data_len w =
     (let wrapped_key_end = FOTA_HEADER_SIZE + unat (wrapped_key_len header);
          signature_end = wrapped_key_end + 256
      in if data_len < signature_end then Some (FOTA_EXIT_MALFORMED_HEADER, w)
         else let ciphertext_len = data_len - signature_end in
           case statvfs w FOTA_CONFIG_INSTALL_DIR of
             None \<Rightarrow> Some (FOTA_EXIT_GENERIC_FAILURE, w)
           | Some (f_bavail, f_frsize) \<Rightarrow>
               if f_bavail * f_frsize < of_nat ciphertext_len then Some (FOTA_EXIT_INSUFFICIENT_DISK_SPACE, w)
               else main_verify width Z C alloc header new_version data data_len w)"

text \<open>Version and downgrade check.\<close>

definition main_version ::
    "'s::len itself \<Rightarrow> 'z zlib \<Rightarrow> 'h openssl \<Rightarrow> allocator \<Rightarrow> u8 list option \<Rightarrow> fota_header \<Rightarrow> u8 list \<Rightarrow> nat \<Rightarrow>
     world \<Rightarrow> (exit_code \<times> world) option"
where
  "main_version width Z C alloc downgrade_secret header data data_len w = do {
     (parse_result, parsed) \<leftarrow>
       fota_version_parse (Some (fw_version header)) FOTA_FW_VERSION_SIZE (Some (Fota_version 0 0 0 0));
     (case (parse_result, parsed) of
        (FOTA_VERSION_PARSE_OK, Some new_version) \<Rightarrow> do {
          (read_result, installed_version) \<leftarrow> fota_version_read_installed w (Some FOTA_CONFIG_VERSION_FILE);
          if read_result \<noteq> FOTA_VERSION_READ_OK then Some (FOTA_EXIT_GENERIC_FAILURE, w)
          else do {
            (hash_result, stored_secret_hash) \<leftarrow>
              fota_version_read_downgrade_secret_hash w (Some FOTA_CONFIG_DOWNGRADE_SECRET_HASH_FILE)
                (Some (replicate FOTA_DOWNGRADE_SECRET_HASH_SIZE 0));
            let stored_secret_hash_ptr =
              (if hash_result = FOTA_SECRET_HASH_READ_OK then stored_secret_hash else None);
            let secret_len = (case downgrade_secret of None \<Rightarrow> 0 | Some s \<Rightarrow> length s);
            downgrade_result \<leftarrow>
              fota_downgrade_check C new_version installed_version downgrade_secret secret_len
                stored_secret_hash_ptr;
            (case downgrade_result of
               FOTA_DOWNGRADE_CHECK_UP_TO_DATE \<Rightarrow> Some (FOTA_EXIT_UP_TO_DATE, w)
             | FOTA_DOWNGRADE_CHECK_BLOCKED \<Rightarrow> Some (FOTA_EXIT_DOWNGRADE_BLOCKED, w)
             | FOTA_DOWNGRADE_CHECK_ALLOW \<Rightarrow> main_sections width Z C alloc header new_version data data_len w)
          }
        }
      | _ \<Rightarrow> Some (FOTA_EXIT_MALFORMED_HEADER, w))
   }"

text \<open>Header and platform; \<open>header\<close> holds arbitrary bytes before the call.\<close>

definition blank_header :: fota_header where
  "blank_header = \<lparr>platform_tag = [], fw_version = [], wrapped_key_len = 0, iv = []\<rparr>"

definition main_header ::
    "'s::len itself \<Rightarrow> 'z zlib \<Rightarrow> 'h openssl \<Rightarrow> allocator \<Rightarrow> u8 list option \<Rightarrow> u8 list \<Rightarrow> nat \<Rightarrow>
     world \<Rightarrow> (exit_code \<times> world) option"
where
  "main_header width Z C alloc downgrade_secret data data_len w = do {
     (header_result, out) \<leftarrow> fota_header_parse (Some data) data_len (Some blank_header);
     (case (header_result, out) of
        (FOTA_HEADER_OK, Some header) \<Rightarrow> do {
          ok \<leftarrow> platform_tag_matches (platform_tag header);
          if \<not> ok then Some (FOTA_EXIT_PLATFORM_MISMATCH, w)
          else main_version width Z C alloc downgrade_secret header data data_len w
        }
      | _ \<Rightarrow> Some (FOTA_EXIT_MALFORMED_HEADER, w))
   }"

text \<open>
  Arguments and input.  \<open>argv\<close> is the list of argument strings without their terminating NULs; the loop takes
  the last complete \<open>--downgrade-secret\<close> pair.
\<close>

definition downgrade_flag :: "u8 list" where "downgrade_flag = ascii ''--downgrade-secret''"

fun downgrade_secret_arg :: "u8 list option \<Rightarrow> u8 list list \<Rightarrow> u8 list option" where
  "downgrade_secret_arg secret [] = secret"
| "downgrade_secret_arg secret [a] = secret"
| "downgrade_secret_arg secret (a # b # rest) =
     (if a = downgrade_flag then downgrade_secret_arg (Some b) rest
      else downgrade_secret_arg secret (b # rest))"

definition main_input :: "u8 list \<Rightarrow> stream \<Rightarrow> world \<Rightarrow> stream option" where
  "main_input input_path stdin w = (if input_path = ascii ''-'' then Some stdin else fopen_rb w input_path)"

definition main ::
    "'s::len itself \<Rightarrow> 'z zlib \<Rightarrow> 'h openssl \<Rightarrow> allocator \<Rightarrow> u8 list list \<Rightarrow> stream \<Rightarrow> world \<Rightarrow>
     (exit_code \<times> world) option"
where
  "main width Z C alloc argv stdin w =
     (if length argv < 2 then Some (FOTA_EXIT_GENERIC_FAILURE, w)
      else case main_input (argv ! 1) stdin w of
          None \<Rightarrow> Some (FOTA_EXIT_GENERIC_FAILURE, w)
        | Some input_fp \<Rightarrow>
            (case read_all alloc input_fp of
               None \<Rightarrow> Some (FOTA_EXIT_GENERIC_FAILURE, w)
             | Some data \<Rightarrow>
                 main_header width Z C alloc (downgrade_secret_arg None (drop 2 argv)) data (length data) w))"

end
