(* ===== verification/Fota_Main_Spec.thy ===== *)
theory Fota_Main_Spec
  imports Fota_Main
begin

section \<open>What main decides\<close>

text \<open>
  The checks of \<open>main\<close> as one function from the package and the state of the device to a decision: an exit code, or
  the plaintext to install.  It uses no buffer, no offset arithmetic on pointers and no output parameter.  Every stage of
  the program is proved to follow it, which includes that no stage leaves a buffer.
\<close>

subsection \<open>Reading the whole input\<close>

lemma read_all_loop_eq:
  assumes "length buf \<le> cap" and "0 < cap"
  shows "read_all_loop alloc buf cap fp = Some d \<Longrightarrow> d = buf @ avail fp \<and> \<not> fails fp \<and> \<not> err_flag fp"
    and "\<forall>n. alloc Site_read_all n \<Longrightarrow> \<not> fails fp \<Longrightarrow> \<not> err_flag fp \<Longrightarrow>
      read_all_loop alloc buf cap fp = Some (buf @ avail fp)"
proof (atomize (full), insert assms, induction alloc buf cap fp rule: read_all_loop.induct)
  case (1 alloc buf cap fp)
  note loop = read_all_loop.simps [of alloc buf cap fp]
  show ?case
  proof (cases "read_all_grow alloc (length buf) cap")
    case None
    then show ?thesis unfolding loop by (auto simp: read_all_grow_def Let_def split: if_split_asm)
  next
    case (Some cap')
    then have cap': "length buf < cap'" using "1.prems" by (auto simp: read_all_grow_def Let_def split: if_split_asm)
    obtain got fp' where f: "fread (cap' - length buf) fp = (got, fp')" by fastforce
    then have got: "got = take (cap' - length buf) (avail fp)" "avail fp' = drop (cap' - length buf) (avail fp)"
        "fails fp' = fails fp"
        "err_flag fp' = (err_flag fp \<or> fails fp \<and> length (avail fp) < cap' - length buf)"
      by (auto simp: fread_def)
    show ?thesis
    proof (cases "got = []")
      case True
      then have "avail fp = []" using got(1) cap' by auto
      then show ?thesis using Some f True got(4) cap' unfolding loop by auto
    next
      case False
      have "length (buf @ got) \<le> cap'" "0 < cap'" using got(1) cap' by auto
      note IH = "1.IH" [OF Some f [symmetric] False this]
      have "buf @ avail fp = (buf @ got) @ avail fp'" using got(1,2) by simp
      moreover have "\<not> fails fp \<Longrightarrow> err_flag fp' = err_flag fp" using got(4) by simp
      moreover have "\<not> err_flag fp' \<Longrightarrow> \<not> err_flag fp" using got(4) by simp
      ultimately show ?thesis using IH Some f False got(3) unfolding loop by auto
    qed
  qed
qed

lemma read_all_Some: "read_all alloc fp = Some d \<Longrightarrow> d = avail fp \<and> \<not> fails fp \<and> \<not> err_flag fp"
  using read_all_loop_eq(1) [of "[]" 65536 alloc fp d] by (simp add: read_all_def split: if_split_asm)

lemma read_all_complete:
  "\<forall>n. alloc Site_read_all n \<Longrightarrow> \<not> fails fp \<Longrightarrow> \<not> err_flag fp \<Longrightarrow> read_all alloc fp = Some (avail fp)"
  using read_all_loop_eq(2) [of "[]" 65536 alloc fp] by (simp add: read_all_def)

subsection \<open>The log\<close>

definition with_log :: "event list \<Rightarrow> world \<Rightarrow> world" where
  "with_log evs w = w\<lparr>log := log w @ evs\<rparr>"

lemma emit_with_log: "emit e w = with_log [e] w"
  by (simp add: emit_def with_log_def)

lemma with_log_simps [simp]:
  "with_log [] w = w" "with_log b (with_log a w) = with_log (a @ b) w"
  "files (with_log evs w) = files w" "dirs (with_log evs w) = dirs w" "cwd (with_log evs w) = cwd w"
  "log (with_log evs w) = log w @ evs" "no_read (with_log evs w) = no_read w"
  "no_write (with_log evs w) = no_write w" "write_stop (with_log evs w) = write_stop w"
  "close_fails (with_log evs w) = close_fails w"
  "read_stop (with_log evs w) = read_stop w" "vfs_space (with_log evs w) = vfs_space w"
  by (simp_all add: with_log_def)

lemma resolve_with_log [simp]: "resolve (with_log evs w) p = resolve w p"
  by (rule resolve_dirs_cwd) simp_all

lemma fopen_rb_with_log [simp]: "fopen_rb (with_log evs w) p = fopen_rb w p"
  by (simp add: fopen_rb_def split: option.split)

lemma load_with_log [simp]:
  "fota_load_private_key C (with_log evs w) p = fota_load_private_key C w p"
  "fota_load_public_key C (with_log evs w) p = fota_load_public_key C w p"
  by (simp_all add: fota_load_private_key_def fota_load_public_key_def split: option.split)

subsection \<open>The decisions\<close>

text \<open>The sections of a package, by the lengths its header gives.\<close>

definition key_section :: "u8 list \<Rightarrow> u8 list" where
  "key_section data = take (unat (wrapped_key_len (header_fields data))) (drop 51 data)"

definition payload_start :: "u8 list \<Rightarrow> nat" where
  "payload_start data = 51 + unat (wrapped_key_len (header_fields data)) + 256"

definition signature_section :: "u8 list \<Rightarrow> u8 list" where
  "signature_section data = take 256 (drop (51 + unat (wrapped_key_len (header_fields data))) data)"

definition payload_section :: "u8 list \<Rightarrow> u8 list" where
  "payload_section data = drop (payload_start data) data"

definition signed_part :: "u8 list \<Rightarrow> u8 list" where
  "signed_part data = take 51 data @ key_section data @ payload_section data"

text \<open>A decision comes with the events that the stage logs.\<close>

definition decide_decrypt ::
    "'h openssl \<Rightarrow> allocator \<Rightarrow> u8 list \<Rightarrow> world \<Rightarrow> event list \<times> (exit_code + u8 list)"
where
  "decide_decrypt C alloc data w =
     (case fota_load_private_key C w (Some FOTA_CONFIG_DEVICE_PRIVATE_KEY_FILE) of
        None \<Rightarrow> ([], Inl FOTA_EXIT_GENERIC_FAILURE)
      | Some sk \<Rightarrow>
          (case unwrapped C alloc sk (key_section data) of
             None \<Rightarrow> ([Ev_unwrap False], Inl FOTA_EXIT_DECRYPTION_FAILED)
           | Some k \<Rightarrow>
               if length k > 32 then ([Ev_unwrap False], Inl FOTA_EXIT_DECRYPTION_FAILED)
               else if length k \<noteq> 32 then ([Ev_unwrap True], Inl FOTA_EXIT_DECRYPTION_FAILED)
               else if \<not> alloc Site_plaintext (length (payload_section data) + 16)
               then ([Ev_unwrap True], Inl FOTA_EXIT_GENERIC_FAILURE)
               else if payload_section data = [] \<or> 2147483647 < length (payload_section data)
               then ([Ev_unwrap True, Ev_decrypt False], Inl FOTA_EXIT_DECRYPTION_FAILED)
               else (case decrypted C k (iv (header_fields data)) (payload_section data) of
                       None \<Rightarrow> ([Ev_unwrap True, Ev_decrypt False], Inl FOTA_EXIT_DECRYPTION_FAILED)
                     | Some plaintext \<Rightarrow> ([Ev_unwrap True, Ev_decrypt True], Inr plaintext))))"

definition decide_verify ::
    "'h openssl \<Rightarrow> allocator \<Rightarrow> u8 list \<Rightarrow> world \<Rightarrow> event list \<times> (exit_code + u8 list)"
where
  "decide_verify C alloc data w =
     (case fota_load_public_key C w (Some FOTA_CONFIG_SIGNING_PUBLIC_KEY_FILE) of
        None \<Rightarrow> ([], Inl FOTA_EXIT_GENERIC_FAILURE)
      | Some pk \<Rightarrow>
          if \<not> alloc Site_signed_data (length (signed_part data)) then ([], Inl FOTA_EXIT_GENERIC_FAILURE)
          else if \<not> signature_valid C pk (signed_part data) (signature_section data)
          then ([Ev_verify False], Inl FOTA_EXIT_SIGNATURE_FAILED)
          else (case decide_decrypt C alloc data w of (evs, r) \<Rightarrow> (Ev_verify True # evs, r)))"

definition decide_sections ::
    "'h openssl \<Rightarrow> allocator \<Rightarrow> u8 list \<Rightarrow> world \<Rightarrow> event list \<times> (exit_code + u8 list)"
where
  "decide_sections C alloc data w =
     (if length data < payload_start data then ([], Inl FOTA_EXIT_MALFORMED_HEADER)
      else case statvfs w FOTA_CONFIG_INSTALL_DIR of
          None \<Rightarrow> ([], Inl FOTA_EXIT_GENERIC_FAILURE)
        | Some (bavail, frsize) \<Rightarrow>
            if (bavail * frsize :: u64) < of_nat (length (payload_section data))
            then ([], Inl FOTA_EXIT_INSUFFICIENT_DISK_SPACE)
            else decide_verify C alloc data w)"

text \<open>The state that the version check reads.\<close>

definition installed_version :: "world \<Rightarrow> fota_version_read_result \<times> fota_version" where
  "installed_version w =
     (case fopen_rb w FOTA_CONFIG_VERSION_FILE of
        None \<Rightarrow> (FOTA_VERSION_READ_OK, Fota_version 0 0 0 0)
      | Some fp \<Rightarrow> installed_spec (avail fp))"

definition override_hash :: "world \<Rightarrow> u8 list option" where
  "override_hash w =
     (case fopen_rb w FOTA_CONFIG_DOWNGRADE_SECRET_HASH_FILE of
        None \<Rightarrow> None
      | Some fp \<Rightarrow> if length (avail fp) = 32 then Some (avail fp) else None)"

definition override_granted :: "'h openssl \<Rightarrow> u8 list option \<Rightarrow> world \<Rightarrow> bool" where
  "override_granted C secret w \<longleftrightarrow>
     (\<exists>h s. override_hash w = Some h \<and> secret = Some s \<and> s \<noteq> [] \<and> EVP_Digest C s EVP_sha256 = (1, h))"

definition decide_version ::
    "'h openssl \<Rightarrow> allocator \<Rightarrow> u8 list option \<Rightarrow> u8 list \<Rightarrow> fota_version \<Rightarrow> world \<Rightarrow>
     event list \<times> (exit_code + u8 list)"
where
  "decide_version C alloc secret data v w =
     (case installed_version w of
        (r, installed) \<Rightarrow>
          if r \<noteq> FOTA_VERSION_READ_OK then ([], Inl FOTA_EXIT_GENERIC_FAILURE)
          else if v = installed then ([], Inl FOTA_EXIT_UP_TO_DATE)
          else if v < installed \<and> \<not> override_granted C secret w then ([], Inl FOTA_EXIT_DOWNGRADE_BLOCKED)
          else decide_sections C alloc data w)"

definition wire_platform_tag :: "u8 list" where
  "wire_platform_tag = FOTA_CONFIG_PLATFORM_TAG @ replicate (16 - length FOTA_CONFIG_PLATFORM_TAG) 0"

definition package_version :: "u8 list \<Rightarrow> fota_version option" where
  "package_version data = version_spec (cstr (fw_version (header_fields data)))"

definition decide ::
    "'h openssl \<Rightarrow> allocator \<Rightarrow> u8 list option \<Rightarrow> u8 list \<Rightarrow> world \<Rightarrow>
     event list \<times> (exit_code + fota_version \<times> u8 list)"
where
  "decide C alloc secret data w =
     (if length data < 51 \<or> take 4 data \<noteq> FOTA_MAGIC \<or> data ! 4 \<noteq> 1 then ([], Inl FOTA_EXIT_MALFORMED_HEADER)
      else if platform_tag (header_fields data) \<noteq> wire_platform_tag then ([], Inl FOTA_EXIT_PLATFORM_MISMATCH)
      else case package_version data of
          None \<Rightarrow> ([], Inl FOTA_EXIT_MALFORMED_HEADER)
        | Some v \<Rightarrow>
            (case decide_version C alloc secret data v w of
               (evs, Inl c) \<Rightarrow> (evs, Inl c)
             | (evs, Inr plaintext) \<Rightarrow> (evs, Inr (v, plaintext))))"

text \<open>Carrying a decision out.\<close>

definition carry_out ::
    "'s::len itself \<Rightarrow> 'z zlib \<Rightarrow> 'h openssl \<Rightarrow> allocator \<Rightarrow> fota_version \<Rightarrow> event list \<times> (exit_code + u8 list) \<Rightarrow>
     world \<Rightarrow> (exit_code \<times> world) option"
where
  "carry_out width Z C alloc v decision w =
     (case decision of
        (evs, Inl c) \<Rightarrow> Some (c, with_log evs w)
      | (evs, Inr plaintext) \<Rightarrow>
          main_install width Z C alloc v (Some plaintext) (length plaintext) (with_log evs w))"

lemma carry_out_log:
  "carry_out width Z C alloc v d (with_log evs w) =
    carry_out width Z C alloc v (case d of (evs', r) \<Rightarrow> (evs @ evs', r)) w"
  by (simp add: carry_out_def split: prod.split sum.split)

subsection \<open>The stages follow the decisions\<close>

lemma decide_decrypt_log [simp]: "decide_decrypt C alloc data (with_log evs w) = decide_decrypt C alloc data w"
  by (simp add: decide_decrypt_def)

lemma gunzip_take:
  assumes "n \<le> length gz"
  shows "fota_gunzip Z alloc (Some gz) n m True = fota_gunzip Z alloc (Some (take n gz)) n m True"
proof -
  have "unat (of_nat n :: u32) \<le> n" by (rule unat_of_nat_u32_le)
  then show ?thesis
    using assms rd_slice_take [of 0 "unat (of_nat n :: u32)" n gz]
    by (simp add: fota_gunzip_def split: prod.split)
qed

lemma main_install_take:
  assumes "n \<le> length buf"
  shows "main_install width Z C alloc v (Some buf) n w = main_install width Z C alloc v (Some (take n buf)) n w"
  unfolding main_install_def fota_installer_extract_def gunzip_take [OF assms] by simp

text \<open>The documented behaviour of libcrypto that \<open>main\<close> relies on.\<close>

definition crypto_contract :: "'h openssl \<Rightarrow> bool" where
  "crypto_contract C \<longleftrightarrow> pkey_decrypt_contract C \<and> cipher_contract C \<and> digest_contract C"

lemma main_decrypt_eq:
  assumes C: "crypto_contract C" and len: "payload_start data \<le> length data"
  shows "main_decrypt width Z C alloc (header_fields data) v (drop 51 data) (payload_section data)
      (length (payload_section data)) w =
    carry_out width Z C alloc v (decide_decrypt C alloc data w) w"
proof (cases "fota_load_private_key C w (Some FOTA_CONFIG_DEVICE_PRIVATE_KEY_FILE)")
  case None
  then show ?thesis by (simp add: main_decrypt_def decide_decrypt_def carry_out_def)
next
  case (Some sk)
  let ?n = "unat (wrapped_key_len (header_fields data))" and ?ct = "payload_section data"
  have wk: "?n \<le> length (drop 51 data)" using len by (simp add: payload_start_def)
  have pc: "pkey_decrypt_contract C" "cipher_contract C" using C by (simp_all add: crypto_contract_def)
  note unwrap = unwrap_key_eq [OF pc(1) wk, of 32 "replicate 32 0" alloc sk, simplified]
  have "take ?n (drop 51 data) = key_section data" by (simp add: key_section_def)
  note unwrap = unwrap [unfolded this]
  show ?thesis
  proof (cases "unwrapped C alloc sk (key_section data)")
    case None
    then show ?thesis using Some unwrap
      by (simp add: main_decrypt_def decide_decrypt_def carry_out_def crypto_sizes emit_with_log)
  next
    case k: (Some k)
    show ?thesis
    proof (cases "length k = 32 \<and> alloc Site_plaintext (length ?ct + 16)")
      case False
      then show ?thesis using Some unwrap k
        by (auto simp: main_decrypt_def decide_decrypt_def carry_out_def crypto_sizes emit_with_log)
    next
      case ok: True
      have vec: "length (iv (header_fields data)) = 16"
        using wf_header_fields [of data] len by (simp add: wf_header_def payload_start_def)
      obtain out' len' where dec:
        "fota_decrypt_payload C (Some k) 32 (Some (iv (header_fields data))) 16 (Some ?ct) (length ?ct)
           (Some (replicate (length ?ct + 16) 0)) (Some 0) =
         Some (if length ?ct = 0 \<or> 2147483647 < length ?ct then FOTA_CRYPTO_ERR_INVALID_ARG
               else if decrypted C k (iv (header_fields data)) (take (length ?ct) ?ct) = None
               then FOTA_CRYPTO_ERR_DECRYPT_FAILED else FOTA_CRYPTO_OK, Some out', Some len')"
        "length out' = length ?ct + 16"
        "if 0 < length ?ct \<and> length ?ct \<le> 2147483647 then
           (case decrypted C k (iv (header_fields data)) (take (length ?ct) ?ct) of
              Some pt \<Rightarrow> len' = length pt \<and> take len' out' = pt
            | None \<Rightarrow> len' = 0)
         else len' = 0 \<and> out' = replicate (length ?ct + 16) 0"
        using decrypt_payload_eq [OF pc(2), of "replicate (length ?ct + 16) 0" "length ?ct" ?ct k
            "iv (header_fields data)" 0] ok vec by auto
      have key: "k @ drop (length k) (replicate 32 0) = k" using ok by simp
      show ?thesis
      proof (cases "?ct = [] \<or> 2147483647 < length ?ct \<or> decrypted C k (iv (header_fields data)) ?ct = None")
        case True
        then show ?thesis using Some unwrap k ok dec(1) key
          by (auto simp: main_decrypt_def decide_decrypt_def carry_out_def crypto_sizes header_sizes emit_with_log)
      next
        case False
        then obtain pt where pt: "decrypted C k (iv (header_fields data)) ?ct = Some pt" by auto
        then have l: "len' = length pt" "take (length pt) out' = pt" using dec(3) False by (auto split: if_split_asm)
        then have "length pt \<le> length out'" by (metis length_take min.cobounded1)
        then have "main_install width Z C alloc v (Some out') (length pt) w' =
            main_install width Z C alloc v (Some pt) (length pt) w'" for w'
          using main_install_take [of "length pt" out' width Z C alloc v w'] l(2) by simp
        then show ?thesis using Some unwrap k ok dec(1) key False pt l(1)
          by (simp add: main_decrypt_def decide_decrypt_def carry_out_def crypto_sizes header_sizes emit_with_log)
      qed
    qed
  qed
qed

lemma main_verify_eq:
  assumes C: "crypto_contract C" and len: "payload_start data \<le> length data"
  shows "main_verify width Z C alloc (header_fields data) v data (length data) w =
    carry_out width Z C alloc v (decide_verify C alloc data w) w"
proof (cases "fota_load_public_key C w (Some FOTA_CONFIG_SIGNING_PUBLIC_KEY_FILE)")
  case None
  then show ?thesis by (simp add: main_verify_def decide_verify_def carry_out_def)
next
  case (Some pk)
  let ?n = "unat (wrapped_key_len (header_fields data))" and ?pl = "payload_section data"
  have le: "51 + ?n + 256 \<le> length data" using len by (simp add: payload_start_def)
  have sig: "256 \<le> length (drop (51 + ?n) data)" using le by simp
  have pl: "drop (51 + ?n + 256) data = ?pl" "length data - (51 + ?n + 256) = length ?pl"
    by (simp_all add: payload_section_def payload_start_def)
  have l1: "51 + ?n + length ?pl = length (signed_part data)"
    using le by (simp add: signed_part_def key_section_def)
  have slices: "rd_slice data 0 51 = Some (take 51 data)"
    "rd_slice (drop 51 data) 0 ?n = Some (key_section data)"
    "rd_slice ?pl 0 (length ?pl) = Some ?pl"
    using le by (simp_all add: rd_slice_def key_section_def)
  have sp: "take 51 data @ key_section data @ ?pl = signed_part data" by (simp add: signed_part_def)
  have sigsec: "take 256 (drop (51 + ?n) data) = signature_section data" by (simp add: signature_section_def)
  have "main_verify width Z C alloc (header_fields data) v data (length data) w =
      (if \<not> alloc Site_signed_data (length (signed_part data)) then Some (FOTA_EXIT_GENERIC_FAILURE, w)
       else if \<not> signature_valid C pk (signed_part data) (signature_section data)
       then Some (FOTA_EXIT_SIGNATURE_FAILED, with_log [Ev_verify False] w)
       else main_decrypt width Z C alloc (header_fields data) v (drop 51 data) ?pl (length ?pl)
              (with_log [Ev_verify True] w))"
    unfolding main_verify_def Let_def FOTA_HEADER_SIZE_def pl l1 Some option.case slices bind.bind_lunit sp
      verify_signature_eq [OF order_refl sig] sigsec take_all_iff [THEN iffD2, OF order_refl]
    by (simp add: emit_with_log)
  then show ?thesis using Some
    by (simp add: decide_verify_def main_decrypt_eq [OF C len] carry_out_log
        carry_out_def [of _ _ _ _ _ "(_, Inl _)"] del: with_log_simps(2))
qed

lemma main_sections_eq:
  assumes C: "crypto_contract C"
  shows "main_sections width Z C alloc (header_fields data) v data (length data) w =
    carry_out width Z C alloc v (decide_sections C alloc data w) w"
proof (cases "length data < payload_start data")
  case True
  then show ?thesis
    by (simp add: main_sections_def decide_sections_def carry_out_def payload_start_def header_sizes)
next
  case False
  then have len: "payload_start data \<le> length data" by simp
  have start: "51 + unat (wrapped_key_len (header_fields data)) + 256 = payload_start data"
    by (simp add: payload_start_def)
  have "length data - payload_start data = length (payload_section data)"
    by (simp add: payload_section_def)
  then show ?thesis
    using False main_verify_eq [OF C len]
    unfolding main_sections_def Let_def FOTA_HEADER_SIZE_def start decide_sections_def
    by (auto simp: carry_out_def [of _ _ _ _ _ "(_, Inl _)"] split: option.split)
qed

lemma header_lengths:
  assumes "51 \<le> length data"
  shows "length (platform_tag (header_fields data)) = 16" "length (fw_version (header_fields data)) = 12"
    "length (iv (header_fields data)) = 16"
  using wf_header_fields [OF assms] by (simp_all add: wf_header_def)

lemma read_installed_version:
  "fota_version_read_installed w (Some FOTA_CONFIG_VERSION_FILE) = Some (installed_version w)"
proof (cases "fopen_rb w FOTA_CONFIG_VERSION_FILE")
  case None
  then show ?thesis by (simp add: installed_version_def fota_version_read_installed_def)
next
  case (Some fp)
  then show ?thesis by (simp add: installed_version_def read_installed_stream)
qed

lemma main_version_eq:
  assumes C: "crypto_contract C" and len: "51 \<le> length data"
  shows "main_version width Z C alloc secret (header_fields data) data (length data) w =
    (case package_version data of
       None \<Rightarrow> Some (FOTA_EXIT_MALFORMED_HEADER, w)
     | Some v \<Rightarrow> carry_out width Z C alloc v (decide_version C alloc secret data v w) w)"
proof -
  have parse: "fota_version_parse (Some (fw_version (header_fields data))) 12 (Some (Fota_version 0 0 0 0)) =
      Some (case package_version data of
              None \<Rightarrow> (FOTA_VERSION_PARSE_ERR_MALFORMED, Some (Fota_version 0 0 0 0))
            | Some v \<Rightarrow> (FOTA_VERSION_PARSE_OK, Some v))"
    using header_lengths [OF len]
    by (simp add: fota_version_parse_eq package_version_def split: option.split)
  show ?thesis
  proof (cases "package_version data")
    case None
    then show ?thesis using parse by (simp add: main_version_def header_sizes)
  next
    case v: (Some v)
    obtain rr installed where inst: "installed_version w = (rr, installed)" by fastforce
    obtain r h where hash:
      "fota_version_read_downgrade_secret_hash w (Some FOTA_CONFIG_DOWNGRADE_SECRET_HASH_FILE)
         (Some (replicate 32 0)) = Some (r, Some h)"
      "r = FOTA_SECRET_HASH_READ_OK \<longleftrightarrow> (\<exists>h. override_hash w = Some h)"
      "r = FOTA_SECRET_HASH_READ_OK \<longrightarrow> override_hash w = Some h" "length h = 32"
      using read_secret_hash_eq [of "replicate 32 0" w FOTA_CONFIG_DOWNGRADE_SECRET_HASH_FILE]
      by (auto simp: override_hash_def split: option.splits)
    let ?stored = "if r = FOTA_SECRET_HASH_READ_OK then Some h else None"
    let ?n = "case secret of None \<Rightarrow> 0 | Some s \<Rightarrow> length s"
    have check: "fota_downgrade_check C v installed secret ?n ?stored =
      Some (if installed < v then FOTA_DOWNGRADE_CHECK_ALLOW
          else if v = installed then FOTA_DOWNGRADE_CHECK_UP_TO_DATE
          else if override_granted C secret w
          then FOTA_DOWNGRADE_CHECK_ALLOW else FOTA_DOWNGRADE_CHECK_BLOCKED)"
      using C hash(2,3,4)
      by (subst downgrade_check_eq) (auto simp: crypto_contract_def override_granted_def split: option.split)
    show ?thesis
      using parse v inst hash(1) check read_installed_version [of w] linorder_less_linear [of v installed]
      by (auto dest: less_asym simp: main_version_def header_sizes version_sizes decide_version_def main_sections_eq [OF C]
          carry_out_def [of _ _ _ _ _ "(_, Inl _)"])
  qed
qed

lemma platform_tag_matches_eq: "length tag = 16 \<Longrightarrow> platform_tag_matches tag = Some (tag = wire_platform_tag)"
  by (simp add: platform_tag_matches_def wire_platform_tag_def header_sizes FOTA_CONFIG_PLATFORM_TAG_def
      ascii_def checked_access wr_slice_def)

text \<open>The whole of \<open>main\<close> behind the reading of the input.\<close>

definition perform ::
    "'s::len itself \<Rightarrow> 'z zlib \<Rightarrow> 'h openssl \<Rightarrow> allocator \<Rightarrow> event list \<times> (exit_code + fota_version \<times> u8 list) \<Rightarrow>
     world \<Rightarrow> (exit_code \<times> world) option"
where
  "perform width Z C alloc decision w =
     (case decision of
        (evs, Inl c) \<Rightarrow> Some (c, with_log evs w)
      | (evs, Inr (v, plaintext)) \<Rightarrow>
          main_install width Z C alloc v (Some plaintext) (length plaintext) (with_log evs w))"

lemma main_header_eq:
  assumes C: "crypto_contract C"
  shows "main_header width Z C alloc secret data (length data) w =
    perform width Z C alloc (decide C alloc secret data w) w"
proof (cases "length data < 51 \<or> take 4 data \<noteq> FOTA_MAGIC \<or> data ! 4 \<noteq> 1")
  case True
  then show ?thesis
    using fota_header_parse_eq [OF order_refl, of data blank_header]
    by (auto simp: main_header_def decide_def perform_def)
next
  case False
  then have len: "51 \<le> length data" by simp
  have parse: "fota_header_parse (Some data) (length data) (Some blank_header) =
      Some (FOTA_HEADER_OK, Some (header_fields data))"
    using False fota_header_parse_eq [OF order_refl, of data blank_header] by auto
  show ?thesis
    using False parse
    by (auto simp: main_header_def decide_def perform_def carry_out_def main_version_eq [OF C len]
        platform_tag_matches_eq [OF header_lengths(1) [OF len]] split: option.split prod.split sum.split)
qed

lemma main_eq:
  assumes C: "crypto_contract C"
  shows "main width Z C alloc argv stdin w =
    (if length argv < 2 then Some (FOTA_EXIT_GENERIC_FAILURE, w)
     else case Option.bind (main_input (argv ! 1) stdin w) (read_all alloc) of
         None \<Rightarrow> Some (FOTA_EXIT_GENERIC_FAILURE, w)
       | Some data \<Rightarrow>
           perform width Z C alloc (decide C alloc (downgrade_secret_arg None (drop 2 argv)) data w) w)"
  by (simp add: main_def main_header_eq [OF C] split: option.split)

end
