(* ===== verification/Fota_Blob.thy ===== *)
theory Fota_Blob
  imports Fota_Main_Spec
begin

section \<open>The layout of a blob, and the packager's own reader (blob.py)\<close>

text \<open>
  \<open>parse_header\<close> and \<open>parse_blob\<close> of \<open>packager/fota_secure/blob.py\<close>: the Python reader of the format, which the packager's
  tests use.  The lemmas show that it takes a blob apart exactly as the consumer does, and that it reads back what
  \<open>build_header\<close> and \<open>assemble\<close> write.

  A \<open>str\<close> that holds ASCII text is the list of its character codes.
\<close>

subsection \<open>The reader\<close>

text \<open>
  The outcomes that are not a result: the four \<open>BlobFormatError\<close>s, and the \<open>UnicodeDecodeError\<close> of
  \<open>decode ("ascii")\<close>.
\<close>

datatype read_error =
    Header_truncated | Bad_magic | Unsupported_version | Not_ascii | Blob_truncated

record py_header =
  py_platform_tag :: "u8 list"
  py_fw_version :: "u8 list"
  py_wrapped_key_len :: nat
  py_iv :: "u8 list"

record parsed_blob =
  blob_header :: py_header
  blob_wrapped_key :: "u8 list"
  blob_signature :: "u8 list"
  blob_payload :: "u8 list"
  blob_signed_data :: "u8 list"

text \<open>\<open>data[i:j]\<close>\<close>

definition py_slice :: "'a list \<Rightarrow> nat \<Rightarrow> nat \<Rightarrow> 'a list" where
  "py_slice xs i j = take (j - i) (drop i xs)"

definition rstrip_nul :: "u8 list \<Rightarrow> u8 list" where
  "rstrip_nul xs = rev (dropWhile (\<lambda>b. b = 0) (rev xs))"

definition decode_ascii :: "u8 list \<Rightarrow> read_error + u8 list" where
  "decode_ascii bs = (if \<exists>b \<in> set bs. 128 \<le> b then Inl Not_ascii else Inr bs)"

definition parse_header :: "u8 list \<Rightarrow> read_error + py_header" where
  "parse_header data =
     (if length data < FOTA_HEADER_SIZE then Inl Header_truncated
      else let raw = py_slice data 0 FOTA_HEADER_SIZE;
               magic = py_slice raw 0 4;
               format_version = raw ! 4;
               platform_tag_raw = py_slice raw 5 21;
               fw_version_raw = py_slice raw 21 33;
               key_len = 256 * unat (raw ! 33) + unat (raw ! 34);
               vec = py_slice raw 35 51
           in if magic \<noteq> FOTA_MAGIC then Inl Bad_magic
              else if format_version \<noteq> FOTA_FORMAT_VERSION then Inl Unsupported_version
              else (case decode_ascii (rstrip_nul platform_tag_raw) of
                      Inl e \<Rightarrow> Inl e
                    | Inr tag \<Rightarrow>
                        (case decode_ascii (rstrip_nul fw_version_raw) of
                           Inl e \<Rightarrow> Inl e
                         | Inr fw \<Rightarrow>
                             Inr \<lparr>py_platform_tag = tag, py_fw_version = fw, py_wrapped_key_len = key_len, py_iv = vec\<rparr>)))"

definition parse_blob :: "u8 list \<Rightarrow> read_error + parsed_blob" where
  "parse_blob data =
     (case parse_header data of
        Inl e \<Rightarrow> Inl e
      | Inr header \<Rightarrow>
          let raw_header = py_slice data 0 FOTA_HEADER_SIZE;
              wrapped_key_end = FOTA_HEADER_SIZE + py_wrapped_key_len header;
              signature_end = wrapped_key_end + SIGNATURE_SIZE
          in if length data < signature_end then Inl Blob_truncated
             else let wrapped_key = py_slice data FOTA_HEADER_SIZE wrapped_key_end;
                      signature = py_slice data wrapped_key_end signature_end;
                      payload = drop signature_end data
                  in Inr \<lparr>blob_header = header, blob_wrapped_key = wrapped_key, blob_signature = signature,
                          blob_payload = payload, blob_signed_data = raw_header @ wrapped_key @ payload\<rparr>)"

subsection \<open>The layout\<close>

text \<open>What the consumer sees of a blob that \<open>build_header\<close> and \<open>assemble\<close> wrote.\<close>

lemma blob_layout:
  assumes h: "build_header tag fw vec (int (length wk)) = Inr hdr"
    and a: "assemble hdr wk sig ct = Inr blob"
  shows "51 \<le> length blob" "take 4 blob = FOTA_MAGIC" "blob ! 4 = 1"
    "platform_tag (header_fields blob) = tag @ replicate (16 - length tag) 0"
    "fw_version (header_fields blob) = fw @ replicate (12 - length fw) 0" "iv (header_fields blob) = vec"
    "key_section blob = wk" "signature_section blob = sig" "payload_section blob = ct" "signed_part blob = hdr @ wk @ ct"
    "payload_start blob = 307 + length wk" "length blob = 307 + length wk + length ct"
    "unat (wrapped_key_len (header_fields blob)) = length wk"
proof -
  have l: "length hdr = 51" "length sig = 256" and b: "blob = hdr @ wk @ sig @ ct"
    using length_build_header [OF h] a by (auto simp: assemble_def SIGNATURE_SIZE_def split: if_split_asm)
  note f = header_fields_built [OF h, of "wk @ sig @ ct", folded b]
  have "length wk < 2 ^ 16" using h by (simp add: build_header_Inr)
  then show n: "unat (wrapped_key_len (header_fields blob)) = length wk"
    using f(3) by (simp add: unat_of_nat take_bit_nat_eq_self)
  show "51 \<le> length blob" "length blob = 307 + length wk + length ct" using l b by simp_all
  show "take 4 blob = FOTA_MAGIC" "blob ! 4 = 1" by (rule f(1), rule f(2))
  show "platform_tag (header_fields blob) = tag @ replicate (16 - length tag) 0"
    "fw_version (header_fields blob) = fw @ replicate (12 - length fw) 0" "iv (header_fields blob) = vec"
    using f(3) by simp_all
  show k: "key_section blob = wk" by (simp add: key_section_def n) (simp add: b l)
  show "signature_section blob = sig" by (simp add: signature_section_def n) (simp add: b l)
  show st: "payload_start blob = 307 + length wk" by (simp add: payload_start_def n)
  show p: "payload_section blob = ct" unfolding payload_section_def st by (simp add: b l)
  show "signed_part blob = hdr @ wk @ ct" unfolding signed_part_def k p by (simp add: b l)
qed

subsection \<open>The two readers\<close>

definition py_header_of :: "fota_header \<Rightarrow> py_header" where
  "py_header_of h =
     \<lparr>py_platform_tag = rstrip_nul (platform_tag h), py_fw_version = rstrip_nul (fw_version h),
      py_wrapped_key_len = unat (wrapped_key_len h), py_iv = iv h\<rparr>"

lemma rstrip_nul_set: "set (rstrip_nul xs) \<union> {0} = set xs \<union> {0}"
proof -
  have "set (dropWhile (\<lambda>b. b = 0) ys) \<union> {0} = set ys \<union> {0}" for ys :: "u8 list"
    by (induction ys) auto
  then show ?thesis by (simp add: rstrip_nul_def)
qed

lemma decode_rstrip:
  "decode_ascii (rstrip_nul xs) = (if \<forall>b \<in> set xs. b < 128 then Inr (rstrip_nul xs) else Inl Not_ascii)"
proof -
  have "(\<exists>b \<in> set (rstrip_nul xs). 128 \<le> b) \<longleftrightarrow> (\<exists>b \<in> set (rstrip_nul xs) \<union> {0}. 128 \<le> b)" by auto
  also have "\<dots> \<longleftrightarrow> (\<exists>b \<in> set xs \<union> {0}. 128 \<le> b)" unfolding rstrip_nul_set ..
  finally show ?thesis by (auto simp: decode_ascii_def not_less)
qed

lemma unpacked:
  assumes "51 \<le> length d"
  shows "py_slice (py_slice d 0 51) 0 4 = take 4 d" "py_slice d 0 51 ! 4 = d ! 4"
    "py_slice (py_slice d 0 51) 5 21 = platform_tag (header_fields d)"
    "py_slice (py_slice d 0 51) 21 33 = fw_version (header_fields d)"
    "256 * unat (py_slice d 0 51 ! 33) + unat (py_slice d 0 51 ! 34) = unat (wrapped_key_len (header_fields d))"
    "py_slice (py_slice d 0 51) 35 51 = iv (header_fields d)"
  using assms by (simp_all add: py_slice_def header_fields_def drop_take unat_be16)

lemma parse_header_eq:
  "parse_header d =
    (if length d < 51 then Inl Header_truncated
     else if take 4 d \<noteq> FOTA_MAGIC then Inl Bad_magic
     else if d ! 4 \<noteq> 1 then Inl Unsupported_version
     else if ascii_fields (header_fields d) then Inr (py_header_of (header_fields d)) else Inl Not_ascii)"
proof (cases "length d < 51")
  case False
  then have "51 \<le> length d" by simp
  have "ascii_fields h \<longleftrightarrow> (\<forall>b \<in> set (platform_tag h). b < 128) \<and> (\<forall>b \<in> set (fw_version h). b < 128)" for h
    by (auto simp: ascii_fields_def)
  then show ?thesis
    using False
    by (simp add: parse_header_def header_sizes(3,7) Let_def unpacked [OF \<open>51 \<le> length d\<close>] decode_rstrip py_header_of_def)
qed (simp add: parse_header_def header_sizes(7))

lemma rstrip_nul_pad: "(xs \<noteq> [] \<Longrightarrow> last xs \<noteq> 0) \<Longrightarrow> rstrip_nul (xs @ replicate n 0) = xs"
  by (cases xs rule: rev_cases) (simp_all add: rstrip_nul_def dropWhile_append)

lemma parse_blob_eq:
  "parse_blob d =
    (case parse_header d of
       Inl e \<Rightarrow> Inl e
     | Inr h \<Rightarrow>
         if length d < payload_start d then Inl Blob_truncated
         else Inr \<lparr>blob_header = h, blob_wrapped_key = key_section d, blob_signature = signature_section d,
                  blob_payload = payload_section d, blob_signed_data = signed_part d\<rparr>)"
  by (auto simp: parse_blob_def parse_header_eq py_header_of_def header_sizes(7) SIGNATURE_SIZE_def payload_start_def
      py_slice_def key_section_def signature_section_def payload_section_def signed_part_def Let_def)

subsection \<open>Properties\<close>

text \<open>
  C28. The two readers agree: on every input the packager's reader fails as the consumer's parser does, and otherwise cuts out
  the very sections the consumer verifies, unwraps and decrypts, with the same signed bytes; the only
  blobs it refuses beyond the consumer's parser are those with a tag or version that is not ASCII and those cut short.
\<close>

theorem parse_blob_agrees:
  "parse_blob d =
    (case fota_header_parse (Some d) (length d) (Some out) of
       Some (FOTA_HEADER_OK, Some h) \<Rightarrow>
         if \<not> ascii_fields h then Inl Not_ascii
         else if length d < payload_start d then Inl Blob_truncated
         else Inr \<lparr>blob_header = py_header_of h, blob_wrapped_key = key_section d, blob_signature = signature_section d,
                  blob_payload = payload_section d, blob_signed_data = signed_part d\<rparr>
     | Some (FOTA_HEADER_ERR_TRUNCATED, _) \<Rightarrow> Inl Header_truncated
     | Some (FOTA_HEADER_ERR_BAD_MAGIC, _) \<Rightarrow> Inl Bad_magic
     | _ \<Rightarrow> Inl Unsupported_version)"
  by (simp add: parse_blob_eq parse_header_eq fota_header_parse_eq)

text \<open>
  Blob round trip: what \<open>build_header\<close> and \<open>assemble\<close> write, with a tag and version that do not end in NUL,
  \<open>parse_blob\<close> takes apart into the same tag, version, IV, wrapped key, signature and payload, and the signed data are the
  header, the wrapped key and the payload.
\<close>

theorem parse_blob_inverts_assemble:
  assumes "build_header tag fw vec (int (length wk)) = Inr hdr" and "assemble hdr wk sig ct = Inr blob"
    and "tag \<noteq> [] \<longrightarrow> last tag \<noteq> 0" and "fw \<noteq> [] \<longrightarrow> last fw \<noteq> 0"
  shows "parse_blob blob =
    Inr \<lparr>blob_header = \<lparr>py_platform_tag = tag, py_fw_version = fw, py_wrapped_key_len = length wk, py_iv = vec\<rparr>,
         blob_wrapped_key = wk, blob_signature = sig, blob_payload = ct, blob_signed_data = hdr @ wk @ ct\<rparr>"
proof -
  note l = blob_layout [OF assms(1,2)]
  have "ascii_fields (header_fields blob)" using assms(1) l(4,5) by (auto simp: build_header_Inr ascii_fields_def)
  then show ?thesis
    using assms(3,4) l by (simp add: parse_blob_eq parse_header_eq py_header_of_def rstrip_nul_pad)
qed

theorem parse_blob_inverts_assemble_witness:
  "\<exists>blob. assemble sample_header (replicate 256 1) (replicate 256 2) [3, 4] = Inr blob \<and>
    parse_blob blob =
      Inr \<lparr>blob_header = \<lparr>py_platform_tag = ascii ''GENERIC'', py_fw_version = ascii ''1.2.3.4'',
             py_wrapped_key_len = 256, py_iv = replicate 16 7\<rparr>,
           blob_wrapped_key = replicate 256 1, blob_signature = replicate 256 2, blob_payload = [3, 4],
           blob_signed_data = sample_header @ replicate 256 1 @ [3, 4]\<rparr>"
proof -
  have h: "build_header (ascii ''GENERIC'') (ascii ''1.2.3.4'') (replicate 16 7)
     (int (length (replicate 256 (1 :: u8)))) = Inr sample_header" by code_simp
  obtain blob where a: "assemble sample_header (replicate 256 1) (replicate 256 2) [3, 4] = Inr blob"
    using length_build_header [OF h] by (simp add: assemble_def header_sizes(7) SIGNATURE_SIZE_def)
  show ?thesis using parse_blob_inverts_assemble [OF h a] a by (simp add: ascii_def)
qed

end
