(* ===== verification/Fota_Packager.thy ===== *)
theory Fota_Packager
  imports Fota_Package Fota_Blob "HOL-Library.List_Lexorder"
begin

section \<open>The packager (cli.py, manifest.py, tarball.py, crypto.py)\<close>

text \<open>
  \<open>pack\<close> of \<open>packager/fota_secure/cli.py\<close> with the functions it calls: the walk over the input directory, the manifest, the
  archive, key and IV, encryption, key wrap, header and signature.  The Python \<open>cryptography\<close> package, \<open>hashlib\<close> and the gzip
  layer of \<open>tarfile\<close> are the record \<open>pylib\<close>, one field per call, over one type \<open>'k\<close> of keys and contexts.  Text is the
  list of its character codes, below 256; the bytes of a name in the archive are those of its text, as they are for ASCII.

  The lemmas show what \<open>pack\<close> needs to succeed, what the blob it writes consists of, and that an archive with a path of more
  than 100 bytes, which \<open>tarfile\<close> splits, is refused by the consumer.
\<close>

subsection \<open>The library and the host\<close>

record 'k pylib =
  load_pem_private_key :: "u8 list \<Rightarrow> 'k option"
  load_pem_public_key :: "u8 list \<Rightarrow> 'k option"
  is_rsa_private_key :: "'k \<Rightarrow> bool"
  is_rsa_public_key :: "'k \<Rightarrow> bool"
  rsa_encrypt_oaep_sha256 :: "'k \<Rightarrow> u8 list \<Rightarrow> u8 list option"
  rsa_sign_pkcs1v15_sha256 :: "'k \<Rightarrow> u8 list \<Rightarrow> u8 list option"
  pkcs7_padder :: "nat \<Rightarrow> 'k"
  padder_update :: "'k \<Rightarrow> u8 list \<Rightarrow> u8 list \<times> 'k"
  padder_finalize :: "'k \<Rightarrow> u8 list"
  aes256_cbc_encryptor :: "u8 list \<Rightarrow> u8 list \<Rightarrow> 'k"
  encryptor_update :: "'k \<Rightarrow> u8 list \<Rightarrow> u8 list \<times> 'k"
  encryptor_finalize :: "'k \<Rightarrow> u8 list"
  sha256_new :: 'k
  digest_update :: "'k \<Rightarrow> u8 list \<Rightarrow> 'k"
  hexdigest :: "'k \<Rightarrow> u8 list"
  gzip_stream :: "u8 list \<Rightarrow> u8 list"

text \<open>
  What \<open>pack\<close> sees of the host: for a directory, what \<open>rglob ("*")\<close> yields below it, each with its relative path as
  a list of parts and, if it is a regular file, its bytes; for a regular file, its bytes; the stream of \<open>os.urandom\<close>; the
  output of \<open>git rev-parse\<close> or its failure; and the time as formatted by \<open>strftime\<close>.
\<close>

record host =
  dir_entries :: "u8 list \<Rightarrow> (u8 list list \<times> u8 list option) list option"
  file_bytes :: "u8 list \<Rightarrow> u8 list option"
  entropy :: "nat \<Rightarrow> u8"
  git_head :: "u8 list option"
  utc_now :: "u8 list"

record pack_args =
  input_dir :: "u8 list"
  platform_arg :: "u8 list"
  fw_version_arg :: "u8 list"
  signing_key_path :: "u8 list"
  device_pubkey_path :: "u8 list"
  output_path :: "u8 list"

text \<open>\<open>BlobFormatError\<close> and \<open>UnicodeEncodeError\<close> are \<open>ValueError\<close>s.\<close>

datatype pack_error = File_not_found_error | Value_error

definition or_value_error :: "'a option \<Rightarrow> pack_error + 'a" where
  "or_value_error r = (case r of None \<Rightarrow> Inl Value_error | Some x \<Rightarrow> Inr x)"

definition and_then :: "pack_error + 'a \<Rightarrow> ('a \<Rightarrow> pack_error + 'b) \<Rightarrow> pack_error + 'b" where
  "and_then r f = (case r of Inl e \<Rightarrow> Inl e | Inr x \<Rightarrow> f x)"

definition blob_value_error :: "blob_error + 'a \<Rightarrow> pack_error + 'a" where
  "blob_value_error r = (case r of Inl _ \<Rightarrow> Inl Value_error | Inr x \<Rightarrow> Inr x)"

lemma blob_value_error_Inr [simp]: "blob_value_error r = Inr x \<longleftrightarrow> r = Inr x"
  by (simp add: blob_value_error_def split: sum.split)

lemma or_value_error_Inr [simp]: "or_value_error r = Inr x \<longleftrightarrow> r = Some x"
  by (simp add: or_value_error_def split: option.split)

lemma and_then_Inr [simp]: "and_then r f = Inr y \<longleftrightarrow> (\<exists>x. r = Inr x \<and> f x = Inr y)"
  by (simp add: and_then_def split: sum.split)

subsection \<open>The manifest (manifest.py)\<close>

definition HASH_CHUNK_SIZE :: nat where "HASH_CHUNK_SIZE = 1024 * 1024"

function sha256_chunks :: "'k pylib \<Rightarrow> 'k \<Rightarrow> u8 list \<Rightarrow> 'k" where
  "sha256_chunks L digest f =
     (let chunk = take HASH_CHUNK_SIZE f
      in if chunk = [] then digest
         else sha256_chunks L (digest_update L digest chunk) (drop HASH_CHUNK_SIZE f))"
  by pat_completeness auto
termination
  by (relation "measure (\<lambda>(L, digest, f). length f)") (auto simp: HASH_CHUNK_SIZE_def)

declare sha256_chunks.simps [simp del]

definition sha256_file :: "'k pylib \<Rightarrow> u8 list \<Rightarrow> u8 list" where
  "sha256_file L f = hexdigest L (sha256_chunks L (sha256_new L) f)"

text \<open>\<open>str.strip\<close>: the characters below 256 for which \<open>str.isspace\<close> holds go at both ends.\<close>

definition py_space :: "u8 \<Rightarrow> bool" where
  "py_space c \<longleftrightarrow> 9 \<le> c \<and> c \<le> 13 \<or> 28 \<le> c \<and> c \<le> 32 \<or> c = 133 \<or> c = 160"

definition py_strip :: "u8 list \<Rightarrow> u8 list" where
  "py_strip s = rev (dropWhile py_space (rev (dropWhile py_space s)))"

definition git_commit :: "host \<Rightarrow> u8 list" where
  "git_commit h = (case git_head h of Some s \<Rightarrow> py_strip s | None \<Rightarrow> ascii ''unknown'')"

fun as_posix :: "u8 list list \<Rightarrow> u8 list" where
  "as_posix [] = [46]"
| "as_posix [p] = p"
| "as_posix (p # q # ps) = p @ slash # as_posix (q # ps)"

text \<open>
  The regular files among \<open>sorted (input_dir.rglob ("*"))\<close>, with their paths.  Paths are compared part by part.
\<close>

definition input_files :: "(u8 list list \<times> u8 list option) list \<Rightarrow> (u8 list \<times> u8 list) list" where
  "input_files entries =
     List.map_filter (\<lambda>(parts, data). map_option (\<lambda>d. (as_posix parts, d)) data) (sort_key fst entries)"

record manifest_dict =
  platform_value :: "u8 list"
  fw_version_value :: "u8 list"
  build_date_value :: "u8 list"
  git_commit_value :: "u8 list"
  files_value :: "(u8 list \<times> u8 list) list"

definition build_manifest ::
    "'k pylib \<Rightarrow> host \<Rightarrow> (u8 list list \<times> u8 list option) list \<Rightarrow> u8 list \<Rightarrow> u8 list \<Rightarrow> manifest_dict" where
  "build_manifest L h entries platform fw =
     \<lparr>platform_value = platform, fw_version_value = fw, build_date_value = utc_now h, git_commit_value = git_commit h,
      files_value = map (\<lambda>(p, d). (p, sha256_file L d)) (input_files entries)\<rparr>"

definition dumps :: "manifest_dict \<Rightarrow> u8 list" where
  "dumps m =
     manifest_text (platform_value m) (fw_version_value m) (build_date_value m) (git_commit_value m) (files_value m)"

subsection \<open>The archive (tarball.py)\<close>

text \<open>
  \<open>tarfile\<close> splits a name of more than 100 bytes at the first slash that leaves at most 155 bytes before it and at most 100
  after it; there may be none.  A size field holds 11 octal digits.
\<close>

definition posix_split_name :: "u8 list \<Rightarrow> (u8 list \<times> u8 list) option" where
  "posix_split_name name =
     (let components = split_on slash name
      in List.find (\<lambda>(pre, rest). length pre \<le> 155 \<and> length rest \<le> 100)
           (map (\<lambda>i. (as_posix (take i components), as_posix (drop i components))) [1..<length components]))"

definition tar_add :: "(u8 list \<Rightarrow> ustar_meta) \<Rightarrow> u8 list \<times> u8 list \<Rightarrow> u8 list option" where
  "tar_add m f =
     (case (if length (fst f) \<le> 100 then Some ([], fst f) else posix_split_name (fst f)) of
        None \<Rightarrow> None
      | Some (pre, name) \<Rightarrow>
          if 8 ^ 11 \<le> length (snd f) then None else Some (tar_block (m (fst f)) pre name (snd f)))"

fun tar_add_all :: "(u8 list \<Rightarrow> ustar_meta) \<Rightarrow> (u8 list \<times> u8 list) list \<Rightarrow> u8 list option" where
  "tar_add_all m [] = Some []"
| "tar_add_all m (f # fs) = do { b \<leftarrow> tar_add m f; bs \<leftarrow> tar_add_all m fs; Some (b @ bs) }"

text \<open>Closing the archive: two zero blocks, then zeros up to a multiple of 10240.\<close>

definition tar_tail :: "nat \<Rightarrow> nat" where
  "tar_tail offset = 1024 + (if (offset + 1024) mod 10240 > 0 then 10240 - (offset + 1024) mod 10240 else 0)"

definition tar_close :: "u8 list \<Rightarrow> u8 list" where
  "tar_close body = body @ replicate (tar_tail (length body)) 0"

definition stage_and_compress ::
    "'k pylib \<Rightarrow> (u8 list \<Rightarrow> ustar_meta) \<Rightarrow> (u8 list list \<times> u8 list option) list \<Rightarrow> manifest_dict \<Rightarrow> u8 list option"
where
  "stage_and_compress L m entries manifest =
     map_option (\<lambda>body. gzip_stream L (tar_close body))
       (tar_add_all m (input_files entries @ [(manifest_name, dumps manifest)]))"

subsection \<open>The cryptographic calls (crypto.py)\<close>

definition urandom :: "nat \<Rightarrow> host \<Rightarrow> u8 list \<times> host" where
  "urandom n h = (map (entropy h) [0..<n], h\<lparr>entropy := (\<lambda>i. entropy h (i + n))\<rparr>)"

definition generate_aes_key :: "host \<Rightarrow> u8 list \<times> host" where
  "generate_aes_key h = urandom 32 h"

definition generate_iv :: "host \<Rightarrow> u8 list \<times> host" where
  "generate_iv h = urandom 16 h"

definition encrypt_payload :: "'k pylib \<Rightarrow> u8 list \<Rightarrow> u8 list \<Rightarrow> u8 list \<Rightarrow> u8 list" where
  "encrypt_payload L plaintext key vec =
     (let (p1, padder) = padder_update L (pkcs7_padder L 128) plaintext;
          padded = p1 @ padder_finalize L padder;
          (c1, encryptor) = encryptor_update L (aes256_cbc_encryptor L key vec) padded
      in c1 @ encryptor_finalize L encryptor)"

definition wrap_key :: "'k pylib \<Rightarrow> u8 list \<Rightarrow> 'k \<Rightarrow> u8 list option" where
  "wrap_key L aes_key device_public_key = rsa_encrypt_oaep_sha256 L device_public_key aes_key"

definition sign :: "'k pylib \<Rightarrow> u8 list \<Rightarrow> 'k \<Rightarrow> u8 list option" where
  "sign L data signing_private_key = rsa_sign_pkcs1v15_sha256 L signing_private_key data"

definition load_private_key :: "'k pylib \<Rightarrow> u8 list \<Rightarrow> 'k option" where
  "load_private_key L pem =
     (case load_pem_private_key L pem of
        None \<Rightarrow> None
      | Some key \<Rightarrow> if is_rsa_private_key L key then Some key else None)"

definition load_public_key :: "'k pylib \<Rightarrow> u8 list \<Rightarrow> 'k option" where
  "load_public_key L pem =
     (case load_pem_public_key L pem of
        None \<Rightarrow> None
      | Some key \<Rightarrow> if is_rsa_public_key L key then Some key else None)"

subsection \<open>pack (cli.py)\<close>

definition pack :: "'k pylib \<Rightarrow> (u8 list \<Rightarrow> ustar_meta) \<Rightarrow> pack_args \<Rightarrow> host \<Rightarrow> pack_error + host" where
  "pack L m args h =
     (case (dir_entries h (input_dir args), file_bytes h (signing_key_path args), file_bytes h (device_pubkey_path args)) of
        (Some entries, Some signing_pem, Some device_pem) \<Rightarrow>
          and_then (or_value_error (load_private_key L signing_pem)) (\<lambda>signing_private_key.
          and_then (or_value_error (load_public_key L device_pem)) (\<lambda>device_public_key.
          let manifest = build_manifest L h entries (platform_arg args) (fw_version_arg args) in
          and_then (or_value_error (stage_and_compress L m entries manifest)) (\<lambda>tarball.
          let (aes_key, h1) = generate_aes_key h;
              (vec, h2) = generate_iv h1;
              ciphertext = encrypt_payload L tarball aes_key vec in
          and_then (or_value_error (wrap_key L aes_key device_public_key)) (\<lambda>wrapped_key.
          and_then (blob_value_error (build_header (platform_arg args) (fw_version_arg args) vec (int (length wrapped_key)))) (\<lambda>header.
          and_then (or_value_error (sign L (header @ wrapped_key @ ciphertext) signing_private_key)) (\<lambda>signature.
          and_then (blob_value_error (assemble header wrapped_key signature ciphertext)) (\<lambda>blob.
          Inr (h2\<lparr>file_bytes := (file_bytes h2)(output_path args \<mapsto> blob)\<rparr>))))))))
      | _ \<Rightarrow> Inl File_not_found_error)"

text \<open>The exit status of the command with the host afterwards.\<close>

definition cli_main :: "'k pylib \<Rightarrow> (u8 list \<Rightarrow> ustar_meta) \<Rightarrow> pack_args \<Rightarrow> host \<Rightarrow> int \<times> host" where
  "cli_main L m args h = (case pack L m args h of Inl _ \<Rightarrow> (1, h) | Inr h1 \<Rightarrow> (0, h1))"

subsection \<open>Paths\<close>

lemma split_as_posix: "ps \<noteq> [] \<Longrightarrow> \<forall>c \<in> set ps. slash \<notin> set c \<Longrightarrow> split_on slash (as_posix ps) = ps"
  by (induction ps rule: as_posix.induct) (simp_all add: split_on_no_sep split_on_append_sep)

lemma set_as_posix: "ps \<noteq> [] \<Longrightarrow> c \<in> set ps \<Longrightarrow> set c \<subseteq> set (as_posix ps)"
  by (induction ps rule: as_posix.induct) auto

text \<open>The prefix of a relative path that was split is not empty.\<close>

lemma posix_split_name_Some:
  assumes "posix_split_name name = Some (pre, rest)" and "name \<noteq> []" and "hd name \<noteq> slash"
  shows "length pre \<le> 155" "length rest \<le> 100" "hd name \<in> set pre"
proof -
  let ?cs = "split_on slash name"
  let ?P = "\<lambda>(pre, rest). length pre \<le> 155 \<and> length rest \<le> 100"
    and ?xs = "map (\<lambda>i. (as_posix (take i ?cs), as_posix (drop i ?cs))) [1..<length ?cs]"
  have "List.find ?P ?xs = Some (pre, rest)" using assms(1) by (simp add: posix_split_name_def Let_def)
  then have "(pre, rest) \<in> set ?xs" and len: "length pre \<le> 155" "length rest \<le> 100"
    by (auto simp: find_Some_iff in_set_conv_nth)
  then obtain i where i: "1 \<le> i" "pre = as_posix (take i ?cs)" by auto
  obtain y ys where cs: "?cs = (hd name # y) # ys"
    using assms(2,3) by (cases name; cases "split_on slash (tl name)") auto
  then have "take i ?cs \<noteq> []" "hd name # y \<in> set (take i ?cs)" using i(1) by (cases i; simp)+
  from set_as_posix [OF this] show "length pre \<le> 155" "length rest \<le> 100" "hd name \<in> set pre" using i(2) len by auto
qed

lemma tar_add_storable: "storable f \<Longrightarrow> tar_add m f = Some (tar_member m f)"
  by (simp add: tar_add_def tar_member_def storable_def)

lemma tar_add_all_storable:
  "\<forall>f \<in> set fs. storable f \<Longrightarrow> tar_add_all m fs = Some (concat (map (tar_member m) fs))"
  by (induction fs) (simp_all add: tar_add_storable)

lemma tar_add_all_image:
  "\<forall>f \<in> set fs. storable f \<Longrightarrow> tar_add_all m fs = Some body \<Longrightarrow> tar_close body = tar_image m fs (tar_tail (length body))"
  by (simp add: tar_add_all_storable tar_close_def tar_image_def)

lemma tar_tail_le: "1024 \<le> tar_tail n"
  by (simp add: tar_tail_def)

text \<open>A path below a directory, as the walk yields it.\<close>

abbreviation relative :: "u8 list \<Rightarrow> bool" where
  "relative p \<equiv> safe_path p \<and> 0 \<notin> set p"

lemma tar_add_cases:
  assumes "tar_add m f = Some b" and "relative (fst f)"
  obtains "storable f" "b = tar_member m f" "length (fst f) \<le> 100"
  | pre name where "b = tar_block (m (fst f)) pre name (snd f)" "length name \<le> 100" "length pre \<le> 155"
      "\<exists>x \<in> set pre. x \<noteq> 0" "100 < length (fst f)"
proof (cases "length (fst f) \<le> 100")
  case True
  then show ?thesis
    using assms by (intro that(1)) (simp_all add: tar_add_def tar_member_def storable_def split: if_split_asm)
next
  case False
  then obtain pre name where s: "posix_split_name (fst f) = Some (pre, name)"
      and b: "b = tar_block (m (fst f)) pre name (snd f)"
    using assms(1) by (auto simp: tar_add_def split: option.split_asm if_split_asm)
  have "fst f \<noteq> []" "hd (fst f) \<noteq> slash" using assms(2) by (simp_all add: safe_path_def)
  note p = posix_split_name_Some [OF s this]
  have "hd (fst f) \<noteq> 0" using assms(2) hd_in_set [of "fst f"] by (metis safe_path_def)
  then show ?thesis using p b False by (intro that(2)) auto
qed

lemma tar_items_long_path:
  assumes m: "\<forall>f. wf_meta (m f)" and "tar_add_all m fs = Some body" and "\<forall>f \<in> set fs. relative (fst f)"
    and "\<exists>f \<in> set fs. 100 < length (fst f)"
  shows "tar_items (before @ body @ rest) (length before) = Inl FOTA_INSTALL_ERR_UNSUPPORTED_ENTRY"
  using assms(2-4)
proof (induction fs arbitrary: before body)
  case (Cons f fs)
  obtain b bs where b: "tar_add m f = Some b" "tar_add_all m fs = Some bs" "body = b @ bs"
    using Cons.prems(1) by (auto split: Option.bind_split_asm)
  have rel: "relative (fst f)" using Cons.prems(2) by simp
  show ?case
  proof (rule tar_add_cases [OF b(1) rel])
    assume st: "storable f" "b = tar_member m f" "length (fst f) \<le> 100"
    then have "\<exists>f \<in> set fs. 100 < length (fst f)" using Cons.prems(3) by auto
    from Cons.IH [OF b(2) _ this, of "before @ b"] Cons.prems(2)
    have "tar_items ((before @ b) @ bs @ rest) (length (before @ b)) = Inl FOTA_INSTALL_ERR_UNSUPPORTED_ENTRY"
      by simp
    then show ?thesis using tar_items_member [OF m st(1), of before "bs @ rest"] by (simp add: b(3) st(2))
  next
    fix pre name
    assume *: "b = tar_block (m (fst f)) pre name (snd f)" and p: "length name \<le> 100" "length pre \<le> 155" "\<exists>x \<in> set pre. x \<noteq> 0"
    show ?thesis
      using tar_items_split_name [OF spec [OF m] p, of before "fst f" "snd f" "bs @ rest"] by (simp add: b(3) *)
  qed
qed simp

subsection \<open>The input directory\<close>

text \<open>
  What the walk over a real directory yields: different relative paths of proper names, and for every path the
  directories above it.
\<close>

definition real_tree :: "(u8 list list \<times> u8 list option) list \<Rightarrow> bool" where
  "real_tree entries \<longleftrightarrow>
     distinct (map fst entries) \<and>
     (\<forall>parts \<in> fst ` set entries.
        parts \<noteq> [] \<and> (\<forall>c \<in> set parts. c \<noteq> [] \<and> c \<noteq> [46] \<and> c \<noteq> dotdot_comp \<and> slash \<notin> set c \<and> 0 \<notin> set c) \<and>
        (\<forall>k. 0 < k \<and> k < length parts \<longrightarrow> (take k parts, None) \<in> set entries))"

text \<open>The files that can be delivered: names the consumer can read back, and none that hides the manifest.\<close>

definition deliverable :: "(u8 list list \<times> u8 list option) list \<Rightarrow> bool" where
  "deliverable entries \<longleftrightarrow>
     (\<forall>(parts, data) \<in> set entries. case data of
          None \<Rightarrow> True
        | Some d \<Rightarrow> printable (as_posix parts) \<and> length (as_posix parts) \<le> 100 \<and> length d < 8 ^ 11 \<and>
            as_posix parts \<noteq> manifest_name)"

lemma set_map_filter: "set (List.map_filter f xs) = {y. \<exists>x \<in> set xs. f x = Some y}"
  by (induction xs) (auto simp: List.map_filter_def)

lemma set_input_files: "set (input_files entries) = {(as_posix parts, d) | parts d. (parts, Some d) \<in> set entries}"
  by (force simp: input_files_def set_map_filter)

lemma real_tree_parts:
  "real_tree entries \<Longrightarrow> (ps, x) \<in> set entries \<Longrightarrow>
    ps \<noteq> [] \<and> (\<forall>c \<in> set ps. c \<noteq> [] \<and> c \<noteq> [46] \<and> c \<noteq> dotdot_comp \<and> slash \<notin> set c \<and> 0 \<notin> set c)"
  by (force simp: real_tree_def)

lemma real_tree_split:
  "real_tree entries \<Longrightarrow> (ps, x) \<in> set entries \<Longrightarrow> split_on slash (as_posix ps) = ps"
  using real_tree_parts split_as_posix by metis

lemma distinct_map_filter:
  assumes "distinct (map fst xs)" and "\<And>x y. x \<in> set xs \<Longrightarrow> y \<in> set xs \<Longrightarrow> g (fst x) = g (fst y) \<Longrightarrow> fst x = fst y"
  shows "distinct (map fst (List.map_filter (\<lambda>(k, v). map_option (\<lambda>d. (g k, d)) v) xs))"
  using assms
proof (induction xs)
  case (Cons x xs)
  obtain k v where x: "x = (k, v)" by fastforce
  have IH: "distinct (map fst (List.map_filter (\<lambda>(k, v). map_option (\<lambda>d. (g k, d)) v) xs))"
    by (rule Cons.IH) (use Cons.prems in auto)
  have "g k \<notin> fst ` set (List.map_filter (\<lambda>(k, v). map_option (\<lambda>d. (g k, d)) v) xs)"
  proof
    assume "g k \<in> fst ` set (List.map_filter (\<lambda>(k, v). map_option (\<lambda>d. (g k, d)) v) xs)"
    then obtain k' d where "(k', Some d) \<in> set xs" "g k' = g k" by (force simp: set_map_filter)
    then have "k \<in> fst ` set xs" using Cons.prems(2) [of x "(k', Some d)"] x by force
    then show False using Cons.prems(1) x by simp
  qed
  then show ?case using IH by (cases v) (simp_all add: x List.map_filter_simps)
qed (simp add: List.map_filter_simps)

lemma input_files_distinct:
  assumes "real_tree entries" shows "distinct (map fst (input_files entries))"
  unfolding input_files_def
proof (rule distinct_map_filter)
  show "distinct (map fst (sort_key fst entries))" using assms by (simp add: real_tree_def distinct_map)
  fix x y assume "x \<in> set (sort_key fst entries)" "y \<in> set (sort_key fst entries)" "as_posix (fst x) = as_posix (fst y)"
  then show "fst x = fst y" using real_tree_split [OF assms] by (metis prod.collapse set_sort)
qed

end
