(* ===== verification/Fota_Install_Total.thy ===== *)
theory Fota_Install_Total
  imports Fota_Installer_Props
begin

section \<open>Installation succeeds on a device with room\<close>

text \<open>
  The other direction of the installer's properties: when no write fails, no file stands where a directory is needed and
  no directory where a file is needed, \<open>fota_installer_extract\<close> installs every accepted archive with plain paths.
\<close>

subsection \<open>Plain paths\<close>

text \<open>A component that the kernel takes literally; what the packager's \<open>as_posix\<close> writes has no other.\<close>

definition plain_comp :: "u8 list \<Rightarrow> bool" where
  "plain_comp c \<longleftrightarrow> c \<noteq> [] \<and> c \<noteq> dot_comp \<and> c \<noteq> dotdot_comp"

abbreviation comps :: "u8 list \<Rightarrow> loc" where
  "comps \<equiv> split_on slash"

definition plain_path :: "u8 list \<Rightarrow> bool" where
  "plain_path p \<longleftrightarrow> (\<forall>c \<in> set (comps p). plain_comp c)"

lemma walk_plain:
  assumes "\<forall>c \<in> set cs. plain_comp c"
  shows "walk ds cs here = (if \<forall>k < length cs. ds (here @ take k cs) then Some (here @ cs) else None)"
  using assms
proof (induction cs arbitrary: here)
  case (Cons c cs)
  have "(\<forall>k < length (c # cs). ds (here @ take k (c # cs))) \<longleftrightarrow>
      ds here \<and> (\<forall>k < length cs. ds ((here @ [c]) @ take k cs))"
    by (auto simp: less_Suc_eq_0_disj)
  then show ?case using Cons by (simp add: plain_comp_def)
qed simp

lemma resolve_child:
  assumes "b \<noteq> []" and "resolve w b = Some here"
  shows "resolve w (b @ slash # q) = walk (dirs w) (comps q) here"
  using assms by (auto simp: resolve_def split_on_sep_append walk_append)

lemma strchr_from_hit:
  "c \<notin> set s \<Longrightarrow> strchr_from (x @ s @ c # y) c (length x) = Some (length x + length s)"
proof (induction s arbitrary: x)
  case (Cons a s)
  then show ?case using Cons.IH [of "x @ [a]"] by (subst strchr_from.simps) (auto simp: nth_append)
qed (simp add: strchr_from.simps)

lemma strchr_from_miss: "c \<notin> set s \<Longrightarrow> strchr_from (x @ s) c (length x) = None"
proof (induction s arbitrary: x)
  case (Cons a s)
  then show ?case using Cons.IH [of "x @ [a]"] by (subst strchr_from.simps) (auto simp: nth_append)
qed (simp add: strchr_from.simps)

subsection \<open>A device without faults\<close>

definition no_faults :: "world \<Rightarrow> bool" where
  "no_faults w \<longleftrightarrow> (\<forall>l. \<not> no_write w l \<and> write_stop w l = None \<and> \<not> close_fails w l)"

lemma no_faults_installs: "installs root w w' \<Longrightarrow> no_faults w' = no_faults w"
  by (simp add: no_faults_def installs_def)

text \<open>The proper prefixes of a path, as places below \<open>here\<close>.\<close>

definition parents :: "loc \<Rightarrow> loc \<Rightarrow> loc set" where
  "parents here cs = {here @ take k cs | k. 0 < k \<and> k < length cs}"

lemma parents_Nil [simp]: "parents here [c] = {}"
  by (auto simp: parents_def)

lemma parents_Cons: "cs \<noteq> [] \<Longrightarrow> parents here (c # cs) = insert (here @ [c]) (parents (here @ [c]) cs)"
proof -
  assume "cs \<noteq> []"
  have "0 < n \<and> n < length (c # cs) \<longleftrightarrow> (\<exists>k. n = Suc k \<and> k < length cs)" for n by (cases n) auto
  then have "parents here (c # cs) = {here @ take n (c # cs) | n. \<exists>k. n = Suc k \<and> k < length cs}"
    unfolding parents_def by presburger
  also have "\<dots> = {here @ take (Suc k) (c # cs) | k. k < length cs}" by blast
  also have "\<dots> = {(here @ [c]) @ take k cs | k. k < length cs}" by simp
  also have "\<dots> = insert (here @ [c]) (parents (here @ [c]) cs)"
    using \<open>cs \<noteq> []\<close> by (auto simp: parents_def intro: exI [of _ 0])
  finally show ?thesis .
qed

lemma mkdir_total:
  assumes "resolve w p = Some (here @ [c])" and "no_faults w" and "dirs w here" and "files w (here @ [c]) = None"
  shows "\<exists>r w'. mkdir p w = (r, w') \<and> r \<noteq> Mkdir_error \<and> files w' = files w \<and> cwd w' = cwd w \<and>
    no_faults w' \<and> dirs w' = (\<lambda>l. dirs w l \<or> l = here @ [c])"
  using assms by (auto simp: mkdir_def no_faults_def emit_def fun_eq_iff)

lemma mkdir_loop_total:
  assumes "b \<noteq> []" and "resolve w b = Some here" and "dirs w here" and "no_faults w" and "plain_path q"
    and "\<forall>l \<in> parents here (comps q). files w l = None"
  shows "\<exists>w'. mkdir_loop (b @ slash # q) (Suc (length b)) w = (True, w') \<and> files w' = files w \<and> cwd w' = cwd w \<and>
    no_faults w' \<and> dirs w' = (\<lambda>l. dirs w l \<or> l \<in> parents here (comps q))"
  using assms
proof (induction "length q" arbitrary: b here w q rule: less_induct)
  case less
  show ?case
  proof (cases "slash \<in> set q")
    case False
    have "strchr_from (b @ slash # q) slash (Suc (length b)) = None"
      using strchr_from_miss [OF False, of "b @ [slash]"] by simp
    then show ?thesis using less.prems False
      by (subst mkdir_loop.simps) (simp add: split_on_no_sep fun_eq_iff)
  next
    case True
    then obtain c q' where q: "q = c @ slash # q'" "slash \<notin> set c" by (meson split_list_first)
    then have cs: "comps q = c # comps q'" by (simp add: split_on_append_sep)
    note par = parents_Cons [OF split_on_not_Nil, of here c slash q', folded cs]
    have plain: "plain_comp c" "plain_path q'" using less.prems(5) cs by (simp_all add: plain_path_def)
    have hit: "strchr_from (b @ slash # q) slash (Suc (length b)) = Some (Suc (length b) + length c)"
      using strchr_from_hit [OF q(2), of "b @ [slash]" q'] q(1) by simp
    let ?b = "b @ slash # c"
    have walk1: "walk ds [c] here = Some (here @ [c])" if "ds here" for ds
      using that plain(1) by (simp add: plain_comp_def)
    have "resolve w ?b = Some (here @ [c])"
      unfolding resolve_child [OF less.prems(1,2)] split_on_no_sep [OF q(2)] by (rule walk1) (rule less.prems(3))
    moreover have "files w (here @ [c]) = None" using less.prems(6) par by simp
    ultimately obtain r w1 where m: "mkdir ?b w = (r, w1)" "r \<noteq> Mkdir_error" "files w1 = files w" "cwd w1 = cwd w"
        "no_faults w1" "dirs w1 = (\<lambda>l. dirs w l \<or> l = here @ [c])"
      using mkdir_total [of w ?b here c] less.prems(3,4) by blast
    have r1: "resolve w1 b = Some here"
      using resolve_mono [of w w1 b here] m(4,6) less.prems(2) by simp
    have "resolve w1 ?b = Some (here @ [c])"
      unfolding resolve_child [OF less.prems(1) r1] split_on_no_sep [OF q(2)] using less.prems(3) m(6)
      by (intro walk1) simp
    moreover have "\<forall>l \<in> parents (here @ [c]) (comps q'). files w1 l = None" using less.prems(6) par m(3) by simp
    moreover have "?b \<noteq> []" "length q' < length q" "dirs w1 (here @ [c])" using q(1) m(6) by simp_all
    ultimately obtain w' where w': "mkdir_loop (?b @ slash # q') (Suc (length ?b)) w1 = (True, w')" "files w' = files w1"
        "cwd w' = cwd w1" "no_faults w'" "dirs w' = (\<lambda>l. dirs w1 l \<or> l \<in> parents (here @ [c]) (comps q'))"
      using less.hyps [of q' ?b w1 "here @ [c]"] m(5) plain(2) by blast
    have "take (Suc (length b) + length c) (b @ slash # q) = ?b" using q(1) by simp
    then have "mkdir_loop (b @ slash # q) (Suc (length b)) w = (True, w')"
      using hit m(1,2) w'(1) q(1) by (subst mkdir_loop.simps) simp
    then show ?thesis using w' m par by (auto simp: fun_eq_iff)
  qed
qed

subsection \<open>Writing the entries\<close>

text \<open>
  \<open>room\<close>: no file where the paths need a directory, no directory where they need a file.  \<open>compatible\<close>: no path runs
  through another one.
\<close>

definition room :: "world \<Rightarrow> loc \<Rightarrow> u8 list set \<Rightarrow> bool" where
  "room w root ps \<longleftrightarrow> (\<forall>p \<in> ps. (\<forall>l \<in> parents root (comps p). files w l = None) \<and> \<not> dirs w (root @ comps p))"

definition compatible :: "u8 list set \<Rightarrow> bool" where
  "compatible ps \<longleftrightarrow> (\<forall>p \<in> ps. \<forall>q \<in> ps. \<not> strict_prefix (comps p) (comps q))"

lemma parents_strict_prefix: "root @ cs \<in> parents root ds \<longleftrightarrow> cs \<noteq> [] \<and> strict_prefix cs ds"
proof
  assume "root @ cs \<in> parents root ds"
  then obtain k where "cs = take k ds" "0 < k" "k < length ds" by (auto simp: parents_def)
  then show "cs \<noteq> [] \<and> strict_prefix cs ds" by (auto simp: strict_prefix_def take_is_prefix)
next
  assume "cs \<noteq> [] \<and> strict_prefix cs ds"
  then have "cs = take (length cs) ds" "0 < length cs" "length cs < length ds"
    by (auto simp: strict_prefix_def prefix_def)
  then show "root @ cs \<in> parents root ds" unfolding parents_def by (intro CollectI exI [of _ "length cs"]) simp
qed

lemma put_file_total:
  assumes "resolve w p = Some l" and "no_faults w" and "\<not> dirs w l" and "dirs w (butlast l)"
  shows "\<exists>w'. put_file p d w = (True, w') \<and> files w' = (files w)(l := Some d) \<and> no_faults w' \<and> dirs w' = dirs w \<and>
    cwd w' = cwd w"
  using assms by (simp add: stdio_defs Let_def no_faults_def)

lemma write_entry_file_total:
  assumes dir: "dir \<noteq> []" "resolve w dir = Some root" "dirs w root" and nf: "no_faults w"
    and p: "plain_path (path e)" "length dir + length (path e) < 4095"
    and rd: "rd_slice tar (data_off e) (esize e) = Some d" and free: "room w root {path e}"
  shows "\<exists>w'. write_entry_file dir tar e w = Some (True, w') \<and> cwd w' = cwd w \<and> no_faults w' \<and>
    dirs w' = (\<lambda>l. dirs w l \<or> l \<in> parents root (comps (path e))) \<and>
    files w' = (files w)(root @ comps (path e) := Some d)"
proof -
  let ?cs = "comps (path e)" and ?s = "dir @ slash # path e"
  have full: "make_full_path dir (path e) = Some ?s"
    using p(2) by (simp add: make_full_path_def full_path_size_def)
  have "\<forall>l \<in> parents root ?cs. files w l = None" using free by (simp add: room_def)
  from mkdir_loop_total [OF dir nf p(1) this] obtain w1
    where w1: "mkdir_loop ?s (Suc (length dir)) w = (True, w1)" "files w1 = files w" "cwd w1 = cwd w" "no_faults w1"
      "dirs w1 = (\<lambda>l. dirs w l \<or> l \<in> parents root ?cs)" by blast
  then have en: "ensure_parent_dirs dir (path e) w = (True, w1)" using full by (simp add: ensure_parent_dirs_def)
  have res1: "resolve w1 dir = Some root" using resolve_mono [of w w1 dir root] w1(3,5) dir(2) by simp
  have below: "dirs w1 (root @ take k ?cs)" if "k < length ?cs" for k
    using that dir(3) w1(5) by (cases k) (auto simp: parents_def)
  have "resolve w1 ?s = Some (root @ ?cs)"
    unfolding resolve_child [OF dir(1) res1]
    using walk_plain [of ?cs "dirs w1" root] p(1) below by (simp add: plain_path_def)
  moreover have "\<not> dirs w1 (root @ ?cs)"
    using free w1(5) parents_strict_prefix [of root ?cs ?cs] by (simp add: room_def)
  moreover have "butlast (root @ ?cs) = root @ take (length ?cs - 1) ?cs"
    by (simp add: butlast_append butlast_conv_take [of ?cs])
  then have "dirs w1 (butlast (root @ ?cs))" using below [of "length ?cs - 1"] by (simp add: length_greater_0_conv)
  ultimately obtain w' where "put_file ?s d w1 = (True, w')" "files w' = (files w1)(root @ ?cs := Some d)"
      "no_faults w'" "dirs w' = dirs w1" "cwd w' = cwd w1"
    using put_file_total [OF _ w1(4)] by metis
  then show ?thesis using full en w1 unfolding write_entry_file_eq [OF rd] by simp
qed

lemma room_after:
  assumes "room w root ps" and "p \<in> ps" and "compatible ps" and "files w' = (files w)(root @ comps p := Some d)"
    and "dirs w' = (\<lambda>l. dirs w l \<or> l \<in> parents root (comps p))"
  shows "room w' root ps"
  unfolding room_def
proof (intro ballI conjI)
  fix q l assume q: "q \<in> ps" and l: "l \<in> parents root (comps q)"
  have "l \<noteq> root @ comps p"
    using l parents_strict_prefix [of root "comps p" "comps q"] assms(2,3) q by (auto simp: compatible_def)
  then show "files w' l = None" using assms(1,4) q l by (simp add: room_def)
next
  fix q assume q: "q \<in> ps"
  then show "\<not> dirs w' (root @ comps q)"
    using assms(1-3,5) parents_strict_prefix [of root "comps q" "comps p"] by (auto simp: room_def compatible_def)
qed

abbreviation payload_paths :: "fota_tar_entry list \<Rightarrow> u8 list set" where
  "payload_paths es \<equiv> path ` set (filter is_payload_file es)"

lemma install_loop_total:
  assumes "dir \<noteq> []" and "resolve w dir = Some root" and "dirs w root" and "no_faults w"
    and "\<forall>p \<in> ps. plain_path p \<and> length dir + length p < 4095"
    and "\<forall>e \<in> set es. writable_entry tar e" and "payload_paths es \<subseteq> ps" and "compatible ps" and "room w root ps"
  shows "\<exists>w'. install_loop dir tar es w = Some (FOTA_INSTALL_OK, w') \<and> no_faults w'"
  using assms(2-4,6,7,9)
proof (induction es arbitrary: w)
  case (Cons e es)
  show ?case
  proof (cases "is_payload_file e")
    case False
    then show ?thesis using Cons.IH [of w] Cons.prems install_loop_skip [OF False] by simp
  next
    case True
    then have p: "path e \<in> ps" using Cons.prems(5) by simp
    have "room w root {path e}" using Cons.prems(6) p by (simp add: room_def)
    moreover have "rd_slice tar (data_off e) (esize e) = Some (entry_data tar e)"
      using Cons.prems(4) by (simp add: writable_entry_def)
    ultimately obtain w1 where w1: "write_entry_file dir tar e w = Some (True, w1)" "cwd w1 = cwd w" "no_faults w1"
        "dirs w1 = (\<lambda>l. dirs w l \<or> l \<in> parents root (comps (path e)))"
        "files w1 = (files w)(root @ comps (path e) := Some (entry_data tar e))"
      using write_entry_file_total [OF assms(1) Cons.prems(1-3)] assms(5) p by blast
    have "resolve w1 dir = Some root" using resolve_mono [of w w1 dir root] w1(2,4) Cons.prems(1) by simp
    moreover have "room w1 root ps" by (rule room_after [OF Cons.prems(6) p assms(8) w1(5,4)])
    moreover have "payload_paths es \<subseteq> ps" using Cons.prems(5) by auto
    ultimately show ?thesis
      using Cons.IH [of w1] Cons.prems(2,4) w1(3,4) install_loop_write [OF True w1(1), of es] by simp
  qed
qed simp

subsection \<open>The whole extraction\<close>

lemma no_faults_emit [simp]: "no_faults (emit e w) = no_faults w"
  by (simp add: no_faults_def emit_def)

lemma room_emit [simp]: "room (emit e w) root ps = room w root ps"
  by (simp add: room_def emit_def)

lemma extract_total:
  assumes acc: "archive_accepted TYPE('s::len) Z C alloc gz gz_len tar es" and wf: "wf_entries tar es"
    and dir: "dir \<noteq> []" "length dir < 3900" "resolve w dir = Some root" "dirs w root"
    and nf: "no_faults w" and plain: "\<forall>p \<in> payload_paths es. plain_path p"
    and comp: "compatible (payload_paths es)" and free: "room w root (payload_paths es)"
  shows "\<exists>w'. fota_installer_extract TYPE('s) Z C alloc (Some gz) gz_len (Some dir) w = Some (FOTA_INSTALL_OK, w') \<and>
    no_faults w'"
proof -
  have "length (path e) \<le> 100" if "e \<in> set es" for e
    using wf that by (simp add: wf_entries_def entry_ok_def)
  then have p: "\<forall>p \<in> payload_paths es. plain_path p \<and> length dir + length p < 4095"
    using plain dir(2) by fastforce
  have wr: "\<forall>e \<in> set es. writable_entry tar e" using wf_entries_writable [OF wf] by blast
  have "resolve (emit Ev_validated w) dir = Some root" "dirs (emit Ev_validated w) root"
    using dir(3,4) by simp (simp add: emit_def dir(4))
  from install_loop_total [OF dir(1) this _ p wr order_refl comp] nf free
  obtain w' where "install_loop dir tar es (emit Ev_validated w) = Some (FOTA_INSTALL_OK, w')" "no_faults w'" by auto
  then show ?thesis using acc by (auto simp: fota_installer_extract_def archive_accepted_def)
qed

end
