(* ===== verification/Fota_Main_Props.thy ===== *)
theory Fota_Main_Props
  imports Fota_Main_Spec Fota_Install_Total
begin

section \<open>Properties of the whole program\<close>

text \<open>
  What a run of \<open>main\<close> guarantees: it returns, it changes the device only for a package with a valid signature, the
  security-relevant calls come in the order of a small automaton, a successful update is recorded, and what was recorded
  blocks a later downgrade.
\<close>

subsection \<open>The outcomes of the last stage\<close>

lemma install_dir_not_Nil: "FOTA_CONFIG_INSTALL_DIR \<noteq> []"
  by (simp add: FOTA_CONFIG_INSTALL_DIR_def ascii_def)

lemma rejected_exit_code:
  "gunzip_error r \<or> tar_error r \<or> manifest_error r \<Longrightarrow>
    r \<noteq> FOTA_INSTALL_OK \<and> install_result_to_exit_code r \<noteq> FOTA_EXIT_SUCCESS"
  by (auto simp: gunzip_error_def tar_error_def manifest_error_def)

text \<open>
  \<open>Rejected\<close>: nothing was written.  \<open>Interrupted\<close>: an I/O error while writing entries.  \<open>Unrecorded\<close>: all
  entries are in place and the version file could not be written.  \<open>Recorded\<close>: success.
\<close>

lemma main_install_cases:
  assumes Z: "zlib_contract Z" and C: "digest_contract C" and W: "36 < LENGTH('s)"
  obtains (rejected) c where "main_install TYPE('s::len) Z C alloc v (Some pt) (length pt) w = Some (c, w)"
        "c \<noteq> FOTA_EXIT_SUCCESS"
    | (interrupted) w' tar es
      where "main_install TYPE('s) Z C alloc v (Some pt) (length pt) w = Some (FOTA_EXIT_GENERIC_FAILURE, w')"
        "archive_accepted TYPE('s) Z C alloc pt (length pt) tar es" "manifest_agrees C tar es"
        "extracted FOTA_CONFIG_INSTALL_DIR tar es FOTA_INSTALL_ERR_IO w w'"
    | (finished) ok w1 w' tar es
      where "main_install TYPE('s) Z C alloc v (Some pt) (length pt) w =
          Some (if ok then FOTA_EXIT_SUCCESS else FOTA_EXIT_GENERIC_FAILURE, w')"
        "archive_accepted TYPE('s) Z C alloc pt (length pt) tar es" "manifest_agrees C tar es"
        "extracted FOTA_CONFIG_INSTALL_DIR tar es FOTA_INSTALL_OK w w1"
        "put_file FOTA_CONFIG_VERSION_FILE (version_text v) w1 = (ok, w')"
proof (rule extract_cases [OF Z C W order_refl install_dir_not_Nil, where alloc = alloc and w = w and gz = pt])
  fix r
  assume "fota_installer_extract TYPE('s) Z C alloc (Some pt) (length pt) (Some FOTA_CONFIG_INSTALL_DIR) w = Some (r, w)"
    and "gunzip_error r \<or> tar_error r \<or> manifest_error r"
  then show ?thesis using rejected rejected_exit_code [of r] by (auto simp: main_install_def)
next
  fix r w1 tar es
  assume ex: "fota_installer_extract TYPE('s) Z C alloc (Some pt) (length pt) (Some FOTA_CONFIG_INSTALL_DIR) w = Some (r, w1)"
    and acc: "archive_accepted TYPE('s) Z C alloc pt (length pt) tar es" "manifest_agrees C tar es"
    and ext: "extracted FOTA_CONFIG_INSTALL_DIR tar es r w w1"
  show ?thesis
  proof (cases "r = FOTA_INSTALL_OK")
    case False
    then have "r = FOTA_INSTALL_ERR_IO" using ext by (simp add: extracted_def)
    then show ?thesis using interrupted [OF _ acc] ex ext by (simp add: main_install_def)
  next
    case True
    obtain ok w' where put: "put_file FOTA_CONFIG_VERSION_FILE (version_text v) w1 = (ok, w')" by fastforce
    then have "main_install TYPE('s) Z C alloc v (Some pt) (length pt) w =
        Some (if ok then FOTA_EXIT_SUCCESS else FOTA_EXIT_GENERIC_FAILURE, w')"
      using ex True by (simp add: main_install_def write_installed_put_file platform_post_install_hook_def)
    then show ?thesis using finished acc ext True put by blast
  qed
qed

text \<open>
  The last stage as a decision of its own, without the installer's result codes leaving it: whether the archive is
  taken or with which exit code it is refused, and then the writes.  Exit code 9 is for an archive that is too large when
  decompressed, that holds an unsafe path or an entry of an unsupported kind, or whose manifest is missing, does not
  parse or does not match; every other failure is exit code 1.  Neither definition calls \<open>main_install\<close>,
  \<open>fota_installer_extract\<close> or \<open>install_result_to_exit_code\<close>.
\<close>

definition archive_decision ::
    "'s::len itself \<Rightarrow> 'z zlib \<Rightarrow> 'h openssl \<Rightarrow> allocator \<Rightarrow> u8 list \<Rightarrow>
     (exit_code + u8 list \<times> fota_tar_entry list) option"
where
  "archive_decision width Z C alloc gz = do {
     unzipped \<leftarrow> fota_gunzip Z alloc (Some gz) (length gz) (512 * 1024 * 1024) True;
     (case unzipped of
        Inl e \<Rightarrow>
          Some (Inl (if e = FOTA_INSTALL_ERR_DECOMPRESSED_TOO_LARGE then FOTA_EXIT_INSTALLER_REJECTED
                     else FOTA_EXIT_GENERIC_FAILURE))
      | Inr tar \<Rightarrow> do {
          parsed \<leftarrow> fota_tar_parse TYPE('s) alloc (Some tar) (length tar) True;
          (case parsed of
             Inl e \<Rightarrow>
               Some (Inl (if e = FOTA_INSTALL_ERR_UNSAFE_PATH \<or> e = FOTA_INSTALL_ERR_UNSUPPORTED_ENTRY
                          then FOTA_EXIT_INSTALLER_REJECTED else FOTA_EXIT_GENERIC_FAILURE))
           | Inr es \<Rightarrow> do {
               verdict \<leftarrow> fota_verify_manifest C alloc tar (Some es);
               Some (if verdict = FOTA_INSTALL_OK then Inr (tar, es)
                     else if verdict = FOTA_INSTALL_ERR_MANIFEST_MISSING \<or> verdict = FOTA_INSTALL_ERR_MANIFEST_PARSE \<or>
                       verdict = FOTA_INSTALL_ERR_MANIFEST_MISMATCH
                     then Inl FOTA_EXIT_INSTALLER_REJECTED
                     else Inl FOTA_EXIT_GENERIC_FAILURE)
             })
        })
   }"

definition perform_update ::
    "'s::len itself \<Rightarrow> 'z zlib \<Rightarrow> 'h openssl \<Rightarrow> allocator \<Rightarrow> event list \<times> (exit_code + fota_version \<times> u8 list) \<Rightarrow>
     world \<Rightarrow> (exit_code \<times> world) option"
where
  "perform_update width Z C alloc decision w =
     (case decision of
        (evs, Inl c) \<Rightarrow> Some (c, with_log evs w)
      | (evs, Inr (v, plaintext)) \<Rightarrow> do {
          archive \<leftarrow> archive_decision width Z C alloc plaintext;
          (case archive of
             Inl c \<Rightarrow> Some (c, with_log evs w)
           | Inr (tar, es) \<Rightarrow> do {
               (written, w1) \<leftarrow> install_loop FOTA_CONFIG_INSTALL_DIR tar es (emit Ev_validated (with_log evs w));
               (if written \<noteq> FOTA_INSTALL_OK then Some (FOTA_EXIT_GENERIC_FAILURE, w1)
                else case put_file FOTA_CONFIG_VERSION_FILE (version_text v) w1 of
                  (recorded, w2) \<Rightarrow> Some (if recorded then FOTA_EXIT_SUCCESS else FOTA_EXIT_GENERIC_FAILURE, w2))
             })
        })"

lemma install_loop_codes:
  "install_loop dir tar es w = Some (r, w') \<Longrightarrow> r = FOTA_INSTALL_OK \<or> r = FOTA_INSTALL_ERR_IO"
  by (induction es arbitrary: w) (auto split: if_split_asm Option.bind_split_asm)

lemma main_install_archive:
  assumes Z: "zlib_contract Z" and C: "digest_contract C" and W: "36 < LENGTH('s)"
  shows "main_install TYPE('s::len) Z C alloc v (Some gz) (length gz) w =
    do {
      archive \<leftarrow> archive_decision TYPE('s) Z C alloc gz;
      (case archive of
         Inl c \<Rightarrow> Some (c, w)
       | Inr (tar, es) \<Rightarrow> do {
           (written, w1) \<leftarrow> install_loop FOTA_CONFIG_INSTALL_DIR tar es (emit Ev_validated w);
           (if written \<noteq> FOTA_INSTALL_OK then Some (FOTA_EXIT_GENERIC_FAILURE, w1)
            else case put_file FOTA_CONFIG_VERSION_FILE (version_text v) w1 of
              (recorded, w2) \<Rightarrow> Some (if recorded then FOTA_EXIT_SUCCESS else FOTA_EXIT_GENERIC_FAILURE, w2))
         })
    }"
proof -
  obtain g where g: "fota_gunzip Z alloc (Some gz) (length gz) (512 * 1024 * 1024) True = Some g"
      "case g of Inr out \<Rightarrow> length out \<le> 512 * 1024 * 1024 \<and>
          inflates Z (snd (inflateInit2 Z (16 + MAX_WBITS))) (take (length gz mod 2 ^ 32) gz) out
        | Inl e \<Rightarrow> e \<in> {FOTA_INSTALL_ERR_INVALID_ARG, FOTA_INSTALL_ERR_DECOMPRESSED_TOO_LARGE,
                     FOTA_INSTALL_ERR_DECOMPRESS_FAILED}"
    by (rule gunzip_cases [OF Z order_refl])
  note ex = main_install_def fota_installer_extract_def FOTA_INSTALLER_MAX_DECOMPRESSED_SIZE_def archive_decision_def
  show ?thesis
  proof (cases g)
    case (Inl e)
    then show ?thesis using g by (auto simp: ex)
  next
    case (Inr tar)
    have "length tar \<le> 2 ^ 29" using g(2) Inr by simp
    also have "(2 :: nat) ^ 29 < 2 ^ LENGTH('s)" using W by (intro power_strict_increasing) simp_all
    finally have fits: "36 < LENGTH('s) \<and> length tar < 2 ^ LENGTH('s)" using W by simp
    then obtain p where p: "fota_tar_parse TYPE('s) alloc (Some tar) (length tar) True = Some p"
      using tar.returns [where 's = 's] by blast
    show ?thesis
    proof (cases p)
      case e: (Inl e)
      have "tar_error e"
        using fota_tar_parse_cases [of tar alloc, where 's = 's] fits p e tar_items_error [of tar 0 e]
        by (auto simp: tar_error_def)
      then show ?thesis using g(1) Inr p e by (auto simp: ex tar_error_def)
    next
      case es: (Inr es)
      have wf: "wf_entries tar es" using tar.accepted [where 's = 's, OF fits] p es by simp
      obtain r where r: "fota_verify_manifest C alloc tar (Some es) = Some r" "r \<noteq> FOTA_INSTALL_OK \<longrightarrow> manifest_error r"
        using verify_manifest_cases [OF wf C, of alloc] by blast
      show ?thesis
      proof (cases "r = FOTA_INSTALL_OK")
        case False
        then show ?thesis using g(1) Inr p es r by (auto simp: ex manifest_error_def)
      next
        case True
        then show ?thesis using g(1) Inr p es r(1)
          by (auto simp: ex write_installed_put_file platform_post_install_hook_def dest: install_loop_codes
              split: prod.split intro!: Option.bind_cong)
      qed
    qed
  qed
qed

lemma perform_eq:
  assumes "zlib_contract Z" and "digest_contract C" and "36 < LENGTH('s)"
  shows "perform TYPE('s::len) Z C alloc decision w = perform_update TYPE('s) Z C alloc decision w"
  by (simp add: perform_def perform_update_def main_install_archive [OF assms] split: prod.split sum.split)

subsection \<open>What a decision to install means\<close>

text \<open>Every check that a package passes before anything is written.\<close>

definition well_formed_package :: "u8 list \<Rightarrow> fota_version \<Rightarrow> bool" where
  "well_formed_package data v \<longleftrightarrow>
     51 \<le> length data \<and> take 4 data = FOTA_MAGIC \<and> data ! 4 = 1 \<and>
     platform_tag (header_fields data) = wire_platform_tag \<and> package_version data = Some v"

definition version_passes :: "'h openssl \<Rightarrow> u8 list option \<Rightarrow> world \<Rightarrow> fota_version \<Rightarrow> bool" where
  "version_passes C secret w v \<longleftrightarrow>
     (\<exists>installed. installed_version w = (FOTA_VERSION_READ_OK, installed) \<and>
        (installed < v \<or> v < installed \<and> override_granted C secret w))"

definition fits_device :: "allocator \<Rightarrow> u8 list \<Rightarrow> world \<Rightarrow> bool" where
  "fits_device alloc data w \<longleftrightarrow>
     payload_start data < length data \<and> length (payload_section data) \<le> 2147483647 \<and>
     (\<exists>bavail frsize. statvfs w FOTA_CONFIG_INSTALL_DIR = Some (bavail, frsize) \<and>
        of_nat (length (payload_section data)) \<le> (bavail * frsize :: u64)) \<and>
     alloc Site_signed_data (length (signed_part data)) \<and> alloc Site_plaintext (length (payload_section data) + 16)"

definition signed_by_vendor :: "'h openssl \<Rightarrow> u8 list \<Rightarrow> world \<Rightarrow> bool" where
  "signed_by_vendor C data w \<longleftrightarrow>
     (\<exists>pk. fota_load_public_key C w (Some FOTA_CONFIG_SIGNING_PUBLIC_KEY_FILE) = Some pk \<and>
        signature_valid C pk (signed_part data) (signature_section data))"

definition opens_to :: "'h openssl \<Rightarrow> allocator \<Rightarrow> u8 list \<Rightarrow> world \<Rightarrow> u8 list \<Rightarrow> bool" where
  "opens_to C alloc data w plaintext \<longleftrightarrow>
     (\<exists>sk k. fota_load_private_key C w (Some FOTA_CONFIG_DEVICE_PRIVATE_KEY_FILE) = Some sk \<and>
        unwrapped C alloc sk (key_section data) = Some k \<and> length k = 32 \<and>
        decrypted C k (iv (header_fields data)) (payload_section data) = Some plaintext)"

definition authorised ::
    "'h openssl \<Rightarrow> allocator \<Rightarrow> u8 list option \<Rightarrow> u8 list \<Rightarrow> world \<Rightarrow> fota_version \<Rightarrow> u8 list \<Rightarrow> bool"
where
  "authorised C alloc secret data w v plaintext \<longleftrightarrow>
     well_formed_package data v \<and> version_passes C secret w v \<and> fits_device alloc data w \<and>
     signed_by_vendor C data w \<and> opens_to C alloc data w plaintext"

abbreviation checks_passed :: "event list" where
  "checks_passed \<equiv> [Ev_verify True, Ev_unwrap True, Ev_decrypt True]"

lemma decide_decrypt_Inr:
  "decide_decrypt C alloc data w = (evs, Inr pt) \<longleftrightarrow>
    evs = [Ev_unwrap True, Ev_decrypt True] \<and> opens_to C alloc data w pt \<and> payload_section data \<noteq> [] \<and>
    length (payload_section data) \<le> 2147483647 \<and> alloc Site_plaintext (length (payload_section data) + 16)"
  by (auto simp: decide_decrypt_def opens_to_def split: option.split)

lemma decide_verify_Inr:
  "decide_verify C alloc data w = (evs, Inr pt) \<longleftrightarrow>
    (\<exists>evs'. evs = Ev_verify True # evs' \<and> decide_decrypt C alloc data w = (evs', Inr pt)) \<and>
    signed_by_vendor C data w \<and> alloc Site_signed_data (length (signed_part data))"
  by (auto simp: decide_verify_def signed_by_vendor_def split: option.split prod.split)

lemma decide_sections_Inr:
  "decide_sections C alloc data w = (evs, Inr pt) \<longleftrightarrow>
    evs = checks_passed \<and> fits_device alloc data w \<and> signed_by_vendor C data w \<and> opens_to C alloc data w pt"
proof -
  have "payload_section data \<noteq> [] \<longleftrightarrow> payload_start data < length data"
    by (auto simp: payload_section_def)
  then show ?thesis
    by (auto simp: decide_sections_def decide_verify_Inr decide_decrypt_Inr fits_device_def not_less split: option.split)
qed

lemma decide_version_Inr:
  "decide_version C alloc secret data v w = (evs, Inr pt) \<longleftrightarrow>
    version_passes C secret w v \<and> decide_sections C alloc data w = (evs, Inr pt)"
  by (auto simp: decide_version_def version_passes_def split: prod.split)

lemma with_version_iff:
  "(case d of (evs, Inl c) \<Rightarrow> (evs, Inl c) | (evs, Inr pt) \<Rightarrow> (evs, Inr (v', pt))) = (evs, Inr (v, pt)) \<longleftrightarrow>
    v' = v \<and> d = (evs, Inr pt)"
  by (auto split: prod.split sum.split)

lemma decide_Inr:
  "decide C alloc secret data w = (evs, Inr (v, pt)) \<longleftrightarrow>
    authorised C alloc secret data w v pt \<and> evs = checks_passed"
  by (auto simp: decide_def authorised_def well_formed_package_def with_version_iff decide_version_Inr
      decide_sections_Inr not_less split: option.split)

subsection \<open>The order of the security-relevant calls\<close>

text \<open>
  The phases of a run and the events that lead from one to the next.  Once a check has failed nothing more happens.
  Directories and files are made below \<open>root\<close> only, and the last write is the version file at \<open>vfile\<close>.
\<close>

datatype phase = Idle | Verified | Unwrapped | Decrypted | Validated | Persisted | Refused

inductive phase_step :: "loc option \<Rightarrow> loc option \<Rightarrow> phase \<Rightarrow> event \<Rightarrow> phase \<Rightarrow> bool" for root vfile where
  verify: "phase_step root vfile Idle (Ev_verify ok) (if ok then Verified else Refused)"
| unwrap: "phase_step root vfile Verified (Ev_unwrap ok) (if ok then Unwrapped else Refused)"
| decrypt: "phase_step root vfile Unwrapped (Ev_decrypt ok) (if ok then Decrypted else Refused)"
| validate: "phase_step root vfile Decrypted Ev_validated Validated"
| make: "inside root l \<Longrightarrow> phase_step root vfile Validated (Ev_mkdir l) Validated"
| store: "inside root l \<Longrightarrow> phase_step root vfile Validated (Ev_write l) Validated"
| persist: "vfile = Some l \<Longrightarrow> phase_step root vfile Validated (Ev_write l) Persisted"

inductive phase_run :: "loc option \<Rightarrow> loc option \<Rightarrow> phase \<Rightarrow> event list \<Rightarrow> phase \<Rightarrow> bool" for root vfile where
  stay: "phase_run root vfile p [] p"
| move: "phase_step root vfile p e q \<Longrightarrow> phase_run root vfile q es r \<Longrightarrow> phase_run root vfile p (e # es) r"

inductive_simps phase_run_simps: "phase_run root vfile p [] r" "phase_run root vfile p (e # es) r"

inductive_simps phase_step_simps:
  "phase_step root vfile Idle (Ev_verify ok) q" "phase_step root vfile Verified (Ev_unwrap ok) q"
  "phase_step root vfile Unwrapped (Ev_decrypt ok) q" "phase_step root vfile Decrypted Ev_validated q"
  "phase_step root vfile Validated (Ev_write l) q"

inductive_cases phase_step_Idle: "phase_step root vfile Idle e q"
inductive_cases phase_step_Verified: "phase_step root vfile Verified e q"
inductive_cases phase_step_Unwrapped: "phase_step root vfile Unwrapped e q"
inductive_cases phase_step_Decrypted: "phase_step root vfile Decrypted e q"
inductive_cases phase_step_Validated: "phase_step root vfile Validated e q"
inductive_cases phase_step_final: "phase_step root vfile Persisted e q" "phase_step root vfile Refused e q"

lemmas phase_step_cases = phase_step_Idle phase_step_Verified phase_step_Unwrapped phase_step_Decrypted
  phase_step_Validated phase_step_final

lemma phase_run_append:
  "phase_run root vfile p (es @ fs) r \<longleftrightarrow> (\<exists>q. phase_run root vfile p es q \<and> phase_run root vfile q fs r)"
  by (induction es arbitrary: p) (auto simp: phase_run_simps)

lemma phase_run_ok [simp]:
  "phase_run root vfile Idle (Ev_verify True # es) r \<longleftrightarrow> phase_run root vfile Verified es r"
  "phase_run root vfile Verified (Ev_unwrap True # es) r \<longleftrightarrow> phase_run root vfile Unwrapped es r"
  "phase_run root vfile Unwrapped (Ev_decrypt True # es) r \<longleftrightarrow> phase_run root vfile Decrypted es r"
  "phase_run root vfile Decrypted (Ev_validated # es) r \<longleftrightarrow> phase_run root vfile Validated es r"
  by (simp_all add: phase_run_simps phase_step_simps)

lemma phase_run_refused [intro]:
  "phase_run root vfile Idle [Ev_verify False] Refused"
  "phase_run root vfile Verified [Ev_unwrap False] Refused"
  "phase_run root vfile Unwrapped [Ev_decrypt False] Refused"
  by (simp_all add: phase_run_simps phase_step_simps)

lemma phase_run_writes:
  "\<forall>e \<in> set es. \<exists>l. inside root l \<and> (e = Ev_mkdir l \<or> e = Ev_write l) \<Longrightarrow>
    phase_run root vfile Validated es Validated"
  by (induction es) (auto intro: stay move make store)

text \<open>By induction over the run: the phase tells which checks have passed.\<close>

fun reached :: "phase \<Rightarrow> event list" where
  "reached Idle = []"
| "reached Verified = [Ev_verify True]"
| "reached Unwrapped = [Ev_verify True, Ev_unwrap True]"
| "reached Decrypted = [Ev_verify True, Ev_unwrap True, Ev_decrypt True]"
| "reached _ = [Ev_verify True, Ev_unwrap True, Ev_decrypt True, Ev_validated]"

definition changes_device :: "event \<Rightarrow> bool" where
  "changes_device e \<longleftrightarrow> (\<exists>l. e = Ev_mkdir l \<or> e = Ev_write l)"

lemma phase_run_checked:
  assumes "phase_run root vfile p es r" and "e \<in> set es" and "changes_device e" and "p \<noteq> Refused"
  shows "\<exists>rest. reached p @ es = [Ev_verify True, Ev_unwrap True, Ev_decrypt True, Ev_validated] @ rest"
  using assms
proof (induction rule: phase_run.induct)
  case (move p e' q es r)
  have "q = Refused \<Longrightarrow> es = []"
    using move.hyps(2) by (cases rule: phase_run.cases) (auto elim: phase_step_cases)
  then have "q = Refused \<Longrightarrow> e = e'" using move.prems(1) by auto
  moreover from move.hyps(1) have "q \<noteq> Refused \<longrightarrow> reached p @ [e'] = reached q \<or> p = Validated"
    by (cases rule: phase_step.cases) auto
  ultimately show ?case using move
    by (cases p) (auto elim!: phase_step_cases simp: changes_device_def split: if_split_asm)
qed simp

subsection \<open>The configured places\<close>

text \<open>
  The configured paths are absolute and the tree has no links, so each resolves to one place at most.  None of the
  files under \<open>/etc\<close> lies below the install directory.
\<close>

definition install_loc :: loc where
  "install_loc = [ascii ''opt'', ascii ''fota-secure'', ascii ''install'']"

definition etc_loc :: "string \<Rightarrow> loc" where
  "etc_loc name = [ascii ''etc'', ascii ''fota-secure'', ascii name]"

definition version_loc :: loc where
  "version_loc = etc_loc ''version''"

definition has_etc :: "world \<Rightarrow> bool" where
  "has_etc w \<longleftrightarrow> dirs w [] \<and> dirs w [ascii ''etc''] \<and> dirs w [ascii ''etc'', ascii ''fota-secure'']"

lemma resolve_config:
  "resolve w FOTA_CONFIG_VERSION_FILE = (if has_etc w then Some version_loc else None)"
  "resolve w FOTA_CONFIG_DOWNGRADE_SECRET_HASH_FILE =
    (if has_etc w then Some (etc_loc ''downgrade_secret.hash'') else None)"
  "resolve w FOTA_CONFIG_SIGNING_PUBLIC_KEY_FILE = (if has_etc w then Some (etc_loc ''signing_public.pem'') else None)"
  "resolve w FOTA_CONFIG_DEVICE_PRIVATE_KEY_FILE = (if has_etc w then Some (etc_loc ''device_private.pem'') else None)"
  by (simp_all add: FOTA_CONFIG_VERSION_FILE_def FOTA_CONFIG_DOWNGRADE_SECRET_HASH_FILE_def
      FOTA_CONFIG_SIGNING_PUBLIC_KEY_FILE_def FOTA_CONFIG_DEVICE_PRIVATE_KEY_FILE_def
      resolve_def has_etc_def version_loc_def etc_loc_def ascii_def)

lemma resolve_install_dir: "resolve w FOTA_CONFIG_INSTALL_DIR = Some l \<Longrightarrow> l = install_loc"
  by (auto simp: FOTA_CONFIG_INSTALL_DIR_def resolve_def install_loc_def ascii_def split: if_split_asm)

lemma inside_install_dir: "inside (resolve w FOTA_CONFIG_INSTALL_DIR) l \<Longrightarrow> prefix install_loc l"
  using resolve_install_dir by (auto simp: inside_def)

lemma etc_not_installed:
  "\<not> prefix install_loc []" "\<not> prefix install_loc [ascii ''etc'']" "\<not> prefix install_loc [ascii ''etc'', b]"
  "\<not> prefix install_loc (etc_loc name)" "\<not> prefix install_loc version_loc"
  by (simp_all add: install_loc_def etc_loc_def version_loc_def ascii_def)

text \<open>The device as the next run finds it.\<close>

lemma installs_keeps:
  assumes "installs (resolve w0 FOTA_CONFIG_INSTALL_DIR) w w'"
  shows "has_etc w' = has_etc w" "files w' (etc_loc name) = files w (etc_loc name)"
    "dirs w' (etc_loc name) = dirs w (etc_loc name)" "\<not> prefix install_loc l \<Longrightarrow> files w' l = files w l"
    "no_read w' = no_read w" "read_stop w' = read_stop w"
  using assms inside_install_dir etc_not_installed unfolding installs_def has_etc_def by metis+

lemma installs_override_hash:
  assumes "installs (resolve w0 FOTA_CONFIG_INSTALL_DIR) w w'"
  shows "override_hash w' = override_hash w"
  using installs_keeps [OF assms] by (simp add: override_hash_def fopen_rb_def resolve_config)

lemma put_version_keeps:
  assumes "put_file FOTA_CONFIG_VERSION_FILE c w = (ok, w')"
  shows "override_hash w' = override_hash w" "l \<noteq> version_loc \<Longrightarrow> files w' l = files w l"
    "has_etc w' = has_etc w"
proof -
  have f: "files w' l = files w l" if "l \<noteq> version_loc" for l
    using put_file_frame [OF assms, of l] that by (auto simp: resolve_config split: if_split_asm)
  moreover have e: "has_etc w' = has_etc w" using put_file_dirs(1) [OF assms] by (simp add: has_etc_def)
  moreover have "etc_loc ''downgrade_secret.hash'' \<noteq> version_loc" by (simp add: etc_loc_def version_loc_def ascii_def)
  ultimately show "override_hash w' = override_hash w" "l \<noteq> version_loc \<Longrightarrow> files w' l = files w l"
      "has_etc w' = has_etc w"
    using put_file_dirs [OF assms] by (simp_all add: override_hash_def fopen_rb_def resolve_config)
qed

subsection \<open>The log of a run\<close>

definition logged :: "loc option \<Rightarrow> loc option \<Rightarrow> phase \<Rightarrow> event list \<times> (exit_code + 'a) \<Rightarrow> bool" where
  "logged root vfile p decision \<longleftrightarrow>
     snd decision \<noteq> Inl FOTA_EXIT_SUCCESS \<and>
     (\<exists>r. phase_run root vfile p (fst decision) r \<and> (\<forall>x. snd decision = Inr x \<longrightarrow> r = Decrypted))"

lemma logged_stop: "c \<noteq> FOTA_EXIT_SUCCESS \<Longrightarrow> logged root vfile p ([], Inl c)"
  using stay by (auto simp: logged_def)

lemma logged_decide_decrypt: "logged root vfile Verified (decide_decrypt C alloc data w)"
  by (auto simp: logged_def decide_decrypt_def split: option.split intro: stay)

lemma logged_decide_verify: "logged root vfile Idle (decide_verify C alloc data w)"
  using logged_decide_decrypt [of root vfile C alloc data w]
  by (auto simp: logged_def decide_verify_def split: option.split prod.split intro: stay)

lemma logged_decide_sections: "logged root vfile Idle (decide_sections C alloc data w)"
  by (auto simp: decide_sections_def logged_decide_verify logged_stop split: option.split)

lemma logged_decide_version: "logged root vfile Idle (decide_version C alloc secret data v w)"
  by (auto simp: decide_version_def logged_decide_sections logged_stop split: prod.split)

lemma logged_decide: "logged root vfile Idle (decide C alloc secret data w)"
proof (cases "package_version data")
  case None
  then show ?thesis by (auto simp: decide_def logged_stop)
next
  case (Some v)
  have "logged root vfile Idle (case decide_version C alloc secret data v w of
      (evs, Inl c) \<Rightarrow> (evs, Inl c) | (evs, Inr pt) \<Rightarrow> (evs, Inr (v, pt)))"
    using logged_decide_version [of root vfile C alloc secret data v w]
    by (auto simp: logged_def split: prod.split sum.split)
  then show ?thesis using Some by (auto simp: decide_def logged_stop)
qed

lemma installs_log:
  assumes "installs (resolve w FOTA_CONFIG_INSTALL_DIR) (emit Ev_validated w) w'"
  shows "\<exists>evs. log w' = log w @ evs \<and> phase_run (Some install_loc) vfile Decrypted evs Validated"
proof -
  obtain evs where evs: "log w' = log w @ Ev_validated # evs"
      "\<forall>e \<in> set evs. \<exists>l. inside (resolve w FOTA_CONFIG_INSTALL_DIR) l \<and> (e = Ev_mkdir l \<or> e = Ev_write l)"
    using assms by (auto simp: installs_def emit_def)
  have "\<forall>e \<in> set evs. \<exists>l. inside (Some install_loc) l \<and> (e = Ev_mkdir l \<or> e = Ev_write l)"
    using evs(2) inside_install_dir unfolding inside_def by blast
  then have "phase_run (Some install_loc) vfile Decrypted (Ev_validated # evs) Validated"
    using phase_run_writes by simp
  then show ?thesis using evs(1) by blast
qed

subsection \<open>The outcomes of main\<close>

abbreviation package_read :: "allocator \<Rightarrow> u8 list list \<Rightarrow> stream \<Rightarrow> world \<Rightarrow> u8 list option" where
  "package_read alloc argv stdin w \<equiv> Option.bind (main_input (argv ! 1) stdin w) (read_all alloc)"

abbreviation secret_given :: "u8 list list \<Rightarrow> u8 list option" where
  "secret_given argv \<equiv> downgrade_secret_arg None (drop 2 argv)"

lemma main_cases:
  assumes C: "crypto_contract C" and Z: "zlib_contract Z" and W: "36 < LENGTH('s)"
  obtains (stopped) c evs r
      where "main TYPE('s::len) Z C alloc argv stdin w = Some (c, with_log evs w)" "c \<noteq> FOTA_EXIT_SUCCESS"
        "phase_run (Some install_loc) (Some version_loc) Idle evs r"
    | (interrupted) data v pt tar es w'
      where "main TYPE('s) Z C alloc argv stdin w = Some (FOTA_EXIT_GENERIC_FAILURE, w')"
        "package_read alloc argv stdin w = Some data" "authorised C alloc (secret_given argv) data w v pt"
        "archive_accepted TYPE('s) Z C alloc pt (length pt) tar es" "manifest_agrees C tar es"
        "extracted FOTA_CONFIG_INSTALL_DIR tar es FOTA_INSTALL_ERR_IO (with_log checks_passed w) w'"
    | (finished) ok data v pt tar es w1 w'
      where "main TYPE('s) Z C alloc argv stdin w =
          Some (if ok then FOTA_EXIT_SUCCESS else FOTA_EXIT_GENERIC_FAILURE, w')"
        "package_read alloc argv stdin w = Some data" "authorised C alloc (secret_given argv) data w v pt"
        "archive_accepted TYPE('s) Z C alloc pt (length pt) tar es" "manifest_agrees C tar es"
        "extracted FOTA_CONFIG_INSTALL_DIR tar es FOTA_INSTALL_OK (with_log checks_passed w) w1"
        "put_file FOTA_CONFIG_VERSION_FILE (version_text v) w1 = (ok, w')"
proof (cases "length argv < 2 \<or> package_read alloc argv stdin w = None")
  case True
  then have "main TYPE('s) Z C alloc argv stdin w = Some (FOTA_EXIT_GENERIC_FAILURE, with_log [] w)"
    by (auto simp: main_eq [OF C])
  then show ?thesis using stopped stay by blast
next
  case False
  then obtain data where data: "package_read alloc argv stdin w = Some data" by auto
  obtain evs d where dec: "decide C alloc (secret_given argv) data w = (evs, d)" by fastforce
  have m: "main TYPE('s) Z C alloc argv stdin w = perform TYPE('s) Z C alloc (evs, d) w"
    using False data dec by (simp add: main_eq [OF C])
  show ?thesis
  proof (cases d)
    case (Inl c)
    have "logged (Some install_loc) (Some version_loc) Idle (evs, d)" using logged_decide dec by metis
    then obtain r where "phase_run (Some install_loc) (Some version_loc) Idle evs r" "c \<noteq> FOTA_EXIT_SUCCESS"
      using Inl by (auto simp: logged_def)
    then show ?thesis using stopped m Inl by (simp add: perform_def)
  next
    case (Inr x)
    then obtain v pt where x: "d = Inr (v, pt)" by (cases x) simp
    have auth: "authorised C alloc (secret_given argv) data w v pt" and evs: "evs = checks_passed"
      using decide_Inr dec x by blast+
    have m: "main TYPE('s) Z C alloc argv stdin w =
        main_install TYPE('s) Z C alloc v (Some pt) (length pt) (with_log checks_passed w)"
      using m x evs by (simp add: perform_def)
    have run: "phase_run (Some install_loc) (Some version_loc) Idle checks_passed Decrypted"
      by (simp add: stay)
    have D: "digest_contract C" using C by (simp add: crypto_contract_def)
    show ?thesis
      by (rule main_install_cases [OF Z D W, where alloc = alloc and v = v and pt = pt and w = "with_log checks_passed w"])
         (use m run data auth in \<open>auto intro: stopped interrupted finished\<close>)
  qed
qed

end
