(* ===== verification/Fota_Update.thy ===== *)
theory Fota_Update
  imports Fota_Main_Props
begin

section \<open>Updating a device\<close>

text \<open>
  The properties of the consumer as a whole, over single runs of \<open>main\<close> and over sequences of runs, and the delivery of a
  package from the packager to the file system of the device.
\<close>

subsection \<open>The device between two runs\<close>

text \<open>A device whose configured places are as the installation instructions leave them.\<close>

definition provisioned :: "world \<Rightarrow> bool" where
  "provisioned w \<longleftrightarrow>
     no_faults w \<and> has_etc w \<and> \<not> dirs w version_loc \<and> readable w FOTA_CONFIG_VERSION_FILE"

lemma extracted_keeps:
  assumes "extracted FOTA_CONFIG_INSTALL_DIR tar es r (with_log evs w) w'"
  shows "has_etc w' = has_etc w" "files w' (etc_loc name) = files w (etc_loc name)"
    "dirs w' version_loc = dirs w version_loc" "no_faults w' = no_faults w"
    "readable w' FOTA_CONFIG_VERSION_FILE = readable w FOTA_CONFIG_VERSION_FILE"
    "installed_version w' = installed_version w" "override_hash w' = override_hash w"
    "provisioned w' = provisioned w"
proof -
  have i: "installs (resolve (with_log evs w) FOTA_CONFIG_INSTALL_DIR) (emit Ev_validated (with_log evs w)) w'"
    using assms by (simp add: extracted_def)
  have e: "emit Ev_validated (with_log evs w) = with_log (evs @ [Ev_validated]) w" by (simp add: emit_with_log)
  have nf: "no_faults (with_log x w) = no_faults w" for x by (simp add: no_faults_def with_log_def)
  show etc: "has_etc w' = has_etc w" "files w' (etc_loc name) = files w (etc_loc name)" for name
    using installs_keeps(1,2) [OF i] by (simp_all add: e has_etc_def)
  show d: "dirs w' version_loc = dirs w version_loc"
    using installs_keeps(3) [OF i, of "''version''"] by (simp add: e version_loc_def)
  show f: "no_faults w' = no_faults w" using no_faults_installs [OF i] nf by (simp add: e)
  have nr: "no_read w' = no_read w" "read_stop w' = read_stop w"
    using installs_keeps(5,6) [OF i] by (simp_all add: e)
  then show r: "readable w' FOTA_CONFIG_VERSION_FILE = readable w FOTA_CONFIG_VERSION_FILE"
    using etc(1) by (simp add: readable_def resolve_config)
  show "installed_version w' = installed_version w"
    using etc d nr by (simp add: installed_version_def fopen_rb_def resolve_config version_loc_def)
  show "override_hash w' = override_hash w"
    using installs_override_hash [OF i] by (simp add: e override_hash_def)
  show "provisioned w' = provisioned w" using etc(1) d f r by (simp add: provisioned_def)
qed

lemma with_log_device [simp]:
  "no_faults (with_log evs w) = no_faults w" "has_etc (with_log evs w) = has_etc w"
  "readable (with_log evs w) p = readable w p" "installed_version (with_log evs w) = installed_version w"
  "override_hash (with_log evs w) = override_hash w" "provisioned (with_log evs w) = provisioned w"
  "room (with_log evs w) root ps = room w root ps"
proof -
  show r: "readable (with_log evs w) p = readable w p" for p by (simp add: readable_def split: option.split)
  show "no_faults (with_log evs w) = no_faults w" "has_etc (with_log evs w) = has_etc w"
    by (simp_all add: no_faults_def has_etc_def)
  then show "provisioned (with_log evs w) = provisioned w" using r by (simp add: provisioned_def)
qed (simp_all add: installed_version_def override_hash_def room_def)

text \<open>Recording the version on such a device.\<close>

lemma version_recorded:
  assumes "put_file FOTA_CONFIG_VERSION_FILE (version_text v) w = (True, w')" and "readable w FOTA_CONFIG_VERSION_FILE"
  shows "installed_version w' = (FOTA_VERSION_READ_OK, v)"
proof -
  have "fota_version_read_installed w' (Some FOTA_CONFIG_VERSION_FILE) = Some (FOTA_VERSION_READ_OK, v)"
    by (rule read_installed_get_file [OF version_cell.reload [OF assms]])
  then show ?thesis by (simp add: read_installed_version)
qed

lemma provisioned_put:
  assumes "provisioned w"
  shows "\<exists>w'. put_file FOTA_CONFIG_VERSION_FILE c w = (True, w') \<and> provisioned w'"
proof -
  have "dirs w (butlast version_loc)" using assms by (simp add: provisioned_def has_etc_def version_loc_def etc_loc_def)
  moreover have "resolve w FOTA_CONFIG_VERSION_FILE = Some version_loc"
    using assms by (simp add: provisioned_def resolve_config)
  ultimately obtain w' where w': "put_file FOTA_CONFIG_VERSION_FILE c w = (True, w')" "no_faults w'" "dirs w' = dirs w"
    using put_file_total [of w FOTA_CONFIG_VERSION_FILE version_loc c] assms by (auto simp: provisioned_def)
  then have "readable w' FOTA_CONFIG_VERSION_FILE"
    using fs.can_load_store [OF w'(1)] assms by (simp add: provisioned_def)
  then show ?thesis using w' assms by (auto simp: provisioned_def has_etc_def)
qed

subsection \<open>One run\<close>

lemma run_of_main:
  assumes C: "crypto_contract C" and Z: "zlib_contract Z" and W: "36 < LENGTH('s)" and p: "provisioned w"
    and run: "main TYPE('s::len) Z C alloc argv stdin w = Some (c, w')"
  shows "provisioned w' \<and> override_hash w' = override_hash w \<and>
    (if c = FOTA_EXIT_SUCCESS
     then \<exists>data v pt. package_read alloc argv stdin w = Some data \<and>
       authorised C alloc (secret_given argv) data w v pt \<and> installed_version w' = (FOTA_VERSION_READ_OK, v)
     else installed_version w' = installed_version w)"
proof (rule main_cases [OF C Z W, where alloc = alloc and argv = argv and stdin = stdin and w = w])
  fix c2 evs r assume "main TYPE('s) Z C alloc argv stdin w = Some (c2, with_log evs w)" "c2 \<noteq> FOTA_EXIT_SUCCESS"
  then show ?thesis using run p by auto
next
  fix data v pt tar es w2
  assume "main TYPE('s) Z C alloc argv stdin w = Some (FOTA_EXIT_GENERIC_FAILURE, w2)"
    and "extracted FOTA_CONFIG_INSTALL_DIR tar es FOTA_INSTALL_ERR_IO (with_log checks_passed w) w2"
  then show ?thesis using run p extracted_keeps by auto
next
  fix ok data v pt tar es w1 w2
  assume m: "main TYPE('s) Z C alloc argv stdin w = Some (if ok then FOTA_EXIT_SUCCESS else FOTA_EXIT_GENERIC_FAILURE, w2)"
    and auth: "package_read alloc argv stdin w = Some data" "authorised C alloc (secret_given argv) data w v pt"
    and ex: "extracted FOTA_CONFIG_INSTALL_DIR tar es FOTA_INSTALL_OK (with_log checks_passed w) w1"
    and put: "put_file FOTA_CONFIG_VERSION_FILE (version_text v) w1 = (ok, w2)"
  have p1: "provisioned w1" using extracted_keeps(8) [OF ex] p by simp
  have ok: ok and p2: "provisioned w2" using provisioned_put [OF p1, of "version_text v"] put by auto
  have "installed_version w2 = (FOTA_VERSION_READ_OK, v)"
    using version_recorded [of v w1 w2] put ok p1 by (simp add: provisioned_def)
  moreover have "override_hash w2 = override_hash w" using put_version_keeps(1) [OF put] extracted_keeps(7) [OF ex] by simp
  ultimately show ?thesis using run m auth ok p2 by auto
qed

subsection \<open>Sequences of runs\<close>

text \<open>A program that is started again and again, each time on an input of the caller's choice.\<close>

fun run_seq :: "('i \<Rightarrow> 'w \<Rightarrow> ('c \<times> 'w) option) \<Rightarrow> 'i list \<Rightarrow> 'w \<Rightarrow> ('c list \<times> 'w) option" where
  "run_seq step [] w = Some ([], w)"
| "run_seq step (i # inputs) w = do {
     (c, w1) \<leftarrow> step i w;
     (cs, w2) \<leftarrow> run_seq step inputs w1;
     Some (c # cs, w2)
   }"

text \<open>
  What the fleet operator relies on: a run on a sound device returns, leaves it sound, raises its version
  when it reports success and keeps it otherwise.
\<close>

locale versioned_device =
  fixes step :: "'i \<Rightarrow> 'w \<Rightarrow> ('c \<times> 'w) option"
    and sound :: "'w \<Rightarrow> bool"
    and version :: "'w \<Rightarrow> 'v::linorder"
    and success :: "'c \<Rightarrow> bool"
  assumes returns: "sound w \<Longrightarrow> \<exists>c w'. step i w = Some (c, w')"
    and keeps: "sound w \<Longrightarrow> step i w = Some (c, w') \<Longrightarrow> sound w'"
    and raises: "sound w \<Longrightarrow> step i w = Some (c, w') \<Longrightarrow> success c \<Longrightarrow> version w < version w'"
    and stays: "sound w \<Longrightarrow> step i w = Some (c, w') \<Longrightarrow> \<not> success c \<Longrightarrow> version w' = version w"
begin

lemma seq_monotone:
  assumes "sound w"
  shows "\<exists>cs w'. run_seq step inputs w = Some (cs, w') \<and> length cs = length inputs \<and> sound w' \<and>
    version w \<le> version w' \<and> ((\<exists>c \<in> set cs. success c) \<longrightarrow> version w < version w')"
  using assms
proof (induction inputs arbitrary: w)
  case (Cons i inputs)
  obtain c w1 where c: "step i w = Some (c, w1)" using returns [OF Cons.prems] by blast
  have le: "version w \<le> version w1" using raises [OF Cons.prems c] stays [OF Cons.prems c] by fastforce
  obtain cs w' where cs: "run_seq step inputs w1 = Some (cs, w')" "length cs = length inputs" "sound w'"
      "version w1 \<le> version w'" "(\<exists>c \<in> set cs. success c) \<longrightarrow> version w1 < version w'"
    using Cons.IH [OF keeps [OF Cons.prems c]] by blast
  have "version w < version w'" if "success c \<or> (\<exists>c \<in> set cs. success c)"
    using that raises [OF Cons.prems c] le cs(4,5) by fastforce
  then show ?case using c cs le by auto
qed simp

text \<open>No two successful runs of a sequence leave the same version behind.\<close>

lemma success_leaves_new_version:
  assumes "sound w" and "step i w = Some (c, w1)" and "success c"
    and "run_seq step inputs w1 = Some (cs, w')"
  shows "version w' \<noteq> version w"
  using seq_monotone [OF keeps [OF assms(1,2)], of inputs] raises [OF assms(1-3)] assms(4) by auto

end

text \<open>The consumer as such a program, on a provisioned device without an override hash.\<close>

definition run_all ::
    "'s::len itself \<Rightarrow> 'z zlib \<Rightarrow> 'h openssl \<Rightarrow> allocator \<Rightarrow> (u8 list list \<times> stream) list \<Rightarrow> world \<Rightarrow>
     (exit_code list \<times> world) option"
where
  "run_all width Z C alloc = run_seq (\<lambda>(argv, stdin). main width Z C alloc argv stdin)"

definition locked_device :: "'s::len itself \<Rightarrow> 'z zlib \<Rightarrow> 'h openssl \<Rightarrow> world \<Rightarrow> bool" where
  "locked_device width Z C w \<longleftrightarrow>
     crypto_contract C \<and> zlib_contract Z \<and> 36 < LENGTH('s) \<and> provisioned w \<and> override_hash w = None \<and>
     fst (installed_version w) = FOTA_VERSION_READ_OK"

lemma locked_run:
  assumes "locked_device TYPE('s::len) Z C w" and "main TYPE('s) Z C alloc argv stdin w = Some (c, w')"
  shows "locked_device TYPE('s) Z C w' \<and>
    (if c = FOTA_EXIT_SUCCESS then snd (installed_version w) < snd (installed_version w')
     else installed_version w' = installed_version w)"
proof -
  have d: "crypto_contract C" "zlib_contract Z" "36 < LENGTH('s)" "provisioned w"
      "override_hash w = None" "fst (installed_version w) = FOTA_VERSION_READ_OK"
    using assms(1) by (simp_all add: locked_device_def)
  note run = run_of_main [OF d(1-4) assms(2)]
  have "\<not> override_granted C secret w" for secret using d(5) by (simp add: override_granted_def)
  then show ?thesis
    using run d by (auto simp: locked_device_def authorised_def version_passes_def)
qed

interpretation device: versioned_device
  "\<lambda>(argv, stdin). main TYPE('s::len) Z C alloc argv stdin" "locked_device TYPE('s) Z C"
  "\<lambda>w. snd (installed_version w)" "\<lambda>c. c = FOTA_EXIT_SUCCESS"
proof (unfold_locales, goal_cases)
  case (1 w i)
  then have d: "crypto_contract C" "zlib_contract Z" "36 < LENGTH('s)" by (simp_all add: locked_device_def)
  show ?case
    by (rule main_cases [OF d, where alloc = alloc and argv = "fst i" and stdin = "snd i" and w = w])
       (auto simp: case_prod_beta)
qed (use locked_run [where 's = 's and Z = Z and C = C and alloc = alloc] in \<open>fastforce simp: case_prod_beta\<close>)+

subsection \<open>A run that succeeds\<close>

lemma extract_accepted:
  assumes "zlib_contract Z" and "digest_contract C" and "36 < LENGTH('s)"
    and acc: "archive_accepted TYPE('s::len) Z C alloc gz (length gz) tar es"
  obtains r w' where "wf_entries tar es"
    "fota_installer_extract TYPE('s) Z C alloc (Some gz) (length gz) (Some FOTA_CONFIG_INSTALL_DIR) w = Some (r, w')"
    "extracted FOTA_CONFIG_INSTALL_DIR tar es r w w'"
proof (rule extract_cases [OF assms(1-3) order_refl install_dir_not_Nil, where alloc = alloc and gz = gz and w = w])
  fix r w' tar' es'
  assume "archive_accepted TYPE('s) Z C alloc gz (length gz) tar' es'" "wf_entries tar' es'"
    "extracted FOTA_CONFIG_INSTALL_DIR tar' es' r w w'"
    "fota_installer_extract TYPE('s) Z C alloc (Some gz) (length gz) (Some FOTA_CONFIG_INSTALL_DIR) w = Some (r, w')"
  moreover from this have "tar' = tar" "es' = es" using acc by (auto simp: archive_accepted_def)
  ultimately show thesis using that by simp
qed (use acc in blast)

lemma main_succeeds:
  assumes C: "crypto_contract C" and Z: "zlib_contract Z" and W: "36 < LENGTH('s)"
    and argv: "2 \<le> length argv" "package_read alloc argv stdin w = Some data"
    and auth: "authorised C alloc (secret_given argv) data w v pt"
    and acc: "archive_accepted TYPE('s::len) Z C alloc pt (length pt) tar es"
    and dev: "provisioned w" "resolve w FOTA_CONFIG_INSTALL_DIR = Some install_loc" "dirs w install_loc"
    and ps: "\<forall>p \<in> payload_paths es. plain_path p" "compatible (payload_paths es)"
      "room w install_loc (payload_paths es)"
  obtains w1 w' where "main TYPE('s) Z C alloc argv stdin w = Some (FOTA_EXIT_SUCCESS, w')"
    "extracted FOTA_CONFIG_INSTALL_DIR tar es FOTA_INSTALL_OK (with_log checks_passed w) w1"
    "put_file FOTA_CONFIG_VERSION_FILE (version_text v) w1 = (True, w')" "provisioned w'"
proof -
  let ?w = "with_log checks_passed w"
  have D: "digest_contract C" using C by (simp add: crypto_contract_def)
  have "decide C alloc (secret_given argv) data w = (checks_passed, Inr (v, pt))"
    using decide_Inr auth by blast
  then have m: "main TYPE('s) Z C alloc argv stdin w = main_install TYPE('s) Z C alloc v (Some pt) (length pt) ?w"
    using argv by (simp add: main_eq [OF C] perform_def)
  obtain r w1 where wf: "wf_entries tar es"
    and ex: "fota_installer_extract TYPE('s) Z C alloc (Some pt) (length pt) (Some FOTA_CONFIG_INSTALL_DIR) ?w = Some (r, w1)"
      "extracted FOTA_CONFIG_INSTALL_DIR tar es r ?w w1"
    by (rule extract_accepted [OF Z D W acc])
  have "length FOTA_CONFIG_INSTALL_DIR < 3900" by (simp add: FOTA_CONFIG_INSTALL_DIR_def ascii_def)
  then have ok: "r = FOTA_INSTALL_OK"
    using extract_total [OF acc wf install_dir_not_Nil, of ?w install_loc] dev ps ex(1) by (auto simp: provisioned_def)
  have "provisioned w1" using extracted_keeps(8) [OF ex(2)] dev(1) by simp
  then obtain w' where put: "put_file FOTA_CONFIG_VERSION_FILE (version_text v) w1 = (True, w')" "provisioned w'"
    using provisioned_put by blast
  then have "main TYPE('s) Z C alloc argv stdin w = Some (FOTA_EXIT_SUCCESS, w')"
    using m ex(1) ok by (simp add: main_install_def write_installed_put_file platform_post_install_hook_def)
  then show thesis using that ex(2) ok put by blast
qed

subsection \<open>The files of a delivered archive\<close>

lemma comps_inject: "comps p = comps q \<longleftrightarrow> p = q"
proof
  show "comps p = comps q \<Longrightarrow> p = q"
  proof (induction p arbitrary: q)
    case Nil
    then show ?case by (cases q) (auto simp: not_sym [OF split_on_not_Nil] split: if_split_asm list.split_asm)
  next
    case (Cons a p)
    then show ?case
      by (cases q) (auto simp: not_sym [OF split_on_not_Nil] split: if_split_asm list.split_asm)
  qed
qed simp

lemma all_placed_at:
  assumes placed: "all_placed dir tar es w" and dir: "dir \<noteq> []" "resolve w dir = Some root"
    and plain: "\<forall>p \<in> payload_paths es. plain_path p"
    and one: "\<forall>e \<in> set es. \<forall>e' \<in> set es. is_payload_file e \<and> is_payload_file e' \<and> path e = path e' \<longrightarrow>
      entry_data tar e = entry_data tar e'"
    and e: "e \<in> set es" "is_payload_file e"
  shows "files w (root @ comps (path e)) = Some (entry_data tar e)"
proof -
  have at: "l = root @ comps (path x)" if "resolve w (target dir x) = Some l" "x \<in> set es" "is_payload_file x" for x l
  proof -
    have "\<forall>c \<in> set (comps (path x)). plain_comp c" using plain that(2,3) by (auto simp: plain_path_def)
    then show ?thesis
      using that(1) walk_plain [of "comps (path x)" "dirs w" root] resolve_child [OF dir, of "path x"]
      by (simp split: if_split_asm)
  qed
  obtain l d where l: "resolve w (target dir e) = Some l" "files w l = Some d" "comes_from dir tar es w l d"
    using placed e unfolding all_placed_def by blast
  then obtain e' where e': "e' \<in> set es" "is_payload_file e'" "resolve w (target dir e') = Some l" "d = entry_data tar e'"
    unfolding comes_from_def by blast
  have "path e' = path e" using at [OF l(1) e] at [OF e'(3,1,2)] by (simp add: comps_inject)
  then have "entry_data tar e' = entry_data tar e" using one e e'(1,2) by blast
  then show ?thesis using at [OF l(1) e] l(2) e'(4) by simp
qed

end
