(* ===== verification/Fota_Sample.thy ===== *)
theory Fota_Sample
  imports Fota_Update
begin

section \<open>A device and a package to evaluate on\<close>

text \<open>
  A provisioned device without an installed version, and a package of version 2.0.0.0 for it, built from the
  sample archive with the sample libcrypto and zlib.  The properties of the program are applied to them.
\<close>

definition sample_device :: world where
  "sample_device =
     \<lparr>cwd = [],
      dirs = (\<lambda>l. l \<in> {[], [ascii ''etc''], [ascii ''etc'', ascii ''fota-secure''], [ascii ''opt''],
                      [ascii ''opt'', ascii ''fota-secure''], install_loc}),
      files = (\<lambda>_. None)(etc_loc ''signing_public.pem'' := Some [5], etc_loc ''device_private.pem'' := Some [9]),
      no_read = (\<lambda>_. False), no_write = (\<lambda>_. False), read_stop = (\<lambda>_. None), write_stop = (\<lambda>_. None),
      close_fails = (\<lambda>_. False), vfs_space = (\<lambda>_. Some (1048576, 4096)), log = []\<rparr>"

definition sample_head :: "u8 list" where
  "sample_head =
     FOTA_MAGIC @ [1] @ (ascii ''GENERIC'' @ replicate 9 0) @ (ascii ''2.0.0.0'' @ replicate 5 0) @ [0, 32] @ replicate 16 7"

definition sample_package :: "u8 list" where
  "sample_package =
     sample_head @ replicate 32 0 @ replicate 256 (5 + byte_sum (sample_head @ replicate 32 0 @ sample_archive))
     @ sample_archive"

definition sample_stdin :: stream where
  "sample_stdin = \<lparr>avail = sample_package, fails = False, err_flag = False\<rparr>"

definition sample_argv :: "u8 list list" where
  "sample_argv = [ascii ''fota-consumer'', ascii ''-'']"

lemma sample_crypto_contract: "crypto_contract sha256_sample"
  using sample_crypto_contracts(1,2) sha256_sample_digest(1)
  by (simp add: crypto_contract_def pkey_decrypt_contract_def cipher_contract_def sha256_sample_def)

lemmas sample_main_contracts = sample_crypto_contract sample_zlib_contract

lemma sample_package_read: "package_read unlimited sample_argv sample_stdin w = Some sample_package"
  using read_all_complete [of unlimited sample_stdin]
  by (simp add: main_input_def sample_argv_def sample_stdin_def)

lemma sample_fields:
  "length sample_package = 339 + length sample_archive" "take 51 sample_package = sample_head"
  "platform_tag (header_fields sample_package) = wire_platform_tag"
  "fw_version (header_fields sample_package) = ascii ''2.0.0.0'' @ replicate 5 0"
  "unat (wrapped_key_len (header_fields sample_package)) = 32"
  by (simp_all add: sample_package_def sample_head_def header_fields_def FOTA_MAGIC_def wire_platform_tag_def
      FOTA_CONFIG_PLATFORM_TAG_def ascii_def unat_be16 nth_append)

lemma sample_sections:
  "key_section sample_package = replicate 32 0" "payload_section sample_package = sample_archive"
  "payload_start sample_package = 339" "signed_part sample_package = sample_head @ replicate 32 0 @ sample_archive"
  "signature_section sample_package = replicate 256 (5 + byte_sum (sample_head @ replicate 32 0 @ sample_archive))"
proof -
  have l: "length sample_head = 51" by (simp add: sample_head_def FOTA_MAGIC_def ascii_def)
  show k: "key_section sample_package = replicate 32 0"
    using l sample_fields(5) by (simp add: key_section_def) (simp add: sample_package_def)
  show s: "payload_start sample_package = 339" using sample_fields(5) by (simp add: payload_start_def)
  show p: "payload_section sample_package = sample_archive"
    unfolding payload_section_def s using l by (simp add: sample_package_def)
  show "signed_part sample_package = sample_head @ replicate 32 0 @ sample_archive"
    by (simp add: signed_part_def k p sample_fields(2))
  show "signature_section sample_package = replicate 256 (5 + byte_sum (sample_head @ replicate 32 0 @ sample_archive))"
    using l sample_fields(5) by (simp add: signature_section_def) (simp add: sample_package_def)
qed

lemma sample_device_state:
  "provisioned sample_device" "installed_version sample_device = (FOTA_VERSION_READ_OK, Fota_version 0 0 0 0)"
  "override_hash sample_device = None" "resolve sample_device FOTA_CONFIG_INSTALL_DIR = Some install_loc"
  "dirs sample_device install_loc" "room sample_device install_loc {ascii ''a''}"
proof -
  have e: "has_etc sample_device" by (simp add: has_etc_def sample_device_def)
  have n: "version_loc \<noteq> etc_loc ''signing_public.pem''" "version_loc \<noteq> etc_loc ''device_private.pem''"
    "etc_loc ''downgrade_secret.hash'' \<noteq> etc_loc ''signing_public.pem''"
    "etc_loc ''downgrade_secret.hash'' \<noteq> etc_loc ''device_private.pem''"
    by (simp_all add: version_loc_def etc_loc_def ascii_def)
  have f: "files sample_device version_loc = None" "files sample_device (etc_loc ''downgrade_secret.hash'') = None"
    using n by (simp_all add: sample_device_def)
  have d: "\<not> dirs sample_device (etc_loc s)" for s
    by (simp add: sample_device_def etc_loc_def install_loc_def ascii_def)
  show "provisioned sample_device"
    using e d [of "''version''"] by (simp add: provisioned_def readable_def resolve_config no_faults_def version_loc_def)
      (simp add: sample_device_def)
  show "installed_version sample_device = (FOTA_VERSION_READ_OK, Fota_version 0 0 0 0)"
    using e f(1) d [of "''version''"] by (simp add: installed_version_def fopen_rb_def resolve_config version_loc_def)
  show "override_hash sample_device = None"
    using e f(2) d by (simp add: override_hash_def fopen_rb_def resolve_config)
  show "resolve sample_device FOTA_CONFIG_INSTALL_DIR = Some install_loc"
    by (simp add: FOTA_CONFIG_INSTALL_DIR_def resolve_def sample_device_def install_loc_def ascii_def)
  show "dirs sample_device install_loc" by (simp add: sample_device_def)
  show "room sample_device install_loc {ascii ''a''}"
    by (simp add: room_def split_on_no_sep ascii_def sample_device_def install_loc_def)
qed

lemma sample_keys:
  "fota_load_public_key sha256_sample sample_device (Some FOTA_CONFIG_SIGNING_PUBLIC_KEY_FILE) = Some [5]"
  "fota_load_private_key sha256_sample sample_device (Some FOTA_CONFIG_DEVICE_PRIVATE_KEY_FILE) = Some [9]"
proof -
  have etc: "has_etc sample_device" using sample_device_state(1) by (simp add: provisioned_def)
  have "etc_loc ''signing_public.pem'' \<noteq> etc_loc ''device_private.pem''" by (simp add: etc_loc_def ascii_def)
  then have f: "files sample_device (etc_loc ''signing_public.pem'') = Some [5]"
      "files sample_device (etc_loc ''device_private.pem'') = Some [9]" by (simp_all add: sample_device_def)
  have d: "\<not> dirs sample_device (etc_loc s)" "\<not> no_read sample_device l" "read_stop sample_device l = None" for s l
    by (simp_all add: sample_device_def etc_loc_def install_loc_def ascii_def)
  have op: "fopen_rb sample_device FOTA_CONFIG_SIGNING_PUBLIC_KEY_FILE = Some (open_stream [5] None)"
      "fopen_rb sample_device FOTA_CONFIG_DEVICE_PRIVATE_KEY_FILE = Some (open_stream [9] None)"
    using etc f d by (simp_all add: fopen_rb_def resolve_config)
  show "fota_load_public_key sha256_sample sample_device (Some FOTA_CONFIG_SIGNING_PUBLIC_KEY_FILE) = Some [5]"
    "fota_load_private_key sha256_sample sample_device (Some FOTA_CONFIG_DEVICE_PRIVATE_KEY_FILE) = Some [9]"
    using op by (simp_all add: fota_load_public_key_def fota_load_private_key_def sha256_sample_def sample_crypto_def
        open_stream_def)
qed

lemma sample_crypto_facts:
  "signature_valid sha256_sample [5] msg (replicate 256 (5 + byte_sum msg))"
  "unwrapped sha256_sample unlimited [9] (replicate 32 0) = Some (replicate 32 0)"
  "decrypted sha256_sample (replicate 32 0) vec ct = Some ct"
  by (simp_all add: signature_valid_def unwrapped_def ok1_def decrypted_def sha256_sample_def sample_crypto_def)

lemma sample_space:
  "statvfs sample_device FOTA_CONFIG_INSTALL_DIR = Some (1048576, 4096)"
  "(of_nat (length sample_archive) :: u64) \<le> 1048576 * 4096" "sample_archive \<noteq> []"
proof -
  show "statvfs sample_device FOTA_CONFIG_INSTALL_DIR = Some (1048576, 4096)"
    unfolding statvfs_def sample_device_state(4) by (simp add: sample_device_def)
  show "(of_nat (length sample_archive) :: u64) \<le> 1048576 * 4096"
    using sample_archive_facts(5) by (simp add: word_le_nat_alt unat_of_nat take_bit_nat_eq_self)
  show "sample_archive \<noteq> []" by (simp add: sample_archive_def tar_image_def)
qed

lemma sample_authorised:
  "authorised sha256_sample unlimited None sample_package sample_device (Fota_version 2 0 0 0) sample_archive"
proof -
  have "version_spec (cstr (ascii ''2.0.0.0'' @ replicate 5 0)) = Some (Fota_version 2 0 0 0)"
    by (simp add: ascii_def cstr_def version_spec_def component_ok_def dec_val_def version_of_parts_def)
  then have wf: "well_formed_package sample_package (Fota_version 2 0 0 0)"
    using sample_fields(1,3,4)
    by (simp add: well_formed_package_def package_version_def)
       (simp add: sample_package_def sample_head_def FOTA_MAGIC_def ascii_def)
  have ver: "version_passes sha256_sample None sample_device (Fota_version 2 0 0 0)"
    using sample_device_state(2) by (simp add: version_passes_def less_fota_version_def)
  have fits: "fits_device unlimited sample_package sample_device"
    using sample_space sample_archive_facts(5) sample_fields(1) by (simp add: fits_device_def sample_sections)
  have sig: "signed_by_vendor sha256_sample sample_package sample_device"
    using sample_keys(1) sample_crypto_facts(1) by (simp add: signed_by_vendor_def sample_sections)
  have opens: "opens_to sha256_sample unlimited sample_package sample_device sample_archive"
    using sample_keys(2) sample_crypto_facts(2,3) by (simp add: opens_to_def sample_sections)
  show ?thesis using wf ver fits sig opens by (simp add: authorised_def)
qed

subsection \<open>A successful run\<close>

lemma sample_secret: "secret_given sample_argv = None"
  by (simp add: sample_argv_def)

lemma sample_plain: "plain_path (ascii ''a'')" "compatible {ascii ''a''}"
  by (simp_all add: plain_path_def compatible_def split_on_no_sep plain_comp_def ascii_def)

lemma sample_run:
  "\<exists>w'. main TYPE(64) sample_zlib sha256_sample unlimited sample_argv sample_stdin sample_device =
     Some (FOTA_EXIT_SUCCESS, w')"
proof -
  obtain es where es: "archive_accepted TYPE(64) sample_zlib sha256_sample unlimited sample_archive
        (length sample_archive) sample_archive es"
      "map (\<lambda>e. (path e, entry_data sample_archive e)) (filter is_payload_file es) = [(ascii ''a'', [])]"
    using sample_accepted by (elim exE conjE) (rule that)
  have "map path (filter is_payload_file es) = map fst [(ascii ''a'', [] :: u8 list)]"
    unfolding es(2) [symmetric] by simp
  then have "set (map path (filter is_payload_file es)) = {ascii ''a''}" by simp
  then have ps: "payload_paths es = {ascii ''a''}" by (simp only: set_map)
  have W: "36 < LENGTH(64)" and argv: "2 \<le> length sample_argv" by (simp_all add: sample_argv_def)
  have auth: "authorised sha256_sample unlimited (secret_given sample_argv) sample_package sample_device
      (Fota_version 2 0 0 0) sample_archive" unfolding sample_secret by (rule sample_authorised)
  show ?thesis
    by (rule main_succeeds [OF sample_main_contracts W argv sample_package_read auth es(1) sample_device_state(1,4,5)])
       (use sample_plain sample_device_state(6) ps in auto)
qed

lemma sample_blob: "build_header FOTA_CONFIG_PLATFORM_TAG (ascii ''2.0.0.0'') (replicate 16 7) 32 = Inr sample_head"
  "assemble sample_head (replicate 32 0)
     (replicate 256 (5 + byte_sum (sample_head @ replicate 32 0 @ sample_archive))) sample_archive = Inr sample_package"
  by (simp_all add: build_header_Inr sample_head_def FOTA_CONFIG_PLATFORM_TAG_def ascii_def struct_H_def assemble_def
      SIGNATURE_SIZE_def header_sizes sample_package_def)

end
