(* ===== verification/Fota_Program.thy ===== *)
theory Fota_Program
  imports Fota_Sample Fota_Blob
begin

section \<open>Properties of the whole program\<close>

text \<open>
  The properties of the consumer as a whole, over single runs of \<open>main\<close> and over sequences of runs, and the delivery of
  what the packager packed to the file system of the device.
\<close>

subsection \<open>From the packager to the consumer\<close>

text \<open>
  \<open>blob_for\<close>: the bytes that the packager assembles for a device whose private key is \<open>sk\<close>, signed with the
  key whose public half is \<open>pk\<close>.  What the cryptographic calls of the packager achieve is said by the consumer's
  side of them: the signature verifies, the wrapped key unwraps, the ciphertext decrypts.
\<close>

definition blob_for ::
    "'h openssl \<Rightarrow> allocator \<Rightarrow> 'h \<Rightarrow> 'h \<Rightarrow> u8 list \<Rightarrow> u8 list \<Rightarrow> u8 list \<Rightarrow> bool"
where
  "blob_for C alloc pk sk fw gz blob \<longleftrightarrow>
     (\<exists>vec hdr wk sig ct k.
        build_header FOTA_CONFIG_PLATFORM_TAG fw vec (int (length wk)) = Inr hdr \<and> assemble hdr wk sig ct = Inr blob \<and>
        signature_valid C pk (hdr @ wk @ ct) sig \<and> unwrapped C alloc sk wk = Some k \<and> length k = 32 \<and>
        decrypted C k vec ct = Some gz \<and> ct \<noteq> [] \<and> length ct \<le> 2147483647)"

lemma version_spec_no_nul: "version_spec fw = Some v \<Longrightarrow> 0 \<notin> set fw"
proof
  assume v: "version_spec fw = Some v" and "0 \<in> set fw"
  then obtain p where "p \<in> set (split_on dot fw)" "0 \<in> set p" using split_on_covers [of 0 fw dot] by auto
  moreover from this have "\<forall>b \<in> set p. is_digit b"
    using v by (simp add: version_spec_def component_ok_def Let_def split: if_split_asm)
  ultimately show False by force
qed

lemma blob_authorised:
  assumes blob: "blob_for C alloc pk sk fw gz blob" and v: "version_spec fw = Some v"
    and keys: "fota_load_public_key C w (Some FOTA_CONFIG_SIGNING_PUBLIC_KEY_FILE) = Some pk"
      "fota_load_private_key C w (Some FOTA_CONFIG_DEVICE_PRIVATE_KEY_FILE) = Some sk"
    and new: "installed_version w = (FOTA_VERSION_READ_OK, installed)" "installed < v"
    and space: "statvfs w FOTA_CONFIG_INSTALL_DIR = Some (bavail, frsize)"
      "of_nat (length (payload_section blob)) \<le> bavail * frsize"
    and mem: "\<forall>s n. alloc s n"
  shows "authorised C alloc secret blob w v gz"
proof -
  obtain vec hdr wk sig ct k where b:
      "build_header FOTA_CONFIG_PLATFORM_TAG fw vec (int (length wk)) = Inr hdr" "assemble hdr wk sig ct = Inr blob"
      "signature_valid C pk (hdr @ wk @ ct) sig" "unwrapped C alloc sk wk = Some k" "length k = 32"
      "decrypted C k vec ct = Some gz" "ct \<noteq> []" "length ct \<le> 2147483647"
    using blob unfolding blob_for_def by (elim exE conjE) (rule that)
  note s = blob_layout [OF b(1,2)]
  have "cstr (fw @ replicate (12 - length fw) 0) = fw"
    using version_spec_no_nul [OF v] by (cases "12 - length fw") (simp_all add: cstr_id cstr_append_nul)
  then have "well_formed_package blob v"
    using s v by (simp add: well_formed_package_def package_version_def wire_platform_tag_def)
  moreover have "version_passes C secret w v" using new by (simp add: version_passes_def)
  moreover have "payload_start blob < length blob" using s(9) b(7) by (auto simp: payload_section_def)
  then have "fits_device alloc blob w" using s(9) b(8) space mem by (simp add: fits_device_def)
  moreover have "signed_by_vendor C blob w" using keys(1) b(3) s by (simp add: signed_by_vendor_def)
  moreover have "opens_to C alloc blob w gz" using keys(2) b(4-6) s by (simp add: opens_to_def)
  ultimately show ?thesis by (simp add: authorised_def)
qed

text \<open>
  A blob that the packager assembled from an archive of plain, compatible paths, for this device and with a newer version, is
  installed by a provisioned device with room.
\<close>

lemma packed_update_is_delivered:
  assumes "crypto_contract C" and "zlib_contract Z" and "36 < LENGTH('s)" and "\<forall>s n. alloc s n"
    and blob: "blob_for C alloc pk sk fw gz blob" "version_spec fw = Some v"
    and zipped: "fota_gunzip Z alloc (Some gz) (length gz) (512 * 1024 * 1024) True = Some (Inr archive)"
    and packed: "packable fs" "\<forall>f. wf_meta (m f)" "512 \<le> tail_len"
      "\<forall>x \<in> {platform, fw_text, build_date, git_commit}. plain_value x \<and> printable x"
      "\<forall>d. EVP_Digest C d EVP_sha256 = (1, hash d) \<and> length (hash d) = 32"
      "length (snd (last (packed_members hash platform fw_text build_date git_commit fs))) < 8 ^ 11"
      "archive = tar_image m (packed_members hash platform fw_text build_date git_commit fs) tail_len"
      "\<forall>p \<in> fst ` set fs. plain_path p" "compatible (fst ` set fs)"
    and device: "provisioned w" "resolve w FOTA_CONFIG_INSTALL_DIR = Some install_loc" "dirs w install_loc"
      "room w install_loc (fst ` set fs)" "installed_version w = (FOTA_VERSION_READ_OK, installed)" "installed < v"
      "fota_load_public_key C w (Some FOTA_CONFIG_SIGNING_PUBLIC_KEY_FILE) = Some pk"
      "fota_load_private_key C w (Some FOTA_CONFIG_DEVICE_PRIVATE_KEY_FILE) = Some sk"
      "statvfs w FOTA_CONFIG_INSTALL_DIR = Some (bavail, frsize)"
      "of_nat (length (payload_section blob)) \<le> bavail * frsize"
    and input: "2 \<le> length argv" "Option.bind (main_input (argv ! 1) stdin w) (read_all alloc) = Some blob"
  shows "\<exists>w'. main TYPE('s::len) Z C alloc argv stdin w = Some (FOTA_EXIT_SUCCESS, w') \<and>
    (\<forall>(p, d) \<in> set fs. files w' (install_loc @ split_on slash p) = Some d) \<and>
    installed_version w' = (FOTA_VERSION_READ_OK, v)"
proof -
  have auth: "authorised C alloc (secret_given argv) blob w v gz"
    by (rule blob_authorised [OF blob device(7,8,5,6,9,10) assms(4)])
  have D: "digest_contract C" using assms(1) by (simp add: crypto_contract_def)
  obtain r where "fota_gunzip Z alloc (Some gz) (length gz) (512 * 1024 * 1024) True = Some r"
      "case r of Inr x \<Rightarrow> length x \<le> 512 * 1024 * 1024 \<and>
          inflates Z (snd (inflateInit2 Z (16 + MAX_WBITS))) (take (length gz mod 2 ^ 32) gz) x
        | Inl e \<Rightarrow> e \<in> {FOTA_INSTALL_ERR_INVALID_ARG, FOTA_INSTALL_ERR_DECOMPRESSED_TOO_LARGE,
                     FOTA_INSTALL_ERR_DECOMPRESS_FAILED}"
    by (rule gunzip_cases [OF assms(2) order_refl])
  then have "length archive \<le> 512 * 1024 * 1024" using zipped by simp
  then have "length archive \<le> 2 ^ 29" by simp
  also have "(2 :: nat) ^ 29 < 2 ^ LENGTH('s)" using assms(3) by (intro power_strict_increasing) simp_all
  finally obtain es where es: "fota_tar_parse TYPE('s) alloc (Some archive) (length archive) True = Some (Inr es)"
      "fota_verify_manifest C alloc archive (Some es) = Some FOTA_INSTALL_OK"
      "map (\<lambda>e. (path e, entry_data archive e)) (filter is_payload_file es) = fs"
    using packed_accepted [OF assms(3) _ assms(4) packed(2,3,1,4-7)] by blast
  then have acc: "archive_accepted TYPE('s) Z C alloc gz (length gz) archive es"
    using zipped by (simp add: archive_accepted_def FOTA_INSTALLER_MAX_DECOMPRESSED_SIZE_def)
  have ps: "payload_paths es = fst ` set fs" using es(3) by (auto simp: image_iff)
  obtain w1 w' where run: "main TYPE('s) Z C alloc argv stdin w = Some (FOTA_EXIT_SUCCESS, w')"
    "extracted FOTA_CONFIG_INSTALL_DIR archive es FOTA_INSTALL_OK (with_log checks_passed w) w1"
    "put_file FOTA_CONFIG_VERSION_FILE (version_text v) w1 = (True, w')" "provisioned w'"
    by (rule main_succeeds [OF assms(1-3) input auth acc device(1-3)]) (use packed(8,9) device(4) ps in simp_all)
  have pl: "all_placed FOTA_CONFIG_INSTALL_DIR archive es w1" using run(2) by (simp add: extracted_def)
  have "installs (resolve (with_log checks_passed w) FOTA_CONFIG_INSTALL_DIR)
      (emit Ev_validated (with_log checks_passed w)) w1" using run(2) by (simp add: extracted_def)
  from installs_resolve [OF this] have root: "resolve w1 FOTA_CONFIG_INSTALL_DIR = Some install_loc"
    using device(2) by simp
  have "distinct (map path (filter is_payload_file es))"
    using packed(1) es(3) [symmetric] by (simp add: packable_def comp_def)
  then have one: "\<forall>e \<in> set es. \<forall>e' \<in> set es. is_payload_file e \<and> is_payload_file e' \<and> path e = path e' \<longrightarrow>
      entry_data archive e = entry_data archive e'"
    by (auto simp: distinct_map inj_on_def)
  have plain: "\<forall>x \<in> payload_paths es. plain_path x" unfolding ps by (rule packed(8))
  have "files w' (install_loc @ split_on slash p) = Some d" if pd: "(p, d) \<in> set fs" for p d
  proof -
    obtain e where e: "e \<in> set es" "is_payload_file e" "path e = p" "entry_data archive e = d"
      using pd unfolding es(3) [symmetric] by auto
    have "prefix install_loc (install_loc @ split_on slash p)" by simp
    then have "install_loc @ split_on slash p \<noteq> version_loc" using etc_not_installed(5) by metis
    then show ?thesis
      using all_placed_at [OF pl install_dir_not_Nil root plain one e(1,2)] e(3,4) put_version_keeps(2) [OF run(3)]
      by simp
  qed
  moreover have "installed_version w' = (FOTA_VERSION_READ_OK, v)"
    using version_recorded [OF run(3)] extracted_keeps(8) [OF run(2)] device(1) by (simp add: provisioned_def)
  ultimately show ?thesis using run(1) by blast
qed

subsection \<open>Properties\<close>

text \<open>
  C1. Authenticity: whatever input and arguments \<open>main\<close> is given, if any file or directory changes, or the exit code is
  success, then the input was a well-formed package for this platform whose signature verifies with the device's
  signing key, of a version that passes the downgrade check, that unwraps and decrypts to an archive which the tar
  parser and the manifest accept; and only the install directory and the version file changed.
\<close>

theorem main_authentic:
  assumes "crypto_contract C" and "zlib_contract Z" and "36 < LENGTH('s)"
    and "main TYPE('s::len) Z C alloc argv stdin w = Some (c, w')"
    and "files w' \<noteq> files w \<or> dirs w' \<noteq> dirs w \<or> c = FOTA_EXIT_SUCCESS"
  shows "(\<exists>data v archive tar es.
      Option.bind (main_input (argv ! 1) stdin w) (read_all alloc) = Some data \<and>
      well_formed_package data v \<and> signed_by_vendor C data w \<and>
      version_passes C (downgrade_secret_arg None (drop 2 argv)) w v \<and> opens_to C alloc data w archive \<and>
      archive_accepted TYPE('s) Z C alloc archive (length archive) tar es \<and> manifest_agrees C tar es) \<and>
    (\<forall>l. files w' l \<noteq> files w l \<or> dirs w' l \<noteq> dirs w l \<longrightarrow> prefix install_loc l \<or> l = version_loc)"
proof -
  have kept: "(\<forall>l. files w1 l \<noteq> files w l \<or> dirs w1 l \<noteq> dirs w l \<longrightarrow> prefix install_loc l)"
    if "extracted FOTA_CONFIG_INSTALL_DIR tar es r (with_log checks_passed w) w1" for tar es r w1
  proof -
    have "installs (resolve w FOTA_CONFIG_INSTALL_DIR) (emit Ev_validated (with_log checks_passed w)) w1"
      using that by (simp add: extracted_def)
    then show ?thesis using inside_install_dir unfolding installs_def by (auto simp: emit_with_log)
  qed
  show ?thesis
  proof (rule main_cases [OF assms(1-3), where alloc = alloc and argv = argv and stdin = stdin and w = w])
    fix c2 evs r
    assume "main TYPE('s) Z C alloc argv stdin w = Some (c2, with_log evs w)" "c2 \<noteq> FOTA_EXIT_SUCCESS"
    then show ?thesis using assms(4,5) by simp
  next
    fix data v pt tar es w2
    assume "main TYPE('s) Z C alloc argv stdin w = Some (FOTA_EXIT_GENERIC_FAILURE, w2)"
      and ok: "package_read alloc argv stdin w = Some data" "authorised C alloc (secret_given argv) data w v pt"
        "archive_accepted TYPE('s) Z C alloc pt (length pt) tar es" "manifest_agrees C tar es"
      and ex: "extracted FOTA_CONFIG_INSTALL_DIR tar es FOTA_INSTALL_ERR_IO (with_log checks_passed w) w2"
    then have "w2 = w'" using assms(4) by simp
    then show ?thesis using ok kept [OF ex] unfolding authorised_def by blast
  next
    fix ok data v pt tar es w1 w2
    assume "main TYPE('s) Z C alloc argv stdin w = Some (if ok then FOTA_EXIT_SUCCESS else FOTA_EXIT_GENERIC_FAILURE, w2)"
      and ok: "package_read alloc argv stdin w = Some data" "authorised C alloc (secret_given argv) data w v pt"
        "archive_accepted TYPE('s) Z C alloc pt (length pt) tar es" "manifest_agrees C tar es"
      and ex: "extracted FOTA_CONFIG_INSTALL_DIR tar es FOTA_INSTALL_OK (with_log checks_passed w) w1"
      and put: "put_file FOTA_CONFIG_VERSION_FILE (version_text v) w1 = (ok, w2)"
    then have "w2 = w'" using assms(4) by simp
    moreover have "\<forall>l. files w2 l \<noteq> files w l \<or> dirs w2 l \<noteq> dirs w l \<longrightarrow> prefix install_loc l \<or> l = version_loc"
      using kept [OF ex] put_version_keeps(2) [OF put] put_file_dirs(1) [OF put] by metis
    ultimately show ?thesis using ok unfolding authorised_def by blast
  qed
qed

theorem main_authentic_witness:
  "\<exists>data v. package_read unlimited sample_argv sample_stdin sample_device = Some data \<and>
    well_formed_package data v \<and> signed_by_vendor sha256_sample data sample_device"
proof -
  obtain w' where run: "main TYPE(64) sample_zlib sha256_sample unlimited sample_argv sample_stdin sample_device =
     Some (FOTA_EXIT_SUCCESS, w')" using sample_run by blast
  have "36 < LENGTH(64)" by simp
  from main_authentic [OF sample_main_contracts this run] show ?thesis by blast
qed

text \<open>
  C2. Order of events: the security-relevant calls of every run follow the automaton \<open>phase_step\<close>.  The signature is verified
  before the key is unwrapped, that before the payload is decrypted, that before the archive is validated, and
  nothing is created or written before all four have succeeded; after a failed check nothing happens.  Writes stay
  below the install directory until the last one, and a run that reports success ends with the version file.
\<close>

theorem main_order:
  assumes "crypto_contract C" and "zlib_contract Z" and "36 < LENGTH('s)"
    and "main TYPE('s::len) Z C alloc argv stdin w = Some (c, w')"
  shows "\<exists>evs r. log w' = log w @ evs \<and> phase_run (Some install_loc) (Some version_loc) Idle evs r \<and>
    (c = FOTA_EXIT_SUCCESS \<longrightarrow> r = Persisted \<and> (\<exists>evs'. evs = evs' @ [Ev_write version_loc])) \<and>
    ((\<exists>l. Ev_mkdir l \<in> set evs \<or> Ev_write l \<in> set evs) \<longrightarrow>
       (\<exists>rest. evs = [Ev_verify True, Ev_unwrap True, Ev_decrypt True, Ev_validated] @ rest))"
proof -
  have goal: ?thesis if "log w' = log w @ evs" "phase_run (Some install_loc) (Some version_loc) Idle evs r"
      "c = FOTA_EXIT_SUCCESS \<longrightarrow> r = Persisted \<and> (\<exists>evs'. evs = evs' @ [Ev_write version_loc])" for evs r
  proof -
    have "(\<exists>l. Ev_mkdir l \<in> set evs \<or> Ev_write l \<in> set evs) \<longrightarrow>
       (\<exists>rest. evs = [Ev_verify True, Ev_unwrap True, Ev_decrypt True, Ev_validated] @ rest)"
      using phase_run_checked [OF that(2)] by (auto simp: changes_device_def)
    then show ?thesis using that by blast
  qed
  have part: "\<exists>evs. log w1 = log w @ evs \<and> phase_run (Some install_loc) (Some version_loc) Idle evs Validated"
    if "extracted FOTA_CONFIG_INSTALL_DIR tar es r (with_log checks_passed w) w1" for tar es r w1
  proof -
    have "installs (resolve (with_log checks_passed w) FOTA_CONFIG_INSTALL_DIR)
        (emit Ev_validated (with_log checks_passed w)) w1" using that by (simp add: extracted_def)
    from installs_log [OF this, of "Some version_loc"] show ?thesis by auto
  qed
  show ?thesis
  proof (rule main_cases [OF assms(1-3), where alloc = alloc and argv = argv and stdin = stdin and w = w])
    fix c2 evs r
    assume "main TYPE('s) Z C alloc argv stdin w = Some (c2, with_log evs w)" "c2 \<noteq> FOTA_EXIT_SUCCESS"
      "phase_run (Some install_loc) (Some version_loc) Idle evs r"
    then show ?thesis using goal [of evs r] assms(4) by simp
  next
    fix data v pt tar es w2
    assume m: "main TYPE('s) Z C alloc argv stdin w = Some (FOTA_EXIT_GENERIC_FAILURE, w2)"
      and ex: "extracted FOTA_CONFIG_INSTALL_DIR tar es FOTA_INSTALL_ERR_IO (with_log checks_passed w) w2"
    obtain evs where "log w2 = log w @ evs" "phase_run (Some install_loc) (Some version_loc) Idle evs Validated"
      using part [OF ex] by blast
    then show ?thesis using goal [of evs Validated] m assms(4) by simp
  next
    fix ok data v pt tar es w1 w2
    assume m: "main TYPE('s) Z C alloc argv stdin w = Some (if ok then FOTA_EXIT_SUCCESS else FOTA_EXIT_GENERIC_FAILURE, w2)"
      and ex: "extracted FOTA_CONFIG_INSTALL_DIR tar es FOTA_INSTALL_OK (with_log checks_passed w) w1"
      and put: "put_file FOTA_CONFIG_VERSION_FILE (version_text v) w1 = (ok, w2)"
    obtain evs where evs: "log w1 = log w @ evs" "phase_run (Some install_loc) (Some version_loc) Idle evs Validated"
      using part [OF ex] by blast
    have w2: "w2 = w'" "c = FOTA_EXIT_SUCCESS \<longleftrightarrow> ok" using m assms(4) by auto
    show ?thesis
    proof (cases "log w2 = log w1")
      case True
      have "\<not> ok" using put_file_logged [of FOTA_CONFIG_VERSION_FILE "version_text v" w1 w2] put True by auto
      then show ?thesis using goal [of evs Validated] evs w2 True by simp
    next
      case False
      then have l: "log w2 = log w1 @ [Ev_write version_loc]"
        using put_file_log [OF put] by (auto simp: resolve_config split: if_split_asm)
      have "phase_run (Some install_loc) (Some version_loc) Validated [Ev_write version_loc] Persisted"
        by (rule move [OF persist stay]) simp
      then have "phase_run (Some install_loc) (Some version_loc) Idle (evs @ [Ev_write version_loc]) Persisted"
        using evs(2) phase_run_append by blast
      then show ?thesis using goal [of "evs @ [Ev_write version_loc]" Persisted] evs(1) w2(1) l by simp
    qed
  qed
qed

theorem main_order_witness:
  "\<exists>w' evs. main TYPE(64) sample_zlib sha256_sample unlimited sample_argv sample_stdin sample_device =
      Some (FOTA_EXIT_SUCCESS, w') \<and> log w' = log sample_device @ evs @ [Ev_write version_loc] \<and>
    phase_run (Some install_loc) (Some version_loc) Idle (evs @ [Ev_write version_loc]) Persisted"
proof -
  obtain w' where run: "main TYPE(64) sample_zlib sha256_sample unlimited sample_argv sample_stdin sample_device =
     Some (FOTA_EXIT_SUCCESS, w')" using sample_run by blast
  have "36 < LENGTH(64)" by simp
  from main_order [OF sample_main_contracts this run] run show ?thesis by auto
qed

text \<open>
  C6. Memory safety and termination: with a \<open>size_t\<close> of more than 36 bits and libraries that keep their documented
  bounds, \<open>main\<close> returns for every command line, input, file system and pattern of failures, without an access outside a
  buffer.
\<close>

theorem main_returns:
  assumes "crypto_contract C" and "zlib_contract Z" and "36 < LENGTH('s)"
  shows "\<exists>c w'. main TYPE('s::len) Z C alloc argv stdin w = Some (c, w')"
  by (rule main_cases [OF assms, where alloc = alloc and argv = argv and stdin = stdin and w = w]) blast+

theorem main_returns_witness:
  "\<exists>c w'. main TYPE(64) sample_zlib sha256_sample unlimited [ascii ''x'', ascii ''/f''] sample_stdin install_world =
    Some (c, w')"
  by (rule main_returns [OF sample_main_contracts]) simp

text \<open>
  C7. The program computes its decision: behind the reading of the input \<open>main\<close> is \<open>perform_update\<close> of \<open>decide\<close>.
  \<open>decide\<close> is a function of byte strings without buffers, offsets or output parameters; it gives the exit codes of
  the checks (3, 4, 6, 2, 7, 5, 8, and 1 for a missing key or memory) their conditions or yields version and plaintext.
  \<open>perform_update\<close> gives those of the installation theirs: 9 when the archive is too large, holds an unsafe path or an
  unsupported entry, or has a missing, unparsable or wrong manifest; 1 when it cannot be decompressed or parsed or a
  write fails; 0 when every entry and then the version were written.
\<close>

theorem main_refines_decision:
  assumes "crypto_contract C" and "zlib_contract Z" and "36 < LENGTH('s)"
  shows "main TYPE('s::len) Z C alloc argv stdin w =
    (if length argv < 2 then Some (FOTA_EXIT_GENERIC_FAILURE, w)
     else case Option.bind (main_input (argv ! 1) stdin w) (read_all alloc) of
         None \<Rightarrow> Some (FOTA_EXIT_GENERIC_FAILURE, w)
       | Some data \<Rightarrow>
           perform_update TYPE('s) Z C alloc (decide C alloc (downgrade_secret_arg None (drop 2 argv)) data w) w)"
proof -
  have D: "digest_contract C" using assms(1) by (simp add: crypto_contract_def)
  show ?thesis unfolding main_eq [OF assms(1)] perform_eq [OF assms(2) D assms(3)] ..
qed

theorem main_refines_decision_witness:
  "main TYPE(64) sample_zlib sha256_sample unlimited [ascii ''x'', ascii ''-'']
     \<lparr>avail = [1, 2, 3], fails = False, err_flag = False\<rparr> install_world = Some (FOTA_EXIT_MALFORMED_HEADER, install_world)"
proof -
  let ?s = "\<lparr>avail = [1, 2, 3], fails = False, err_flag = False\<rparr>"
  have "read_all unlimited ?s = Some [1, 2, 3]" using read_all_complete [of unlimited ?s] by simp
  then show ?thesis
    by (subst main_refines_decision [OF sample_main_contracts])
       (simp_all add: main_input_def decide_def perform_update_def)
qed

text \<open>
  C5. No rollback: on a provisioned device whose writes succeed and which has no override hash, every sequence of runs with
  any arguments and inputs ends, none lowers the installed version, and every successful run raises it.
\<close>

theorem versions_never_decrease:
  assumes "crypto_contract C" and "zlib_contract Z" and "36 < LENGTH('s)"
    and "provisioned w" and "override_hash w = None" and "installed_version w = (FOTA_VERSION_READ_OK, v)"
  shows "\<exists>cs w' v'. run_all TYPE('s::len) Z C alloc inputs w = Some (cs, w') \<and>
    installed_version w' = (FOTA_VERSION_READ_OK, v') \<and> v \<le> v' \<and> (FOTA_EXIT_SUCCESS \<in> set cs \<longrightarrow> v < v')"
proof -
  have "locked_device TYPE('s) Z C w" using assms by (simp add: locked_device_def)
  from device.seq_monotone [OF this, of alloc inputs] obtain cs w'
    where run: "run_all TYPE('s) Z C alloc inputs w = Some (cs, w')" "locked_device TYPE('s) Z C w'"
      "v \<le> snd (installed_version w')" "FOTA_EXIT_SUCCESS \<in> set cs \<longrightarrow> v < snd (installed_version w')"
    using assms(6) unfolding run_all_def by auto
  have "installed_version w' = (FOTA_VERSION_READ_OK, snd (installed_version w'))"
    using run(2) by (simp add: locked_device_def prod_eq_iff)
  then show ?thesis using run by blast
qed

theorem versions_never_decrease_witness:
  "\<exists>cs w' v'. run_all TYPE(64) sample_zlib sha256_sample unlimited
      [(sample_argv, sample_stdin), (sample_argv, sample_stdin)] sample_device = Some (cs, w') \<and>
    installed_version w' = (FOTA_VERSION_READ_OK, v') \<and> Fota_version 0 0 0 0 < v'"
proof -
  have W: "36 < LENGTH(64)" by simp
  obtain w1 where "main TYPE(64) sample_zlib sha256_sample unlimited sample_argv sample_stdin sample_device =
     Some (FOTA_EXIT_SUCCESS, w1)" using sample_run by blast
  then have "FOTA_EXIT_SUCCESS \<in> set cs" if "run_all TYPE(64) sample_zlib sha256_sample unlimited
      [(sample_argv, sample_stdin), (sample_argv, sample_stdin)] sample_device = Some (cs, w')" for cs w'
    using that by (auto simp: run_all_def split: Option.bind_split_asm)
  with versions_never_decrease [OF sample_main_contracts W sample_device_state(1,3,2), of unlimited
      "[(sample_argv, sample_stdin), (sample_argv, sample_stdin)]"]
  show ?thesis by blast
qed

text \<open>
  C14. Success is recorded: after a successful run on a device with a readable version file the installed version is
  the package's, and the same package is reported as up to date by any further run, which changes nothing.
\<close>

theorem success_is_recorded:
  assumes "crypto_contract C" and "zlib_contract Z" and "36 < LENGTH('s)"
    and "main TYPE('s::len) Z C alloc argv stdin w = Some (FOTA_EXIT_SUCCESS, w')"
    and "readable w FOTA_CONFIG_VERSION_FILE"
  shows "\<exists>data v. Option.bind (main_input (argv ! 1) stdin w) (read_all alloc) = Some data \<and>
    package_version data = Some v \<and> installed_version w' = (FOTA_VERSION_READ_OK, v) \<and>
    (\<forall>alloc' argv' stdin'. 2 \<le> length argv' \<and>
       Option.bind (main_input (argv' ! 1) stdin' w') (read_all alloc') = Some data \<longrightarrow>
       main TYPE('s) Z C alloc' argv' stdin' w' = Some (FOTA_EXIT_UP_TO_DATE, w'))"
proof (rule main_cases [OF assms(1-3), where alloc = alloc and argv = argv and stdin = stdin and w = w])
  fix ok data v pt tar es w1 w2
  assume m: "main TYPE('s) Z C alloc argv stdin w = Some (if ok then FOTA_EXIT_SUCCESS else FOTA_EXIT_GENERIC_FAILURE, w2)"
    and data: "package_read alloc argv stdin w = Some data" "authorised C alloc (secret_given argv) data w v pt"
    and ex: "extracted FOTA_CONFIG_INSTALL_DIR tar es FOTA_INSTALL_OK (with_log checks_passed w) w1"
    and put: "put_file FOTA_CONFIG_VERSION_FILE (version_text v) w1 = (ok, w2)"
  have ok: ok "w2 = w'" using m assms(4) by (auto split: if_split_asm)
  have "readable w1 FOTA_CONFIG_VERSION_FILE" using extracted_keeps(5) [OF ex] assms(5) by simp
  then have v: "installed_version w' = (FOTA_VERSION_READ_OK, v)" using version_recorded [of v w1 w'] put ok by simp
  have wf: "well_formed_package data v" using data(2) by (simp add: authorised_def)
  then have "decide C alloc' secret data w' = ([], Inl FOTA_EXIT_UP_TO_DATE)" for alloc' secret
    using v by (auto simp: decide_def decide_version_def well_formed_package_def)
  then have "main TYPE('s) Z C alloc' argv' stdin' w' = Some (FOTA_EXIT_UP_TO_DATE, w')"
    if "2 \<le> length argv'" "package_read alloc' argv' stdin' w' = Some data" for alloc' argv' stdin'
    using that by (simp add: main_eq [OF assms(1)] perform_def)
  then show ?thesis using data(1) wf v unfolding well_formed_package_def by blast
qed (use assms(4) in auto)

theorem success_is_recorded_witness:
  "\<exists>w' v. main TYPE(64) sample_zlib sha256_sample unlimited sample_argv sample_stdin sample_device =
      Some (FOTA_EXIT_SUCCESS, w') \<and> installed_version w' = (FOTA_VERSION_READ_OK, v) \<and>
    main TYPE(64) sample_zlib sha256_sample unlimited sample_argv sample_stdin w' = Some (FOTA_EXIT_UP_TO_DATE, w')"
proof -
  have W: "36 < LENGTH(64)" by simp
  obtain w' where run: "main TYPE(64) sample_zlib sha256_sample unlimited sample_argv sample_stdin sample_device =
     Some (FOTA_EXIT_SUCCESS, w')" using sample_run by blast
  have r: "readable sample_device FOTA_CONFIG_VERSION_FILE" using sample_device_state(1) by (simp add: provisioned_def)
  obtain v where v: "installed_version w' = (FOTA_VERSION_READ_OK, v)"
      and again: "\<And>alloc' argv' stdin'. 2 \<le> length argv' \<Longrightarrow> package_read alloc' argv' stdin' w' = Some sample_package \<Longrightarrow>
        main TYPE(64) sample_zlib sha256_sample alloc' argv' stdin' w' = Some (FOTA_EXIT_UP_TO_DATE, w')"
    using success_is_recorded [OF sample_main_contracts W run r] sample_package_read by auto
  have "2 \<le> length sample_argv" by (simp add: sample_argv_def)
  from again [OF this sample_package_read] show ?thesis using run v by blast
qed

theorem packed_update_is_delivered_witness:
  "\<exists>w'. main TYPE(64) sample_zlib sha256_sample unlimited sample_argv sample_stdin sample_device =
      Some (FOTA_EXIT_SUCCESS, w') \<and>
    (\<forall>(p, d) \<in> set [(ascii ''a'', [])]. files w' (install_loc @ split_on slash p) = Some d) \<and>
    installed_version w' = (FOTA_VERSION_READ_OK, Fota_version 2 0 0 0)"
proof (rule packed_update_is_delivered [OF sample_main_contracts _ _ _ _ _ sample_archive_facts(1) sample_meta_wf _
      sample_archive_facts(2,3) _ _ _ _ sample_device_state(1,4,5) _ sample_device_state(2) _ sample_keys
      sample_space(1) _ _ sample_package_read])
  show "blob_for sha256_sample unlimited [5] [9] (ascii ''2.0.0.0'') sample_archive sample_package"
    using sample_blob sample_crypto_facts sample_space(3) sample_archive_facts(5)
    unfolding blob_for_def
    by (intro exI [of _ "replicate 16 7"] exI [of _ sample_head] exI [of _ "replicate 32 0"]
        exI [of _ "replicate 256 (5 + byte_sum (sample_head @ replicate 32 0 @ sample_archive))"]
        exI [of _ sample_archive] exI) (intro conjI, simp_all)
  show "version_spec (ascii ''2.0.0.0'') = Some (Fota_version 2 0 0 0)"
    by (simp add: ascii_def version_spec_def component_ok_def dec_val_def version_of_parts_def)
  show "fota_gunzip sample_zlib unlimited (Some sample_archive) (length sample_archive) (512 * 1024 * 1024) True =
      Some (Inr sample_archive)"
    using sample_gunzip [of sample_archive] sample_space(3) sample_archive_facts(5)
    by (simp add: FOTA_INSTALLER_MAX_DECOMPRESSED_SIZE_def)
  show "length (snd (last (packed_members sample_hash (ascii ''GENERIC'') (ascii ''2.0.0.0'')
      (ascii ''2024-01-01T00:00:00Z'') (ascii ''unknown'') [(ascii ''a'', [])]))) < 8 ^ 11"
    using sample_archive_facts(4) by (simp add: sample_members_def)
  show "(Fota_version 0 0 0 0) < Fota_version 2 0 0 0" by (simp add: less_fota_version_def)
qed (use sample_plain sample_device_state(6) sample_space(2) in
    \<open>simp_all add: sample_archive_def sample_members_def sample_sections sample_argv_def\<close>)

text \<open>
  A failed write of the version file loses the version: when the device is full the writer has already truncated the
  file, it reports -1, and from then on the reader returns 0.0.0.0 without an error, so that every other version
  passes the downgrade check.
\<close>

theorem failed_write_forgets_version:
  assumes "resolve w p = Some l" and "\<not> no_write w l" and "\<not> dirs w l" and "dirs w (butlast l)"
    and "readable w p" and "write_stop w l = Some 0"
  shows "\<exists>w'. fota_version_write_installed (Some p) (Some v) w = (-1, w') \<and>
    fota_version_read_installed w' (Some p) = Some (FOTA_VERSION_READ_OK, Fota_version 0 0 0 0) \<and>
    (new \<noteq> Fota_version 0 0 0 0 \<longrightarrow>
       fota_downgrade_check C new (Fota_version 0 0 0 0) secret n stored = Some FOTA_DOWNGRADE_CHECK_ALLOW)"
proof -
  obtain w' where w': "put_file p (version_text v) w = (False, w')" "files w' l = Some []"
    using assms by (simp add: stdio_defs Let_def version_text_def)
  have "fopen_rb w' p = Some (open_stream [] None)"
    using assms(1,3,5) put_file_resolve [OF w'(1)] put_file_dirs [OF w'(1)] w'(2)
    by (simp add: fopen_rb_def readable_def)
  then have "fota_version_read_installed w' (Some p) = Some (FOTA_VERSION_READ_OK, Fota_version 0 0 0 0)"
    by (simp add: read_installed_stream open_stream_def installed_spec_def strip_def)
  moreover have "fota_version_compare new (Fota_version 0 0 0 0) > 0" if "new \<noteq> Fota_version 0 0 0 0"
  proof -
    have "0 \<le> fota_version_compare new (Fota_version 0 0 0 0)" by (simp add: compare_cases)
    then show ?thesis using that compare_eq [of new "Fota_version 0 0 0 0"] by linarith
  qed
  ultimately show ?thesis using w'(1) by (auto simp: write_installed_put_file fota_downgrade_check_def)
qed

definition full_device :: world where
  "full_device = sample_device\<lparr>files := (\<lambda>_. Some (ascii ''5.0.0.0'')), write_stop := (\<lambda>_. Some 0)\<rparr>"

theorem failed_write_forgets_version_witness:
  "\<exists>w'. fota_version_read_installed full_device (Some FOTA_CONFIG_VERSION_FILE) =
      Some (FOTA_VERSION_READ_OK, Fota_version 5 0 0 0) \<and>
    fota_version_write_installed (Some FOTA_CONFIG_VERSION_FILE) (Some (Fota_version 6 0 0 0)) full_device = (-1, w') \<and>
    fota_version_read_installed w' (Some FOTA_CONFIG_VERSION_FILE) = Some (FOTA_VERSION_READ_OK, Fota_version 0 0 0 0)"
proof -
  have e: "has_etc full_device" by (simp add: full_device_def has_etc_def sample_device_def)
  then have r: "resolve full_device FOTA_CONFIG_VERSION_FILE = Some version_loc" by (simp add: resolve_config)
  have d: "\<not> dirs full_device version_loc" "\<not> no_write full_device version_loc" "dirs full_device (butlast version_loc)"
      "write_stop full_device version_loc = Some 0"
    by (simp_all add: full_device_def sample_device_def version_loc_def etc_loc_def install_loc_def ascii_def)
  have o: "fopen_rb full_device FOTA_CONFIG_VERSION_FILE = Some (open_stream (ascii ''5.0.0.0'') None)"
    using r d(1) by (simp add: fopen_rb_def) (simp add: full_device_def sample_device_def)
  have "readable full_device FOTA_CONFIG_VERSION_FILE"
    using r by (simp add: readable_def) (simp add: full_device_def sample_device_def)
  moreover have "installed_spec (ascii ''5.0.0.0'') = (FOTA_VERSION_READ_OK, Fota_version 5 0 0 0)"
    by (simp add: installed_spec_def strip_def ascii_def cstr_def version_spec_def component_ok_def dec_val_def
        version_of_parts_def)
  then have "fota_version_read_installed full_device (Some FOTA_CONFIG_VERSION_FILE) =
      Some (FOTA_VERSION_READ_OK, Fota_version 5 0 0 0)"
    using o by (simp add: read_installed_stream open_stream_def)
  ultimately show ?thesis
    using failed_write_forgets_version [OF r d(2,1,3) _ d(4), of "Fota_version 6 0 0 0"] by blast
qed

end
