(* ===== verification/Fota_Delivery.thy ===== *)
theory Fota_Delivery
  imports Fota_Packager Fota_Program
begin

section \<open>From pack to the device\<close>

text \<open>
  The two programs together: what \<open>pack\<close> writes is what \<open>main\<close> needs to install the input directory, and a path that the
  archive format splits is refused.
\<close>

subsection \<open>Matching libraries\<close>

text \<open>
  What the Python libraries and those of the device have to do with each other, as documented: signatures and
  wrapped keys made with one half of a key pair are accepted with the other, AES-256-CBC with PKCS7 and SHA-256 are the same
  function on both sides, and the gzip stream is a complete stream for zlib.
\<close>

definition keys_match ::
    "'k pylib \<Rightarrow> 'h openssl \<Rightarrow> allocator \<Rightarrow> 'k \<Rightarrow> 'h \<Rightarrow> 'k \<Rightarrow> 'h \<Rightarrow> bool" where
  "keys_match L C alloc signing_private signing_public device_public device_private \<longleftrightarrow>
     (\<forall>msg s. rsa_sign_pkcs1v15_sha256 L signing_private msg = Some s \<longrightarrow> signature_valid C signing_public msg s) \<and>
     (\<forall>k wk. rsa_encrypt_oaep_sha256 L device_public k = Some wk \<longrightarrow> unwrapped C alloc device_private wk = Some k)"

definition ciphers_match :: "'k pylib \<Rightarrow> 'h openssl \<Rightarrow> bool" where
  "ciphers_match L C \<longleftrightarrow>
     (\<forall>p k vec. length k = 32 \<and> length vec = 16 \<longrightarrow>
        length p \<le> length (encrypt_payload L p k vec) \<and> decrypted C k vec (encrypt_payload L p k vec) = Some p)"

definition digests_match :: "'k pylib \<Rightarrow> 'h openssl \<Rightarrow> (u8 list \<Rightarrow> u8 list) \<Rightarrow> bool" where
  "digests_match L C hash \<longleftrightarrow>
     (\<forall>d. EVP_Digest C d EVP_sha256 = (1, hash d) \<and> length (hash d) = 32) \<and>
     (\<forall>chunks. hexdigest L (foldl (digest_update L) (sha256_new L) chunks) = hex_text (hash (concat chunks)))"

definition gzip_matches :: "'k pylib \<Rightarrow> 'z zlib \<Rightarrow> bool" where
  "gzip_matches L Z \<longleftrightarrow>
     (\<exists>st. inflateInit2 Z (16 + MAX_WBITS) = (Z_OK, st) \<and>
        (\<forall>t. t \<noteq> [] \<longrightarrow> gzip_stream L t \<noteq> [] \<and> decodes Z st (gzip_stream L t) t))"

subsection \<open>What pack writes\<close>

text \<open>Hashing in chunks is hashing.\<close>

lemma sha256_chunks_fold: "\<exists>chunks. sha256_chunks L c f = foldl (digest_update L) c chunks \<and> concat chunks = f"
proof (induction L c f rule: sha256_chunks.induct)
  case (1 L c f)
  show ?case
  proof (cases "f = []")
    case True
    then show ?thesis by (intro exI [of _ "[]"]) (simp add: sha256_chunks.simps)
  next
    case False
    then have ne: "take HASH_CHUNK_SIZE f \<noteq> []" by (simp add: HASH_CHUNK_SIZE_def)
    then obtain chunks where
      "sha256_chunks L (digest_update L c (take HASH_CHUNK_SIZE f)) (drop HASH_CHUNK_SIZE f) =
        foldl (digest_update L) (digest_update L c (take HASH_CHUNK_SIZE f)) chunks" "concat chunks = drop HASH_CHUNK_SIZE f"
      using "1.IH" by metis
    then show ?thesis using ne
      by (intro exI [of _ "take HASH_CHUNK_SIZE f # chunks"]) (simp add: sha256_chunks.simps [of L c f])
  qed
qed

lemma sha256_file_hash: "digests_match L C hash \<Longrightarrow> sha256_file L d = hex_text (hash d)"
  using sha256_chunks_fold [of L "sha256_new L" d] by (auto simp: sha256_file_def digests_match_def)

lemma dumps_members:
  assumes "digests_match L C hash"
  shows "input_files entries @ [(manifest_name, dumps (build_manifest L h entries platform fw))] =
    packed_members hash platform fw (utc_now h) (git_commit h) (input_files entries)"
  by (simp add: dumps_def build_manifest_def packed_members_def sha256_file_hash [OF assms])

lemma pack_Inr:
  assumes "pack L m args h = Inr h'"
  obtains entries spem dpem spriv dpub gz key vec wk hdr sig blob where
    "dir_entries h (input_dir args) = Some entries"
    "file_bytes h (signing_key_path args) = Some spem" "load_private_key L spem = Some spriv"
    "file_bytes h (device_pubkey_path args) = Some dpem" "load_public_key L dpem = Some dpub"
    "stage_and_compress L m entries (build_manifest L h entries (platform_arg args) (fw_version_arg args)) = Some gz"
    "length key = 32" "length vec = 16" "rsa_encrypt_oaep_sha256 L dpub key = Some wk"
    "build_header (platform_arg args) (fw_version_arg args) vec (int (length wk)) = Inr hdr"
    "rsa_sign_pkcs1v15_sha256 L spriv (hdr @ wk @ encrypt_payload L gz key vec) = Some sig"
    "assemble hdr wk sig (encrypt_payload L gz key vec) = Inr blob" "file_bytes h' (output_path args) = Some blob"
proof -
  let ?key = "map (entropy h) [0..<32]" and ?vec = "map (entropy (h\<lparr>entropy := (\<lambda>i. entropy h (i + 32))\<rparr>)) [0..<16]"
  let ?manifest = "\<lambda>entries. build_manifest L h entries (platform_arg args) (fw_version_arg args)"
  obtain entries spem dpem where d: "dir_entries h (input_dir args) = Some entries"
      "file_bytes h (signing_key_path args) = Some spem" "file_bytes h (device_pubkey_path args) = Some dpem"
    using assms by (auto simp: pack_def split: option.split_asm)
  obtain spriv dpub gz wk hdr sig h2 blob where k: "load_private_key L spem = Some spriv" "load_public_key L dpem = Some dpub"
      "stage_and_compress L m entries (?manifest entries) = Some gz" "wrap_key L ?key dpub = Some wk"
      "build_header (platform_arg args) (fw_version_arg args) ?vec (int (length wk)) = Inr hdr"
      "sign L (hdr @ wk @ encrypt_payload L gz ?key ?vec) spriv = Some sig"
    and blob: "assemble hdr wk sig (encrypt_payload L gz ?key ?vec) = Inr blob"
    and out: "Inr (h2\<lparr>file_bytes := (file_bytes h2)(output_path args \<mapsto> blob)\<rparr>) = (Inr h' :: pack_error + host)"
    using assms unfolding pack_def d
    by (simp only: option.case prod.case Let_def and_then_Inr or_value_error_Inr blob_value_error_Inr generate_aes_key_def generate_iv_def
        urandom_def snd_conv) (elim exE conjE, rule that)
  have out: "file_bytes h' (output_path args) = Some blob" using out by auto
  show thesis
    by (rule that [OF d(1,2) k(1) d(3) k(2,3) _ _ k(4) [unfolded wrap_key_def] k(5) k(6) [unfolded sign_def] blob out]) simp_all
qed

lemma tar_add_all_size:
  "tar_add_all m fs = Some body \<Longrightarrow> f \<in> set fs \<Longrightarrow> length (snd f) < 8 ^ 11"
proof (induction fs arbitrary: body)
  case (Cons g fs)
  obtain b bs where "tar_add m g = Some b" "tar_add_all m fs = Some bs"
    using Cons.prems(1) by (auto split: Option.bind_split_asm)
  then show ?case using Cons by (auto simp: tar_add_def split: option.split_asm if_split_asm)
qed simp

subsection \<open>The input directory as a package\<close>

lemma version_spec_bytes:
  assumes "version_spec fw = Some v" shows "plain_value fw" "printable fw"
proof -
  have b: "is_digit b \<or> b = dot" if mem: "b \<in> set fw" for b
  proof (cases "b = dot")
    case False
    then obtain p where "p \<in> set (split_on dot fw)" "b \<in> set p" using split_on_covers [OF mem] by blast
    then show ?thesis using assms by (auto simp: version_spec_def component_ok_def Let_def split: if_split_asm)
  qed simp
  have "fw \<noteq> ascii ''files''"
  proof
    assume "fw = ascii ''files''"
    then have "102 \<in> set fw" by (simp add: ascii_def)
    then show False using b by fastforce
  qed
  then show "plain_value fw" using b by (fastforce simp: plain_value_def)
  show "printable fw" unfolding printable_def
  proof
    fix x assume "x \<in> set fw"
    from b [OF this] show "32 \<le> x \<and> x < 127" by (auto simp: word_le_nat_alt word_less_nat_alt)
  qed
qed

lemma real_tree_relative:
  assumes "real_tree entries" and "(ps, x) \<in> set entries"
  shows "relative (as_posix ps)" "plain_path (as_posix ps)"
proof -
  note sp = real_tree_split [OF assms] and pt = real_tree_parts [OF assms]
  have ne: "as_posix ps \<noteq> []"
  proof
    assume "as_posix ps = []"
    then have "[] \<in> set ps" using sp by (metis list.set_intros(1) split_on.simps(1))
    then show False using pt by blast
  qed
  moreover have "hd (as_posix ps) \<noteq> slash"
  proof
    assume "hd (as_posix ps) = slash"
    then have "[] \<in> set (split_on slash (as_posix ps))" using ne by (cases "as_posix ps") auto
    then have "[] \<in> set ps" unfolding sp .
    then show False using pt by blast
  qed
  moreover have "0 \<notin> set (as_posix ps)"
  proof
    assume "0 \<in> set (as_posix ps)"
    then obtain c where "c \<in> set (split_on slash (as_posix ps))" "0 \<in> set c"
      using split_on_covers [of 0 "as_posix ps" slash] by auto
    then show False using pt unfolding sp by blast
  qed
  moreover have "dotdot_comp \<notin> set (split_on slash (as_posix ps))" unfolding sp using pt by blast
  ultimately show "relative (as_posix ps)" by (simp add: safe_path_def)
  show "plain_path (as_posix ps)" unfolding plain_path_def sp using pt by (simp add: plain_comp_def)
qed

lemma input_packable:
  assumes "real_tree entries" and "deliverable entries"
  shows "packable (input_files entries)"
proof -
  have "storable f \<and> printable (fst f) \<and> fst f \<noteq> manifest_name" if mem: "f \<in> set (input_files entries)" for f
  proof -
    obtain ps d where f: "f = (as_posix ps, d)" "(ps, Some d) \<in> set entries" using mem by (auto simp: set_input_files)
    moreover have "printable (as_posix ps) \<and> length (as_posix ps) \<le> 100 \<and> length d < 8 ^ 11 \<and> as_posix ps \<noteq> manifest_name"
      using assms(2) f(2) unfolding deliverable_def by fastforce
    ultimately show ?thesis using real_tree_relative(1) [OF assms(1) f(2)] by (simp add: storable_def)
  qed
  then show ?thesis using input_files_distinct [OF assms(1)] by (fastforce simp: packable_def)
qed

lemma input_paths:
  assumes "real_tree entries"
  shows "\<forall>p \<in> fst ` set (input_files entries). plain_path p" "compatible (fst ` set (input_files entries))"
proof -
  show "\<forall>p \<in> fst ` set (input_files entries). plain_path p"
    using real_tree_relative(2) [OF assms] by (auto simp: set_input_files)
  have "\<not> strict_prefix ps qs" if "(ps, Some d) \<in> set entries" "(qs, Some e) \<in> set entries" for ps qs d e
  proof
    assume "strict_prefix ps qs"
    then obtain r where "qs = ps @ r" "r \<noteq> []" by (auto simp: strict_prefix_def prefix_def)
    then have "ps = take (length ps) qs" "0 < length ps" "length ps < length qs"
      using real_tree_parts [OF assms that(1)] by simp_all
    then have "(ps, None) \<in> set entries" using assms that(2) unfolding real_tree_def by (metis fst_conv image_eqI)
    then show False using assms that(1) by (auto simp: real_tree_def dest: eq_key_imp_eq_value)
  qed
  then show "compatible (fst ` set (input_files entries))"
    using real_tree_split [OF assms] by (auto simp: compatible_def set_input_files)
qed

subsection \<open>Properties\<close>

text \<open>
  C4. From directory to device: when \<open>pack\<close> ends without an error on a directory of portable file names for this platform,
  then a provisioned device with the matching keys, room and an older version, given the file that \<open>pack\<close> wrote,
  installs it: \<open>main\<close> reports success, every file of the directory is below the install directory with its bytes, and
  the version is recorded.  Two sizes are limited: the package to \<open>INT_MAX\<close>, that is 2147483647, bytes (the length of the
  ciphertext is an \<open>int\<close> for libcrypto), and the uncompressed archive to less than 512 MiB (the cap of the decompression).
\<close>

theorem pack_then_install:
  assumes "crypto_contract C" and "zlib_contract Z" and "36 < LENGTH('s)" and "\<forall>s n. alloc s n"
    and libs: "keys_match L C alloc spriv pk dpub sk" "ciphers_match L C" "digests_match L C hash" "gzip_matches L Z"
    and packed: "pack L m args h = Inr h'" "\<forall>f. wf_meta (m f)" "file_bytes h' (output_path args) = Some blob"
      "Option.bind (file_bytes h (signing_key_path args)) (load_private_key L) = Some spriv"
      "Option.bind (file_bytes h (device_pubkey_path args)) (load_public_key L) = Some dpub"
    and input: "dir_entries h (input_dir args) = Some entries" "real_tree entries" "deliverable entries"
      "platform_arg args = FOTA_CONFIG_PLATFORM_TAG" "version_spec (fw_version_arg args) = Some v"
      "\<forall>x \<in> {utc_now h, git_commit h}. plain_value x \<and> printable x"
    and size: "length blob \<le> 2147483647"
      "map_option (\<lambda>body. length (tar_close body))
         (tar_add_all m (input_files entries @
            [(manifest_name, dumps (build_manifest L h entries (platform_arg args) (fw_version_arg args)))])) = Some tar_len"
      "tar_len < 512 * 1024 * 1024"
    and device: "provisioned w" "resolve w FOTA_CONFIG_INSTALL_DIR = Some install_loc" "dirs w install_loc"
      "room w install_loc (fst ` set (input_files entries))"
      "installed_version w = (FOTA_VERSION_READ_OK, installed)" "installed < v"
      "fota_load_public_key C w (Some FOTA_CONFIG_SIGNING_PUBLIC_KEY_FILE) = Some pk"
      "fota_load_private_key C w (Some FOTA_CONFIG_DEVICE_PRIVATE_KEY_FILE) = Some sk"
      "statvfs w FOTA_CONFIG_INSTALL_DIR = Some (bavail, frsize)"
      "of_nat (length (payload_section blob)) \<le> bavail * frsize"
    and delivered: "2 \<le> length argv" "Option.bind (main_input (argv ! 1) stdin w) (read_all alloc) = Some blob"
  shows "\<exists>w'. main TYPE('s::len) Z C alloc argv stdin w = Some (FOTA_EXIT_SUCCESS, w') \<and>
    (\<forall>(parts, data) \<in> set entries. \<forall>d. data = Some d \<longrightarrow> files w' (install_loc @ parts) = Some d) \<and>
    installed_version w' = (FOTA_VERSION_READ_OK, v)"
proof -
  let ?fw = "fw_version_arg args" and ?fs = "input_files entries"
  let ?pm = "packed_members hash FOTA_CONFIG_PLATFORM_TAG ?fw (utc_now h) (git_commit h) ?fs"
  obtain gz key vec wk hdr sig where p:
    "stage_and_compress L m entries (build_manifest L h entries FOTA_CONFIG_PLATFORM_TAG ?fw) = Some gz"
    "length key = 32" "length vec = 16" "rsa_encrypt_oaep_sha256 L dpub key = Some wk"
    "build_header FOTA_CONFIG_PLATFORM_TAG ?fw vec (int (length wk)) = Inr hdr"
    "rsa_sign_pkcs1v15_sha256 L spriv (hdr @ wk @ encrypt_payload L gz key vec) = Some sig"
    "assemble hdr wk sig (encrypt_payload L gz key vec) = Inr blob"
    by (rule pack_Inr [OF packed(1)]) (use packed(3-5) input(1,4) in auto)
  let ?ct = "encrypt_payload L gz key vec"
  obtain body where body: "tar_add_all m ?pm = Some body" "tar_len = length (tar_close body)" "gz = gzip_stream L (tar_close body)"
    using size(2) p(1) unfolding stage_and_compress_def input(4) dumps_members [OF libs(3)] by auto
  note pk = input_packable [OF input(2,3)]
  have man: "length (snd (last ?pm)) < 8 ^ 11"
    using tar_add_all_size [OF body(1), of "last ?pm"] by (simp add: packed_members_def)
  have "storable (last ?pm)"
    using man by (simp add: packed_members_def storable_def safe_path_def manifest_name_def ascii_def)
  then have "\<forall>f \<in> set ?pm. storable f" using pk by (auto simp: packed_members_def packable_def)
  from tar_add_all_image [OF this body(1)]
  have image: "tar_close body = tar_image m ?pm (tar_tail (length body))" .
  have "tar_close body \<noteq> []" using tar_tail_le [of "length body"] by (simp add: tar_close_def)
  then obtain st where gz: "inflateInit2 Z (16 + MAX_WBITS) = (Z_OK, st)" "gz \<noteq> []" "decodes Z st gz (tar_close body)"
    using libs(4) body(3) by (auto simp: gzip_matches_def)
  have ct: "length gz \<le> length ?ct" "decrypted C key vec ?ct = Some gz"
    using libs(2) p(2,3) by (simp_all add: ciphers_match_def)
  note lay = blob_layout [OF p(5,7)]
  have ctl: "length ?ct \<le> 2147483647" using lay(12) size(1) by simp
  have "signature_valid C pk (hdr @ wk @ ?ct) sig" "unwrapped C alloc sk wk = Some key"
    using libs(1) p(4,6) unfolding keys_match_def by blast+
  moreover have "?ct \<noteq> []" using ct(1) gz(2) by auto
  ultimately have bf: "blob_for C alloc pk sk ?fw gz blob"
    unfolding blob_for_def using p(2,5,7) ct(2) ctl
    by (intro exI [of _ vec] exI [of _ hdr] exI [of _ wk] exI [of _ sig] exI [of _ ?ct] exI [of _ key] conjI)
  have zipped: "fota_gunzip Z alloc (Some gz) (length gz) (512 * 1024 * 1024) True = Some (Inr (tar_close body))"
    by (rule gunzip_decodes(1) [OF gz(1,3,2)]) (use ct ctl size(3) body(2) assms(4) in simp_all)
  have vals: "\<forall>x \<in> {FOTA_CONFIG_PLATFORM_TAG, ?fw, utc_now h, git_commit h}. plain_value x \<and> printable x"
    using input(6) version_spec_bytes [OF input(5)]
    by (simp add: plain_value_def FOTA_CONFIG_PLATFORM_TAG_def ascii_def)
  have hash: "\<forall>d. EVP_Digest C d EVP_sha256 = (1, hash d) \<and> length (hash d) = 32"
    using libs(3) by (simp add: digests_match_def)
  have tail: "512 \<le> tar_tail (length body)" using tar_tail_le [of "length body"] by simp
  obtain w' where run: "main TYPE('s) Z C alloc argv stdin w = Some (FOTA_EXIT_SUCCESS, w')"
      "\<forall>(p, d) \<in> set ?fs. files w' (install_loc @ split_on slash p) = Some d"
      "installed_version w' = (FOTA_VERSION_READ_OK, v)"
    using packed_update_is_delivered [OF assms(1-4) bf input(5) zipped pk packed(2) tail vals hash man image
        input_paths [OF input(2)] device delivered] by blast
  have "files w' (install_loc @ ps) = Some d" if "(ps, Some d) \<in> set entries" for ps d
  proof -
    have "(as_posix ps, d) \<in> set ?fs" using that by (auto simp: set_input_files)
    then show ?thesis using run(2) real_tree_split [OF input(2) that] by fastforce
  qed
  then show ?thesis using run(1,3) by auto
qed

subsubsection \<open>A sample\<close>

definition sample_pylib :: "u8 list pylib" where
  "sample_pylib =
     \<lparr>load_pem_private_key = Some, load_pem_public_key = Some, is_rsa_private_key = (\<lambda>_. True),
      is_rsa_public_key = (\<lambda>_. True), rsa_encrypt_oaep_sha256 = (\<lambda>key k. Some k),
      rsa_sign_pkcs1v15_sha256 = (\<lambda>key msg. Some (replicate 256 (hd (key @ [0]) + byte_sum msg))),
      pkcs7_padder = (\<lambda>_. []), padder_update = (\<lambda>c d. (d, c)), padder_finalize = (\<lambda>_. []),
      aes256_cbc_encryptor = (\<lambda>key vec. key), encryptor_update = (\<lambda>c d. (map (\<lambda>b. b - hd (c @ [0])) d, c)),
      encryptor_finalize = (\<lambda>_. []),
      sha256_new = [], digest_update = (@), hexdigest = (\<lambda>c. hex_text (sample_hash c)), gzip_stream = (\<lambda>t. t)\<rparr>"

definition sample_host :: host where
  "sample_host =
     \<lparr>dir_entries = (\<lambda>_. Some [([ascii ''a''], Some [])]), file_bytes = [ascii ''s'' \<mapsto> [5], ascii ''d'' \<mapsto> [9]],
      entropy = (\<lambda>_. 7), git_head = None, utc_now = ascii ''2024-01-01T00:00:00Z''\<rparr>"

definition sample_args :: pack_args where
  "sample_args =
     \<lparr>input_dir = ascii ''in'', platform_arg = ascii ''GENERIC'', fw_version_arg = ascii ''2.0.0.0'',
      signing_key_path = ascii ''s'', device_pubkey_path = ascii ''d'', output_path = ascii ''out''\<rparr>"

lemma sample_match:
  "keys_match sample_pylib sha256_sample unlimited [5] [5] [9] [9]" "ciphers_match sample_pylib sha256_sample"
  "digests_match sample_pylib sha256_sample sample_hash" "gzip_matches sample_pylib sample_zlib"
proof -
  show "keys_match sample_pylib sha256_sample unlimited [5] [5] [9] [9]"
    by (simp add: keys_match_def sample_pylib_def signature_valid_def unwrapped_def ok1_def sha256_sample_def
        sample_crypto_def)
  show "ciphers_match sample_pylib sha256_sample"
    by (simp add: ciphers_match_def encrypt_payload_def sample_pylib_def decrypted_def sha256_sample_def
        sample_crypto_def comp_def)
  have "foldl (@) c chunks = c @ concat chunks" for c and chunks :: "u8 list list"
    by (induction chunks arbitrary: c) simp_all
  then show "digests_match sample_pylib sha256_sample sample_hash"
    using sample_archive_facts(3) by (simp add: digests_match_def sample_pylib_def)
  show "gzip_matches sample_pylib sample_zlib"
    using sample_decodes by (simp add: gzip_matches_def sample_pylib_def sample_zlib_def)
qed

lemma sample_input: "input_files [([ascii ''a''], Some [])] = [(ascii ''a'', [])]"
  by (simp add: input_files_def List.map_filter_simps)

lemma sample_staged:
  obtains body where
    "tar_add_all (\<lambda>_. sample_meta) (input_files [([ascii ''a''], Some [])] @
       [(manifest_name, dumps (build_manifest sample_pylib sample_host [([ascii ''a''], Some [])] (ascii ''GENERIC'')
          (ascii ''2.0.0.0'')))]) = Some body"
    "length (tar_close body) \<le> 20000"
proof -
  have g: "git_commit sample_host = ascii ''unknown''" "utc_now sample_host = ascii ''2024-01-01T00:00:00Z''"
    by (simp_all add: git_commit_def sample_host_def)
  have pm: "input_files [([ascii ''a''], Some [])] @
       [(manifest_name, dumps (build_manifest sample_pylib sample_host [([ascii ''a''], Some [])] (ascii ''GENERIC'')
          (ascii ''2.0.0.0'')))] = sample_members"
    using dumps_members [OF sample_match(3), of "[([ascii ''a''], Some [])]" sample_host]
    by (simp only: sample_members_def g sample_input)
  have "storable (last sample_members)"
    using sample_archive_facts(4)
    by (simp add: sample_members_def packed_members_def storable_def safe_path_def manifest_name_def ascii_def)
  then have st: "\<forall>f \<in> set sample_members. storable f"
    using sample_archive_facts(1) by (auto simp: sample_members_def packed_members_def packable_def)
  have "length (concat (map (tar_member (\<lambda>_. sample_meta)) sample_members)) \<le> 4096"
    using sample_archive_facts(5) by (simp add: sample_archive_def tar_image_def)
  then have "length (tar_close (concat (map (tar_member (\<lambda>_. sample_meta)) sample_members))) \<le> 20000"
    by (simp add: tar_close_def tar_tail_def)
  with tar_add_all_storable [OF st] that show thesis unfolding pm by blast
qed

lemma sample_pack:
  obtains h' blob where "pack sample_pylib (\<lambda>_. sample_meta) sample_args sample_host = Inr h'"
    "file_bytes h' (ascii ''out'') = Some blob" "length blob \<le> 30000"
proof -
  obtain body where body: "tar_add_all (\<lambda>_. sample_meta) (input_files [([ascii ''a''], Some [])] @
       [(manifest_name, dumps (build_manifest sample_pylib sample_host [([ascii ''a''], Some [])] (ascii ''GENERIC'')
          (ascii ''2.0.0.0'')))]) = Some body" "length (tar_close body) \<le> 20000"
    by (rule sample_staged)
  have staged: "stage_and_compress sample_pylib (\<lambda>_. sample_meta) [([ascii ''a''], Some [])]
      (build_manifest sample_pylib sample_host [([ascii ''a''], Some [])] (ascii ''GENERIC'') (ascii ''2.0.0.0'')) =
      Some (tar_close body)"
    using body(1) by (simp add: stage_and_compress_def) (simp add: sample_pylib_def)
  obtain hdr where hdr: "build_header (ascii ''GENERIC'') (ascii ''2.0.0.0'') (replicate 16 7) 32 = Inr hdr"
    by (simp add: build_header_Inr ascii_def)
  have l: "length hdr = 51" by (rule length_build_header [OF hdr])
  let ?ct = "encrypt_payload sample_pylib (tar_close body) (replicate 32 7) (replicate 16 7)"
  have ct: "length ?ct = length (tar_close body)" by (simp add: encrypt_payload_def sample_pylib_def)
  let ?sig = "replicate 256 (5 + byte_sum (hdr @ replicate 32 7 @ ?ct))"
  have blob: "assemble hdr (replicate 32 7) ?sig ?ct = Inr (hdr @ replicate 32 7 @ ?sig @ ?ct)"
    using l by (simp add: assemble_def header_sizes(7) SIGNATURE_SIZE_def)
  have args: "dir_entries sample_host (input_dir sample_args) = Some [([ascii ''a''], Some [])]"
    "file_bytes sample_host (signing_key_path sample_args) = Some [5]"
    "file_bytes sample_host (device_pubkey_path sample_args) = Some [9]"
    "platform_arg sample_args = ascii ''GENERIC''" "fw_version_arg sample_args = ascii ''2.0.0.0''"
    "output_path sample_args = ascii ''out''"
    by (simp_all add: sample_host_def sample_args_def ascii_def)
  have keys: "load_private_key sample_pylib [5] = Some [5]" "load_public_key sample_pylib [9] = Some [9]"
    "wrap_key sample_pylib k [9] = Some k"
    "sign sample_pylib msg [5] = Some (replicate 256 (5 + byte_sum msg))" for k msg
    by (simp_all add: load_private_key_def load_public_key_def wrap_key_def sign_def sample_pylib_def)
  obtain h2 where r: "generate_aes_key sample_host = (replicate 32 7, h2)" "\<exists>h3. generate_iv h2 = (replicate 16 7, h3)"
    by (simp add: generate_aes_key_def generate_iv_def urandom_def sample_host_def map_replicate_const)
  from r(2) obtain h3 where iv: "generate_iv h2 = (replicate 16 7, h3)" by blast
  have run: "pack sample_pylib (\<lambda>_. sample_meta) sample_args sample_host =
      Inr (h3\<lparr>file_bytes := (file_bytes h3)(ascii ''out'' \<mapsto> hdr @ replicate 32 7 @ ?sig @ ?ct)\<rparr>)"
    using hdr by (simp add: pack_def args keys staged r(1) iv or_value_error_def blob_value_error_def and_then_def Let_def blob)
  have len: "length (hdr @ replicate 32 7 @ ?sig @ ?ct) \<le> 30000" using l ct body(2) by simp
  show thesis by (rule that [OF run _ len]) simp
qed

theorem pack_then_install_witness:
  "\<exists>h' blob w'. pack sample_pylib (\<lambda>_. sample_meta) sample_args sample_host = Inr h' \<and>
    file_bytes h' (ascii ''out'') = Some blob \<and>
    main TYPE(64) sample_zlib sha256_sample unlimited sample_argv \<lparr>avail = blob, fails = False, err_flag = False\<rparr>
      sample_device = Some (FOTA_EXIT_SUCCESS, w') \<and>
    files w' (install_loc @ [ascii ''a'']) = Some []"
proof -
  obtain h' blob where p: "pack sample_pylib (\<lambda>_. sample_meta) sample_args sample_host = Inr h'"
    "file_bytes h' (ascii ''out'') = Some blob" "length blob \<le> 30000" by (rule sample_pack)
  obtain body where body: "tar_add_all (\<lambda>_. sample_meta) (input_files [([ascii ''a''], Some [])] @
       [(manifest_name, dumps (build_manifest sample_pylib sample_host [([ascii ''a''], Some [])] (ascii ''GENERIC'')
          (ascii ''2.0.0.0'')))]) = Some body" "length (tar_close body) \<le> 20000"
    by (rule sample_staged)
  have small: "length (tar_close body) < 536870912" using body(2) by simp
  let ?stdin = "\<lparr>avail = blob, fails = False, err_flag = False\<rparr>"
  have read: "Option.bind (main_input (sample_argv ! 1) ?stdin sample_device) (read_all unlimited) = Some blob"
    using read_all_complete [of unlimited ?stdin] by (simp add: main_input_def sample_argv_def)
  have tree: "real_tree [([ascii ''a''], Some [])]" "deliverable [([ascii ''a''], Some [])]"
    by (auto simp: real_tree_def deliverable_def ascii_def manifest_name_def)
  have ver: "version_spec (ascii ''2.0.0.0'') = Some (Fota_version 2 0 0 0)"
    by (simp add: ascii_def version_spec_def component_ok_def dec_val_def version_of_parts_def)
  have less: "Fota_version 0 0 0 0 < Fota_version 2 0 0 0" by (simp add: less_fota_version_def)
  have space: "of_nat (length (payload_section blob)) \<le> (1048576 * 4096 :: u64)"
    using p(3) by (simp add: payload_section_def word_le_nat_alt unat_of_nat take_bit_nat_eq_self)
  have room: "room sample_device install_loc (fst ` set (input_files [([ascii ''a''], Some [])]))"
    using sample_device_state(6) by (simp add: sample_input)
  have keys: "Option.bind (file_bytes sample_host (signing_key_path sample_args)) (load_private_key sample_pylib) = Some [5]"
    "Option.bind (file_bytes sample_host (device_pubkey_path sample_args)) (load_public_key sample_pylib) = Some [9]"
    by (simp_all add: sample_host_def sample_args_def ascii_def load_private_key_def load_public_key_def sample_pylib_def)
  have "\<exists>w'. main TYPE(64) sample_zlib sha256_sample unlimited sample_argv ?stdin sample_device =
      Some (FOTA_EXIT_SUCCESS, w') \<and>
    (\<forall>(parts, data) \<in> set [([ascii ''a''], Some [])]. \<forall>d. data = Some d \<longrightarrow> files w' (install_loc @ parts) = Some d) \<and>
    installed_version w' = (FOTA_VERSION_READ_OK, Fota_version 2 0 0 0)"
    by (rule pack_then_install [OF sample_main_contracts _ _ sample_match p(1) sample_meta_wf _ keys _ tree _ _ _ _ _ _
          sample_device_state(1,4,5) room sample_device_state(2) less sample_keys sample_space(1) space _ read])
       (use p(2,3) body(1) small ver in \<open>simp_all add: sample_args_def sample_host_def sample_argv_def git_commit_def
          FOTA_CONFIG_PLATFORM_TAG_def plain_value_def printable_def ascii_def\<close>)
  then show ?thesis using p(1,2) by auto
qed

text \<open>
  C36. A path of more than 100 bytes cannot be delivered: \<open>tarfile\<close> accepts it by splitting it into prefix and name, so the
  packager builds, signs and writes the package; but the consumer's parser refuses the archive, whatever else it holds.
\<close>

theorem long_path_refused:
  assumes "36 < LENGTH('s)" and "\<forall>s n. alloc s n" and "\<forall>f. wf_meta (m f)" and "real_tree entries"
    and "tar_add_all m (input_files entries @ [(manifest_name, manifest)]) = Some body"
    and "length (tar_close body) < 2 ^ LENGTH('s)"
    and "\<exists>(parts, data) \<in> set entries. data \<noteq> None \<and> 100 < length (as_posix parts)"
  shows "fota_tar_parse TYPE('s::len) alloc (Some (tar_close body)) (length (tar_close body)) True =
    Some (Inl FOTA_INSTALL_ERR_UNSUPPORTED_ENTRY)"
proof -
  have "relative manifest_name" by (simp add: safe_path_def manifest_name_def ascii_def)
  then have rel: "\<forall>f \<in> set (input_files entries @ [(manifest_name, manifest)]). relative (fst f)"
    using real_tree_relative(1) [OF assms(4)] by (auto simp: set_input_files)
  have long: "\<exists>f \<in> set (input_files entries @ [(manifest_name, manifest)]). 100 < length (fst f)"
    using assms(7) by (fastforce simp: set_input_files)
  have "tar_items (tar_close body) 0 = Inl FOTA_INSTALL_ERR_UNSUPPORTED_ENTRY"
    using tar_items_long_path [OF assms(3,5) rel long, of "[]"] by (simp add: tar_close_def)
  then show ?thesis using fota_tar_parse_cases [OF assms(1,6), of alloc] assms(2) by auto
qed

theorem long_path_refused_witness:
  "\<exists>body. tar_add_all (\<lambda>_. sample_meta)
      (input_files [([replicate 60 97], None), ([replicate 60 97, replicate 60 98], Some [])] @ [(manifest_name, [])]) =
      Some body \<and>
    fota_tar_parse TYPE(64) unlimited (Some (tar_close body)) (length (tar_close body)) True =
      Some (Inl FOTA_INSTALL_ERR_UNSUPPORTED_ENTRY)"
proof -
  let ?d = "replicate 60 97 :: u8 list" and ?f = "replicate 60 98 :: u8 list"
  let ?es = "[([?d], None), ([?d, ?f], Some [])] :: (u8 list list \<times> u8 list option) list"
  have ne: "replicate 60 x \<noteq> [46]" "replicate 60 x \<noteq> [46, 46]" for x :: u8
    by (auto dest: arg_cong [where f = length])
  have tree: "real_tree ?es"
    by (auto simp: real_tree_def ne less_Suc_eq)
  have fs: "input_files ?es = [(as_posix [?d, ?f], [])]"
    by (simp add: input_files_def List.map_filter_simps)
  have sp: "split_on slash (as_posix [?d, ?f]) = [?d, ?f]" by (rule split_as_posix) simp_all
  have "posix_split_name (as_posix [?d, ?f]) = Some (?d, ?f)"
    unfolding posix_split_name_def sp Let_def by simp
  then have a: "tar_add (\<lambda>_. sample_meta) (as_posix [?d, ?f], []) = Some (tar_block sample_meta ?d ?f [])"
    by (simp add: tar_add_def)
  have b: "tar_add (\<lambda>_. sample_meta) (manifest_name, []) = Some (tar_block sample_meta [] manifest_name [])"
    by (simp add: tar_add_def manifest_name_def ascii_def)
  let ?body = "tar_block sample_meta ?d ?f [] @ tar_block sample_meta [] manifest_name []"
  have body: "tar_add_all (\<lambda>_. sample_meta) (input_files ?es @ [(manifest_name, [])]) = Some ?body"
    by (simp only: fs append.simps tar_add_all.simps a b) simp
  have "length (tar_block sample_meta pre name []) = 512" if "length name \<le> 100" "length pre \<le> 155" for pre name
    using ustar_lengths(3) [OF spec [OF sample_meta_wf] that] by (simp add: tar_block_def member_span_def)
  then have "length (tar_close ?body) < 2 ^ LENGTH(64)"
    by (simp add: tar_close_def tar_tail_def manifest_name_def ascii_def)
  moreover have "36 < LENGTH(64)" "\<forall>s n. unlimited s n" by simp_all
  moreover have "\<exists>(parts, data) \<in> set ?es. data \<noteq> None \<and> 100 < length (as_posix parts)" by simp
  ultimately show ?thesis
    using long_path_refused [where alloc = unlimited, OF _ _ sample_meta_wf tree body] body by blast
qed

subsection \<open>A manifest in the input directory\<close>

lemma tar_add_all_added:
  "tar_add_all m fs = Some body \<Longrightarrow> \<forall>f \<in> set fs. relative (fst f) \<and> length (fst f) \<le> 100 \<Longrightarrow> \<forall>f \<in> set fs. storable f"
  by (induction fs arbitrary: body) (auto simp: storable_def tar_add_def split: Option.bind_split_asm if_split_asm)

lemma find_entry_data:
  assumes "distinct (map fst fs)" and "map (\<lambda>e. (path e, entry_data tar e)) es = fs"
    and "\<forall>e \<in> set es. etype e = FOTA_TAR_ENTRY_FILE"
  shows "map_option (entry_data tar) (find_entry es p) = map_of fs p"
  using assms
proof (induction es arbitrary: fs)
  case (Cons e es)
  then obtain fs' where "fs = (path e, entry_data tar e) # fs'" "map (\<lambda>e. (path e, entry_data tar e)) es = fs'"
    by auto
  then show ?case using Cons.IH [of fs'] Cons.prems by auto
qed simp

lemma payload_count:
  assumes "distinct (map path es)" and "manifest_name \<in> set (map path es)" and "\<forall>e \<in> set es. etype e = FOTA_TAR_ENTRY_FILE"
  shows "Suc (length (filter is_payload_file es)) = length es"
  using assms
proof (induction es)
  case (Cons e es)
  show ?case
  proof (cases "path e = manifest_name")
    case True
    then have "\<forall>x \<in> set es. is_payload_file x" using Cons.prems by (auto simp: is_payload_file_def image_iff)
    then show ?thesis using True by (simp add: is_payload_file_def)
  next
    case False
    then show ?thesis using Cons by (auto simp: is_payload_file_def)
  qed
qed simp

lemma manifest_refused:
  assumes "wf_entries tar es" and "find_entry es manifest_name \<noteq> None" and "manifest_of tar es = None" and "\<forall>s n. alloc s n"
  shows "fota_verify_manifest C alloc tar (Some es) = Some FOTA_INSTALL_ERR_MANIFEST_PARSE"
proof -
  obtain me where me: "find_entry es manifest_name = Some me" using assms(2) by blast
  then have "me \<in> set es" using find_entry_Some by blast
  then have size: "esize me \<le> length (drop (data_off me) tar)"
    using assms(1) by (auto simp: wf_entries_def entry_ok_def)
  have data: "take (esize me) (drop (data_off me) tar) = entry_data tar me" by (simp add: entry_data_def)
  have "manifest_spec (entry_data tar me) = None" using assms(3) me by (simp add: manifest_of_def)
  then have "parse_manifest_files alloc (drop (data_off me) tar) (esize me) = Some (Inl FOTA_INSTALL_ERR_MANIFEST_PARSE)"
    using parse_manifest_files_eq [OF size, of alloc, unfolded data] assms(4) by (auto simp: or_parse_error_def)
  then show ?thesis using me by (simp add: fota_verify_manifest_def)
qed

text \<open>Looking up a path in an archive whose last file hides behind an earlier one of the same name.\<close>

lemma shadowed_lookup:
  assumes dist: "distinct (map fst fs)" and mem: "(manifest_name, d) \<in> set fs"
    and data: "map (\<lambda>e. (path e, entry_data tar e)) es = fs @ [(manifest_name, generated)]"
    and regular: "\<forall>e \<in> set es. etype e = FOTA_TAR_ENTRY_FILE"
  shows "map_option (entry_data tar) (find_entry es p) = map_of fs p"
    "Suc (length (filter is_payload_file es)) = length fs" "manifest_of tar es = manifest_spec d"
    "find_entry es manifest_name \<noteq> None"
proof -
  obtain es1 me where es: "es = es1 @ [me]" "map (\<lambda>e. (path e, entry_data tar e)) es1 = fs" "path me = manifest_name"
    using data by (auto simp: map_eq_append_conv map_eq_Cons_conv)
  have regular1: "\<forall>e \<in> set es1. etype e = FOTA_TAR_ENTRY_FILE" using regular by (simp add: es(1))
  note first = find_entry_data [OF dist es(2) regular1]
  have own: "map_of fs manifest_name = Some d" using dist mem by simp
  show fnd: "map_option (entry_data tar) (find_entry es p) = map_of fs p" for p
  proof (cases "find_entry es1 p")
    case None
    then have "map_of fs p = None" using first [of p] by simp
    moreover from this have "p \<noteq> manifest_name" using own by auto
    ultimately show ?thesis using None es(3) by (simp add: es(1) find_entry_append)
  qed (use first [of p] in \<open>simp add: es(1) find_entry_append\<close>)
  show "manifest_of tar es = manifest_spec d" "find_entry es manifest_name \<noteq> None"
    using fnd [of manifest_name] own by (auto simp: manifest_of_def)
  have "map path es1 = map fst fs" using es(2) by auto
  then have "distinct (map path es1)" "manifest_name \<in> set (map path es1)" using dist mem by (auto simp: rev_image_eqI)
  from payload_count [OF this regular1] have "Suc (length (filter is_payload_file es1)) = length es1" .
  moreover have "length es1 = length fs" using arg_cong [OF es(2), of length] by simp
  ultimately show "Suc (length (filter is_payload_file es)) = length fs" using es(3) by (simp add: es(1) is_payload_file_def)
qed

text \<open>
  C37. A file \<open>manifest.json\<close> at the root of the input directory takes the place of the manifest that \<open>pack\<close> generates: the
  consumer reads the listings from that file, whatever \<open>pack\<close> wrote into the generated one; it refuses the package when the
  file is no manifest, and otherwise accepts it exactly when that file lists the others.
\<close>

theorem input_manifest_is_trusted:
  assumes "36 < LENGTH('s)" and "\<forall>s n. alloc s n" and "\<forall>f. wf_meta (m f)"
    and hash: "\<forall>d. EVP_Digest C d EVP_sha256 = (1, hash d) \<and> length (hash d) = 32"
    and tree: "real_tree entries" "\<forall>(parts, data) \<in> set entries. length (as_posix parts) \<le> 100"
      "([manifest_name], Some d) \<in> set entries"
    and packed: "tar_add_all m (input_files entries @ [(manifest_name, generated)]) = Some body"
      "archive = tar_close body" "length archive < 2 ^ LENGTH('s)"
  shows "\<exists>es. fota_tar_parse TYPE('s::len) alloc (Some archive) (length archive) True = Some (Inr es) \<and>
    (manifest_spec d = None \<longrightarrow> fota_verify_manifest C alloc archive (Some es) = Some FOTA_INSTALL_ERR_MANIFEST_PARSE) \<and>
    (fota_verify_manifest C alloc archive (Some es) = Some FOTA_INSTALL_OK \<longleftrightarrow>
       (\<exists>mfs. manifest_spec d = Some mfs \<and> Suc (length mfs) = length (input_files entries) \<and>
          (\<forall>mf \<in> set mfs. \<exists>x. map_of (input_files entries) (cstr (mf_path mf)) = Some x \<and>
             hex_text (hash x) = cstr (mf_sha256_hex mf))))"
proof -
  let ?fs = "input_files entries" and ?all = "input_files entries @ [(manifest_name, generated)]"
  let ?es = "tar_entries_at 0 ?all" and ?es1 = "tar_entries_at 0 ?fs"
  have mn: "relative manifest_name" "length manifest_name \<le> 100" by (simp_all add: safe_path_def manifest_name_def ascii_def)
  have rel: "\<forall>f \<in> set ?all. relative (fst f) \<and> length (fst f) \<le> 100"
    using real_tree_relative(1) [OF tree(1)] tree(2) mn by (auto simp: set_input_files)
  from tar_add_all_added [OF packed(1) rel] have st: "\<forall>f \<in> set ?all. storable f" .
  have img: "archive = tar_image m ?all (tar_tail (length body))" unfolding packed(2) by (rule tar_add_all_image [OF st packed(1)])
  have items: "tar_items archive 0 = Inr ?es"
    using tar_items_image [OF assms(3) st, of "tar_tail (length body)" "[]"] tar_tail_le [of "length body"] img by simp
  then have parse: "fota_tar_parse TYPE('s) alloc (Some archive) (length archive) True = Some (Inr ?es)"
    using fota_tar_parse_cases [OF assms(1) packed(3), of alloc] assms(2) by auto
  have wf: "wf_entries archive ?es" using tar_items_ok [OF items] by simp
  have data: "map (\<lambda>e. (path e, entry_data archive e)) ?es = ?all"
    using tar_entries_at_data [OF assms(3) st, of "[]"] img by simp
  have regular: "\<forall>e \<in> set ?es. etype e = FOTA_TAR_ENTRY_FILE" using tar_entries_at_props(2) by blast
  have "as_posix [manifest_name] = manifest_name" by simp
  then have mem: "(manifest_name, d) \<in> set ?fs" using tree(3) by (force simp: set_input_files)
  note look = shadowed_lookup [OF input_files_distinct [OF tree(1)] mem data regular]
  have ok: "listing_ok C archive ?es mf \<longleftrightarrow>
      (\<exists>x. map_of ?fs (cstr (mf_path mf)) = Some x \<and> hex_text (hash x) = cstr (mf_sha256_hex mf))" for mf
    using hash by (simp add: listing_ok_def look(1) [symmetric] split: option.split)
  have agrees: "manifest_agrees C archive ?es \<longleftrightarrow>
      (\<exists>mfs. manifest_spec d = Some mfs \<and> Suc (length mfs) = length ?fs \<and>
          (\<forall>mf \<in> set mfs. \<exists>x. map_of ?fs (cstr (mf_path mf)) = Some x \<and> hex_text (hash x) = cstr (mf_sha256_hex mf)))"
    unfolding manifest_agrees_def look(3) ok look(2) [symmetric] by (auto split: option.split)
  have "digest_contract C" using hash by (simp add: digest_contract_def)
  from verify_manifest_cases [OF wf this, of alloc] assms(2)
  have "fota_verify_manifest C alloc archive (Some ?es) = Some FOTA_INSTALL_OK \<longleftrightarrow> manifest_agrees C archive ?es"
    by (auto simp: manifest_error_def)
  moreover have "manifest_spec d = None \<longrightarrow> fota_verify_manifest C alloc archive (Some ?es) = Some FOTA_INSTALL_ERR_MANIFEST_PARSE"
    using look(3) by (simp add: manifest_refused [OF wf look(4) _ assms(2)])
  ultimately show ?thesis using parse agrees by (intro exI [of _ ?es]) simp
qed

theorem input_manifest_is_trusted_witness:
  "\<exists>body es. tar_add_all (\<lambda>_. sample_meta)
      (input_files [([ascii ''a''], Some []), ([manifest_name], Some [1])] @ [(manifest_name, ascii ''{}'')]) = Some body \<and>
    fota_tar_parse TYPE(64) unlimited (Some (tar_close body)) (length (tar_close body)) True = Some (Inr es) \<and>
    fota_verify_manifest sha256_sample unlimited (tar_close body) (Some es) = Some FOTA_INSTALL_ERR_MANIFEST_PARSE"
proof -
  let ?en = "[([ascii ''a''], Some []), ([manifest_name], Some [1])] :: (u8 list list \<times> u8 list option) list"
  let ?all = "input_files ?en @ [(manifest_name, ascii ''{}'')]"
  have fs: "set (input_files ?en) = {(ascii ''a'', []), (manifest_name, [1])}" by (auto simp: set_input_files)
  have "storable (ascii ''a'', [])" "storable (manifest_name, [1])" "storable (manifest_name, ascii ''{}'')"
    by (simp_all add: storable_def safe_path_def manifest_name_def ascii_def)
  then have st: "\<forall>f \<in> set ?all. storable f" using fs by auto
  note body = tar_add_all_storable [OF st, of "\<lambda>_. sample_meta"]
  let ?body = "concat (map (tar_member (\<lambda>_. sample_meta)) ?all)"
  have tree: "real_tree ?en" "\<forall>(parts, data) \<in> set ?en. length (as_posix parts) \<le> 100"
    by (auto simp: real_tree_def manifest_name_def ascii_def less_Suc_eq)
  have "input_files ?en = [(ascii ''a'', []), (manifest_name, [1])] \<or> input_files ?en = [(manifest_name, [1]), (ascii ''a'', [])]"
    by (simp add: input_files_def List.map_filter_simps)
  then have "length ?body \<le> 4096"
    using length_tar_member [of "\<lambda>_. sample_meta", OF spec [OF sample_meta_wf]] st
    by (auto simp: fs member_span_def ascii_def)
  then have len: "length (tar_close ?body) < 2 ^ LENGTH(64)" by (simp add: tar_close_def tar_tail_def)
  have none: "manifest_spec [1] = None" by (simp add: manifest_spec_def after_key.simps files_key_def ascii_def)
  have W: "36 < LENGTH(64)" and mem: "\<forall>s n. unlimited s n" by simp_all
  have "([manifest_name], Some [1]) \<in> set ?en" by simp
  from input_manifest_is_trusted [where alloc = unlimited, OF W mem sample_meta_wf sample_archive_facts(3) tree this body refl len] none
  show ?thesis using body by auto
qed

end
