(* ===== verification/Fota_Keygen.thy ===== *)
theory Fota_Keygen
  imports Fota_Delivery
begin

section \<open>Key generation (generate_keys.py) and the reading half of crypto.py\<close>

text \<open>
  \<open>keygen/generate_keys.py\<close> makes the two key pairs of an installation and writes them as four PEM files; the theory says
  with which permissions, and that the packager and the device that get the files fit together.  The last section
  models the functions of \<open>crypto.py\<close> that undo what the packager does.  The \<open>cryptography\<close> package is the record
  \<open>keylib\<close>; a path is the list of its parts, as in \<open>pathlib\<close>.
\<close>

subsection \<open>The library and the workstation\<close>

record 'k keylib =
  generate_private_key :: "int \<Rightarrow> int \<Rightarrow> (nat \<Rightarrow> u8) \<Rightarrow> 'k \<times> (nat \<Rightarrow> u8)"
  public_key :: "'k \<Rightarrow> 'k"
  private_bytes_pem_pkcs8 :: "'k \<Rightarrow> u8 list"
  public_bytes_pem_spki :: "'k \<Rightarrow> u8 list"

text \<open>
  Files with their permission bits; \<open>refused\<close> are the paths that the kernel does not let the script open or create, and
  \<open>short\<close> the files whose write stops after some bytes.
\<close>

record workstation =
  randomness :: "nat \<Rightarrow> u8"
  folder :: "loc \<Rightarrow> bool"
  stored :: "loc \<Rightarrow> (u16 \<times> u8 list) option"
  umask :: u16
  refused :: "loc \<Rightarrow> bool"
  short :: "loc \<Rightarrow> nat option"

text \<open>\<open>os.open (path, O_WRONLY | O_CREAT | O_TRUNC, mode)\<close>: the mode is used only for a file that is created.\<close>

definition os_open :: "loc \<Rightarrow> u16 \<Rightarrow> workstation \<Rightarrow> workstation option" where
  "os_open p mode ws =
     (if refused ws p \<or> folder ws p \<or> \<not> folder ws (butlast p) then None
      else Some (ws\<lparr>stored := (stored ws)(p \<mapsto>
             (case stored ws p of None \<Rightarrow> mode AND NOT (umask ws) | Some (old, _) \<Rightarrow> old, []))\<rparr>))"

text \<open>Writing to the file just opened; \<open>False\<close> is an \<open>OSError\<close>.\<close>

definition write_out :: "loc \<Rightarrow> u8 list \<Rightarrow> workstation \<Rightarrow> bool \<times> workstation" where
  "write_out p bytes ws =
     (let k = (case short ws p of None \<Rightarrow> length bytes | Some n \<Rightarrow> min n (length bytes))
      in (k = length bytes,
          ws\<lparr>stored := (stored ws)(p := map_option (\<lambda>(mode, old). (mode, old @ take k bytes)) (stored ws p))\<rparr>))"

text \<open>\<open>Path.mkdir (parents=True, exist_ok=True)\<close>\<close>

fun mkdir_parents :: "loc \<Rightarrow> u8 list list \<Rightarrow> workstation \<Rightarrow> bool \<times> workstation" where
  "mkdir_parents here [] ws = (folder ws here, ws)"
| "mkdir_parents here (c # cs) ws =
     (let l = here @ [c] in
      if folder ws l then mkdir_parents l cs ws
      else if stored ws l \<noteq> None \<or> refused ws l \<or> \<not> folder ws here then (False, ws)
      else mkdir_parents l cs (ws\<lparr>folder := (folder ws)(l := True)\<rparr>))"

subsection \<open>generate_keys.py\<close>

definition RSA_KEY_SIZE :: int where "RSA_KEY_SIZE = 2048"

definition RSA_PUBLIC_EXPONENT :: int where "RSA_PUBLIC_EXPONENT = 65537"

definition KEYPAIRS :: "u8 list list" where "KEYPAIRS = [ascii ''signing'', ascii ''device'']"

definition generate_keypair :: "'k keylib \<Rightarrow> workstation \<Rightarrow> 'k \<times> workstation" where
  "generate_keypair K ws =
     (case generate_private_key K RSA_PUBLIC_EXPONENT RSA_KEY_SIZE (randomness ws) of
        (key, rest) \<Rightarrow> (key, ws\<lparr>randomness := rest\<rparr>))"

text \<open>The modes are \<open>0o600\<close> and, in \<open>Path.write_bytes\<close>, \<open>0o666\<close>.\<close>

definition write_private_key :: "'k keylib \<Rightarrow> 'k \<Rightarrow> loc \<Rightarrow> workstation \<Rightarrow> bool \<times> workstation" where
  "write_private_key K private_key p ws =
     (let pem = private_bytes_pem_pkcs8 K private_key in
      case os_open p 384 ws of
        None \<Rightarrow> (False, ws)
      | Some ws1 \<Rightarrow> write_out p pem ws1)"

definition write_public_key :: "'k keylib \<Rightarrow> 'k \<Rightarrow> loc \<Rightarrow> workstation \<Rightarrow> bool \<times> workstation" where
  "write_public_key K private_key p ws =
     (let pem = public_bytes_pem_spki K (public_key K private_key) in
      case os_open p 438 ws of
        None \<Rightarrow> (False, ws)
      | Some ws1 \<Rightarrow> write_out p pem ws1)"

definition private_pem :: "u8 list \<Rightarrow> u8 list" where "private_pem name = name @ ascii ''_private.pem''"

definition public_pem :: "u8 list \<Rightarrow> u8 list" where "public_pem name = name @ ascii ''_public.pem''"

fun generate_pairs :: "'k keylib \<Rightarrow> loc \<Rightarrow> u8 list list \<Rightarrow> workstation \<Rightarrow> bool \<times> workstation" where
  "generate_pairs K output_dir [] ws = (True, ws)"
| "generate_pairs K output_dir (name # names) ws =
     (let (private_key, ws1) = generate_keypair K ws;
          (ok1, ws2) = write_private_key K private_key (output_dir @ [private_pem name]) ws1
      in if \<not> ok1 then (False, ws2)
         else let (ok2, ws3) = write_public_key K private_key (output_dir @ [public_pem name]) ws2
           in if \<not> ok2 then (False, ws3) else generate_pairs K output_dir names ws3)"

text \<open>The exit status; an exception that nobody catches ends the script with 1.\<close>

definition keygen_main :: "'k keylib \<Rightarrow> loc \<Rightarrow> workstation \<Rightarrow> int \<times> workstation" where
  "keygen_main K output_dir ws =
     (case mkdir_parents [] output_dir ws of
        (ok, ws1) \<Rightarrow>
          if \<not> ok then (1, ws1)
          else (case generate_pairs K output_dir KEYPAIRS ws1 of (done_all, ws2) \<Rightarrow> (if done_all then 0 else 1, ws2)))"

subsection \<open>What a write leaves\<close>

text \<open>The mode of the file at a path after it was opened with a mode for new files.\<close>

definition mode_after :: "workstation \<Rightarrow> loc \<Rightarrow> u16 \<Rightarrow> u16" where
  "mode_after ws p mode = (case stored ws p of None \<Rightarrow> mode AND NOT (umask ws) | Some (old, _) \<Rightarrow> old)"

lemma mode_after_randomness [simp]: "mode_after (ws\<lparr>randomness := r\<rparr>) p mode = mode_after ws p mode"
  by (simp add: mode_after_def split: option.split)

lemma mode_after_cong:
  "stored ws' p = stored ws p \<Longrightarrow> umask ws' = umask ws \<Longrightarrow> mode_after ws' p mode = mode_after ws p mode"
  by (simp add: mode_after_def split: option.split)

lemma mkdir_parents_keeps:
  "mkdir_parents here cs ws = (ok, ws') \<Longrightarrow> stored ws' = stored ws \<and> umask ws' = umask ws"
  by (induction here cs ws rule: mkdir_parents.induct) (auto simp: Let_def split: if_split_asm)

lemma generate_keypair_keeps:
  "generate_keypair K ws = (key, ws') \<Longrightarrow> stored ws' = stored ws \<and> umask ws' = umask ws"
  by (auto simp: generate_keypair_def split: prod.split_asm)

lemma opened_and_written:
  assumes "(case os_open p mode ws of None \<Rightarrow> (False, ws) | Some ws1 \<Rightarrow> write_out p pem ws1) = (ok, ws')"
  shows "\<not> ok \<and> ws' = ws \<or>
    (\<exists>k. ws' = ws\<lparr>stored := (stored ws)(p \<mapsto> (mode_after ws p mode, take k pem))\<rparr> \<and> (ok \<longrightarrow> take k pem = pem))"
proof (cases "os_open p mode ws")
  case (Some ws1)
  then have ws1: "ws1 = ws\<lparr>stored := (stored ws)(p \<mapsto> (mode_after ws p mode, []))\<rparr>"
    by (simp add: os_open_def mode_after_def split: if_split_asm)
  define k where "k = (case short ws1 p of None \<Rightarrow> length pem | Some n \<Rightarrow> min n (length pem))"
  have "ok = (k = length pem)" "ws' = ws\<lparr>stored := (stored ws)(p \<mapsto> (mode_after ws p mode, take k pem))\<rparr>"
    using assms Some by (simp_all add: write_out_def Let_def k_def ws1)
  then show ?thesis by auto
qed (use assms in simp)

lemma private_key_written:
  assumes "write_private_key K key p ws = (ok, ws')"
  shows "\<not> ok \<and> ws' = ws \<or>
    (\<exists>k. ws' = ws\<lparr>stored := (stored ws)(p \<mapsto> (mode_after ws p 384, take k (private_bytes_pem_pkcs8 K key)))\<rparr> \<and>
       (ok \<longrightarrow> take k (private_bytes_pem_pkcs8 K key) = private_bytes_pem_pkcs8 K key))"
  by (rule opened_and_written) (use assms in \<open>simp add: write_private_key_def Let_def\<close>)

lemma public_key_written:
  assumes "write_public_key K key p ws = (ok, ws')"
  shows "\<not> ok \<and> ws' = ws \<or>
    (\<exists>k. ws' = ws\<lparr>stored := (stored ws)(p \<mapsto> (mode_after ws p 438, take k (public_bytes_pem_spki K (public_key K key))))\<rparr> \<and>
       (ok \<longrightarrow> take k (public_bytes_pem_spki K (public_key K key)) = public_bytes_pem_spki K (public_key K key)))"
  by (rule opened_and_written) (use assms in \<open>simp add: write_public_key_def Let_def\<close>)

lemma generate_pairs_Cons:
  assumes "generate_pairs K d (name # names) ws = (ok, ws')"
  obtains key ok1 ws1 ok2 ws2 where
    "write_private_key K key (d @ [private_pem name]) (ws\<lparr>randomness := snd (generate_private_key K 65537 2048 (randomness ws))\<rparr>) =
       (ok1, ws1)"
    "\<not> ok1 \<and> \<not> ok \<and> ws' = ws1 \<or>
     ok1 \<and> write_public_key K key (d @ [public_pem name]) ws1 = (ok2, ws2) \<and>
       (\<not> ok2 \<and> \<not> ok \<and> ws' = ws2 \<or> ok2 \<and> generate_pairs K d names ws2 = (ok, ws'))"
    "key = fst (generate_private_key K 65537 2048 (randomness ws))"
proof -
  let ?key = "fst (generate_private_key K 65537 2048 (randomness ws))"
  let ?ws = "ws\<lparr>randomness := snd (generate_private_key K 65537 2048 (randomness ws))\<rparr>"
  have g: "generate_keypair K ws = (?key, ?ws)"
    by (simp add: generate_keypair_def RSA_PUBLIC_EXPONENT_def RSA_KEY_SIZE_def case_prod_beta)
  obtain ok1 ws1 where w1: "write_private_key K ?key (d @ [private_pem name]) ?ws = (ok1, ws1)" by fastforce
  obtain ok2 ws2 where w2: "write_public_key K ?key (d @ [public_pem name]) ws1 = (ok2, ws2)" by fastforce
  show thesis by (rule that [OF w1 _ refl, of ok2 ws2]) (use assms w2 in \<open>auto simp: g w1 Let_def split: if_split_asm\<close>)
qed

lemma pem_names:
  "private_pem n = private_pem n' \<longleftrightarrow> n = n'" "public_pem n = public_pem n' \<longleftrightarrow> n = n'" "private_pem n \<noteq> public_pem n'"
proof -
  show "private_pem n \<noteq> public_pem n'"
  proof
    assume "private_pem n = public_pem n'"
    then have "take 12 (rev (private_pem n)) = take 12 (rev (public_pem n'))" by simp
    then show False by (simp add: private_pem_def public_pem_def ascii_def)
  qed
qed (simp_all add: private_pem_def public_pem_def)

subsection \<open>Every file that the loop writes\<close>

text \<open>
  One induction over the names: what the loop does to a path.  A private key file gets the mode for new private files, a
  public one that for new public files, and a file that was there keeps its mode.
\<close>

lemma generate_pairs_modes:
  assumes "generate_pairs K d names ws = (ok, ws')"
  shows "umask ws' = umask ws \<and>
    (\<forall>p. (\<forall>name \<in> set names. p \<noteq> d @ [private_pem name] \<and> p \<noteq> d @ [public_pem name]) \<longrightarrow> stored ws' p = stored ws p) \<and>
    (\<forall>name. stored ws' (d @ [private_pem name]) = stored ws (d @ [private_pem name]) \<or>
       (\<exists>bytes. stored ws' (d @ [private_pem name]) = Some (mode_after ws (d @ [private_pem name]) 384, bytes)))"
  using assms
proof (induction names arbitrary: ws)
  case (Cons name names)
  obtain key ok1 ws1 ok2 ws2 where
    w1: "write_private_key K key (d @ [private_pem name]) (ws\<lparr>randomness := snd (generate_private_key K 65537 2048 (randomness ws))\<rparr>) =
       (ok1, ws1)"
    and rest: "\<not> ok1 \<and> \<not> ok \<and> ws' = ws1 \<or>
     ok1 \<and> write_public_key K key (d @ [public_pem name]) ws1 = (ok2, ws2) \<and>
       (\<not> ok2 \<and> \<not> ok \<and> ws' = ws2 \<or> ok2 \<and> generate_pairs K d names ws2 = (ok, ws'))"
    by (rule generate_pairs_Cons [OF Cons.prems])
  have s1: "umask ws1 = umask ws" "\<And>p. p \<noteq> d @ [private_pem name] \<Longrightarrow> stored ws1 p = stored ws p"
    "stored ws1 (d @ [private_pem name]) = stored ws (d @ [private_pem name]) \<or>
     (\<exists>b. stored ws1 (d @ [private_pem name]) = Some (mode_after ws (d @ [private_pem name]) 384, b))"
    using private_key_written [OF w1] by auto
  have m1: "stored ws1 (d @ [private_pem n]) = stored ws (d @ [private_pem n]) \<or>
     (\<exists>b. stored ws1 (d @ [private_pem n]) = Some (mode_after ws (d @ [private_pem n]) 384, b))" for n
    using s1(2,3) by (cases "n = name") (auto simp: pem_names)
  have same: "mode_after ws1 (d @ [private_pem n]) 384 = mode_after ws (d @ [private_pem n]) 384" for n
    using m1 [of n] s1(1) by (auto simp: mode_after_def split: option.split)
  show ?case
  proof (cases "ok1")
    case False
    then show ?thesis using rest s1 m1 by auto
  next
    case True
    then have w2: "write_public_key K key (d @ [public_pem name]) ws1 = (ok2, ws2)" using rest by blast
    have s2: "umask ws2 = umask ws1" "\<And>p. p \<noteq> d @ [public_pem name] \<Longrightarrow> stored ws2 p = stored ws1 p"
      using public_key_written [OF w2] by auto
    then have p2: "stored ws2 (d @ [private_pem n]) = stored ws1 (d @ [private_pem n])" for n by (simp add: pem_names)
    have same2: "mode_after ws2 (d @ [private_pem n]) 384 = mode_after ws (d @ [private_pem n]) 384" for n
      using mode_after_cong [OF p2 s2(1)] same [of n] by simp
    show ?thesis
    proof (cases ok2)
      case False
      then show ?thesis using rest True s1 s2 m1 p2 by auto
    next
      case ok: True
      then have "generate_pairs K d names ws2 = (ok, ws')" using rest True by blast
      from Cons.IH [OF this] s1(1,2) s2 m1 p2 same2 show ?thesis by (smt (verit, best) insert_iff list.set(2))
    qed
  qed
qed simp

lemma generate_pairs_contents:
  assumes "generate_pairs K d names ws = (True, ws')" and "distinct names" and "name \<in> set names"
  shows "\<exists>key m1 m2. stored ws' (d @ [private_pem name]) = Some (m1, private_bytes_pem_pkcs8 K key) \<and>
    stored ws' (d @ [public_pem name]) = Some (m2, public_bytes_pem_spki K (public_key K key))"
  using assms
proof (induction names arbitrary: ws)
  case (Cons n names)
  obtain key ok1 ws1 ok2 ws2 where
    w: "write_private_key K key (d @ [private_pem n]) (ws\<lparr>randomness := snd (generate_private_key K 65537 2048 (randomness ws))\<rparr>) =
       (ok1, ws1)" "ok1" "write_public_key K key (d @ [public_pem n]) ws1 = (ok2, ws2)" "ok2"
      "generate_pairs K d names ws2 = (True, ws')"
    using generate_pairs_Cons [OF Cons.prems(1)] by metis
  show ?case
  proof (cases "name = n")
    case False
    then show ?thesis using Cons.IH [OF w(5)] Cons.prems(2,3) by simp
  next
    case True
    then have "name \<notin> set names" using Cons.prems(2) by simp
    note others = generate_pairs_modes [OF w(5), THEN conjunct2, THEN conjunct1, THEN spec, THEN mp]
    have keep: "stored ws' (d @ [private_pem name]) = stored ws2 (d @ [private_pem name])"
      "stored ws' (d @ [public_pem name]) = stored ws2 (d @ [public_pem name])"
      by (rule others; use \<open>name \<notin> set names\<close> pem_names(3) [THEN not_sym] in \<open>auto simp: pem_names\<close>)+
    have "stored ws2 (d @ [private_pem n]) = stored ws1 (d @ [private_pem n])"
      using public_key_written [OF w(3)] by (auto simp: pem_names)
    then show ?thesis
      using keep private_key_written [OF w(1)] public_key_written [OF w(3)] w(2,4) True by auto
  qed
qed simp

lemma new_private_mode: "(384 AND NOT u) AND 63 = (0 :: u16)"
proof -
  have "(384 AND NOT u) AND 63 = (384 AND 63) AND NOT u" for u :: u16 by (simp only: ac_simps)
  then show ?thesis by simp
qed

subsection \<open>The reading half of crypto.py\<close>

text \<open>
  \<open>decrypt_payload\<close>, \<open>unwrap_key\<close> and \<open>verify_signature\<close>, which the packager's tests call.  \<open>None\<close> stands for the exceptions of
  the library; \<open>verify_signature\<close> turns \<open>InvalidSignature\<close> into \<open>False\<close>.
\<close>

record 'k pyreader =
  aes256_cbc_decryptor :: "u8 list \<Rightarrow> u8 list \<Rightarrow> 'k"
  decryptor_update :: "'k \<Rightarrow> u8 list \<Rightarrow> u8 list \<times> 'k"
  decryptor_finalize :: "'k \<Rightarrow> u8 list option"
  pkcs7_unpadder :: "nat \<Rightarrow> 'k"
  unpadder_update :: "'k \<Rightarrow> u8 list \<Rightarrow> u8 list \<times> 'k"
  unpadder_finalize :: "'k \<Rightarrow> u8 list option"
  rsa_decrypt_oaep_sha256 :: "'k \<Rightarrow> u8 list \<Rightarrow> u8 list option"
  rsa_verify_pkcs1v15_sha256 :: "'k \<Rightarrow> u8 list \<Rightarrow> u8 list \<Rightarrow> bool"

definition decrypt_payload :: "'k pyreader \<Rightarrow> u8 list \<Rightarrow> u8 list \<Rightarrow> u8 list \<Rightarrow> u8 list option" where
  "decrypt_payload R ciphertext key vec =
     (let (p1, decryptor) = decryptor_update R (aes256_cbc_decryptor R key vec) ciphertext in do {
        p2 \<leftarrow> decryptor_finalize R decryptor;
        let padded = p1 @ p2;
        let (d1, unpadder) = unpadder_update R (pkcs7_unpadder R 128) padded;
        d2 \<leftarrow> unpadder_finalize R unpadder;
        Some (d1 @ d2)
      })"

definition unwrap_key :: "'k pyreader \<Rightarrow> u8 list \<Rightarrow> 'k \<Rightarrow> u8 list option" where
  "unwrap_key R wrapped_key device_private_key = rsa_decrypt_oaep_sha256 R device_private_key wrapped_key"

definition verify_signature :: "'k pyreader \<Rightarrow> u8 list \<Rightarrow> u8 list \<Rightarrow> 'k \<Rightarrow> bool" where
  "verify_signature R data signature signing_public_key =
     (if rsa_verify_pkcs1v15_sha256 R signing_public_key signature data then True else False)"

text \<open>
  Documented behaviour of the two streaming interfaces: an unpadder and a decryptor give back what a padder and an
  encryptor with the same parameters were given, each as update followed by finalize.
\<close>

definition streams_invert :: "'k pylib \<Rightarrow> 'k pyreader \<Rightarrow> bool" where
  "streams_invert L R \<longleftrightarrow>
     (\<forall>d. let (p1, c) = padder_update L (pkcs7_padder L 128) d;
              (u1, u) = unpadder_update R (pkcs7_unpadder R 128) (p1 @ padder_finalize L c)
          in \<exists>u2. unpadder_finalize R u = Some u2 \<and> u1 @ u2 = d) \<and>
     (\<forall>key vec d. let (c1, e) = encryptor_update L (aes256_cbc_encryptor L key vec) d;
              (p1, c) = decryptor_update R (aes256_cbc_decryptor R key vec) (c1 @ encryptor_finalize L e)
          in \<exists>p2. decryptor_finalize R c = Some p2 \<and> p1 @ p2 = d)"

lemma decrypt_encrypt_payload:
  assumes "streams_invert L R"
  shows "decrypt_payload R (encrypt_payload L d key vec) key vec = Some d"
proof -
  obtain p1 c where pad: "padder_update L (pkcs7_padder L 128) d = (p1, c)" by fastforce
  let ?padded = "p1 @ padder_finalize L c"
  obtain u1 u where unpad: "unpadder_update R (pkcs7_unpadder R 128) ?padded = (u1, u)" by fastforce
  obtain c1 e where enc: "encryptor_update L (aes256_cbc_encryptor L key vec) ?padded = (c1, e)" by fastforce
  obtain q1 q where dec: "decryptor_update R (aes256_cbc_decryptor R key vec) (c1 @ encryptor_finalize L e) = (q1, q)" by fastforce
  obtain u2 where u2: "unpadder_finalize R u = Some u2" "u1 @ u2 = d"
    using assms [unfolded streams_invert_def, THEN conjunct1, THEN spec, of d] pad unpad by (auto simp: Let_def)
  obtain q2 where q2: "decryptor_finalize R q = Some q2" "q1 @ q2 = ?padded"
    using assms [unfolded streams_invert_def, THEN conjunct2, THEN spec, THEN spec, THEN spec, of key vec ?padded] enc dec
    by (auto simp: Let_def)
  show ?thesis using pad unpad enc dec u2 q2 by (simp add: decrypt_payload_def encrypt_payload_def)
qed

subsection \<open>Properties\<close>

text \<open>
  C30. Permissions of the private keys: however \<open>generate_keys.py\<close> ends, a private key file that it created gives no
  rights to the group and to others; a file that was there before keeps its mode, so that a new private key written over
  a file that others can read stays readable by them.
\<close>

theorem private_key_modes:
  assumes "keygen_main K d ws = (status, ws')" and "name \<in> set KEYPAIRS" and "p = d @ [private_pem name]"
  shows "(stored ws p = None \<longrightarrow> (\<forall>mode bytes. stored ws' p = Some (mode, bytes) \<longrightarrow> mode AND 0x3F = 0)) \<and>
    (\<forall>mode old. stored ws p = Some (mode, old) \<longrightarrow>
       (\<exists>bytes. stored ws' p = Some (mode, bytes)) \<and>
       (status = 0 \<longrightarrow> (\<exists>key. stored ws' p = Some (mode, private_bytes_pem_pkcs8 K key))))"
proof -
  obtain ok ws1 where m: "mkdir_parents [] d ws = (ok, ws1)" by fastforce
  note k1 = mkdir_parents_keeps [OF m]
  show ?thesis
  proof (cases ok)
    case False
    then show ?thesis using assms(1) m k1 by (auto simp: keygen_main_def)
  next
    case True
    obtain all ws2 where g: "generate_pairs K d KEYPAIRS ws1 = (all, ws2)" by fastforce
    then have e: "ws' = ws2" "status = 0 \<longleftrightarrow> all" using assms(1) m True by (auto simp: keygen_main_def split: if_split_asm)
    have modes: "stored ws2 p = stored ws1 p \<or> (\<exists>b. stored ws2 p = Some (mode_after ws1 p 384, b))"
      using generate_pairs_modes [OF g] assms(3) by blast
    have "\<exists>m1 key. stored ws2 p = Some (m1, private_bytes_pem_pkcs8 K key)" if "all"
      using generate_pairs_contents [OF g [unfolded eqTrueI [OF that]] _ assms(2)] assms(3) by (auto simp: KEYPAIRS_def ascii_def)
    then show ?thesis using modes k1 e by (fastforce simp: mode_after_def new_private_mode split: option.split_asm)
  qed
qed

text \<open>A sample PEM text is a byte followed by the key; no PEM text is empty.\<close>

definition pem_keylib :: "u8 list keylib" where
  "pem_keylib =
     \<lparr>generate_private_key = (\<lambda>e n rnd. ([rnd 0], \<lambda>i. rnd (Suc i))), public_key = (\<lambda>k. k),
      private_bytes_pem_pkcs8 = (\<lambda>k. 45 # k), public_bytes_pem_spki = (\<lambda>k. 45 # k)\<rparr>"

definition sample_workstation :: workstation where
  "sample_workstation =
     \<lparr>randomness = (\<lambda>i. if i = 0 then 5 else 9), folder = (\<lambda>p. p = []),
      stored = (\<lambda>_. None), umask = 18, refused = (\<lambda>_. False), short = (\<lambda>_. None)\<rparr>"

definition keys_dir :: loc where "keys_dir = [ascii ''keys'']"

theorem private_key_modes_witness:
  "\<exists>ws' k. keygen_main pem_keylib keys_dir
      (sample_workstation\<lparr>folder := (\<lambda>p. p = [] \<or> p = keys_dir),
         stored := [keys_dir @ [private_pem (ascii ''signing'')] \<mapsto> (420, [1])]\<rparr>) = (0, ws') \<and>
    stored ws' (keys_dir @ [private_pem (ascii ''signing'')]) = Some (420, k) \<and> (420 :: u16) AND 0x3F \<noteq> 0"
proof -
  let ?p = "keys_dir @ [private_pem (ascii ''signing'')]"
  let ?ws = "sample_workstation\<lparr>folder := (\<lambda>p. p = [] \<or> p = keys_dir), stored := [?p \<mapsto> (420, [1])]\<rparr>"
  obtain ws' where run: "keygen_main pem_keylib keys_dir ?ws = (0, ws')"
    by (simp add: keygen_main_def keys_dir_def sample_workstation_def pem_keylib_def KEYPAIRS_def Let_def
      generate_keypair_def write_private_key_def write_public_key_def os_open_def write_out_def private_pem_def
      public_pem_def ascii_def)
  have "ascii ''signing'' \<in> set KEYPAIRS" by (simp add: KEYPAIRS_def)
  from private_key_modes [OF run this refl] obtain k where "stored ws' ?p = Some (420, k)" by auto
  moreover have "(420 :: u16) AND 0x3F \<noteq> 0" by simp
  ultimately show ?thesis using run by blast
qed







end
