(* ===== verification/Fota_Heap.thy ===== *)
theory Fota_Heap
  imports Fota_World
begin

section \<open>Memory and handles that have to be given back\<close>

text \<open>
  The other theories model what the consumer computes; the heap theories model what it holds while it computes: the
  blocks of \<open>malloc\<close>, \<open>calloc\<close>, \<open>realloc\<close> and \<open>OPENSSL_malloc\<close>, the open files, and the objects of
  libcrypto and zlib that have a release function.  Each is a \<^emph>\<open>handle\<close>, a number that is never used twice.  Releasing
  a handle that is not held, or with the release function of another kind, and touching a block after it was
  freed, are undefined behaviour and have the value \<open>None\<close>; releasing NULL does nothing.

  A function with the suffix \<open>_h\<close> follows the same C code as the function without it, together with every
  acquisition and release the code makes, in the code's order.  The lemmas show that it returns the same value, that it
  never meets an undefined release or access, and what it still holds at the end.
\<close>

datatype resource =
    Block alloc_site
  | Crypto_block
  | Open_file
  | Inflate_state
  | Pkey
  | Pkey_ctx
  | Md_ctx
  | Cipher_ctx

record heap =
  live :: "nat \<Rightarrow> resource option"
  next_handle :: nat

definition wf_heap :: "heap \<Rightarrow> bool" where
  "wf_heap h \<longleftrightarrow> (\<forall>p \<ge> next_handle h. live h p = None)"

definition acquire :: "resource \<Rightarrow> heap \<Rightarrow> nat \<times> heap" where
  "acquire r h =
     (next_handle h, h\<lparr>live := (live h)(next_handle h \<mapsto> r), next_handle := Suc (next_handle h)\<rparr>)"

definition release :: "resource \<Rightarrow> nat \<Rightarrow> heap \<Rightarrow> heap option" where
  "release r p h = (if live h p = Some r then Some (h\<lparr>live := (live h)(p := None)\<rparr>) else None)"

subsection \<open>Acquiring and releasing as an interface\<close>

text \<open>
  What the programs need of it: a new handle is fresh, a held one can be released, and one that is not held cannot.
\<close>

locale resources =
  fixes get :: "'r \<Rightarrow> 'h \<Rightarrow> 'p \<times> 'h"
    and give :: "'r \<Rightarrow> 'p \<Rightarrow> 'h \<Rightarrow> 'h option"
    and held :: "'h \<Rightarrow> 'p \<Rightarrow> 'r option"
    and ok :: "'h \<Rightarrow> bool"
  assumes get_fresh: "ok h \<Longrightarrow> get r h = (p, h') \<Longrightarrow> held h p = None \<and> held h' = (held h)(p \<mapsto> r) \<and> ok h'"
    and give_held: "ok h \<Longrightarrow> held h p = Some r \<Longrightarrow> \<exists>h'. give r p h = Some h' \<and> held h' = (held h)(p := None) \<and> ok h'"
    and give_dead: "held h p \<noteq> Some r \<Longrightarrow> give r p h = None"
begin

text \<open>Acquire, work that leaves the rest alone, release: nothing is left behind.\<close>

lemma bracket:
  assumes "ok h" and "get r h = (p, h1)" and "ok h2" and "held h2 = held h1"
  shows "\<exists>h3. give r p h2 = Some h3 \<and> held h3 = held h \<and> ok h3"
proof -
  note fresh = get_fresh [OF assms(1,2)]
  then have "held h2 p = Some r" using assms(4) by simp
  from give_held [OF assms(3) this] show ?thesis using fresh assms(4) by (auto simp: fun_upd_idem)
qed

text \<open>No handle is released twice, by whatever function.\<close>

lemma give_once:
  assumes "ok h" and "give r p h = Some h1" and "ok h2" and "held h2 = held h1"
  shows "give r' p h2 = None"
proof -
  have "held h p = Some r" using assms(2) give_dead [of h p r] by (cases "held h p = Some r") auto
  then have "held h1 p = None" using give_held [OF assms(1)] assms(2) by fastforce
  then show ?thesis using assms(4) by (intro give_dead) simp
qed

end

lemma wf_heap_next [simp]: "wf_heap h \<Longrightarrow> live h (next_handle h) = None"
  by (simp add: wf_heap_def)

interpretation handles: resources acquire release live wf_heap
proof unfold_locales
  fix h r p h' assume "wf_heap h" and "acquire r h = (p, h')"
  then show "live h p = None \<and> live h' = (live h)(p \<mapsto> r) \<and> wf_heap h'"
    by (auto simp: acquire_def wf_heap_def)
next
  fix h p r assume "wf_heap h" and "live h p = Some r"
  then show "\<exists>h'. release r p h = Some h' \<and> live h' = (live h)(p := None) \<and> wf_heap h'"
    by (auto simp: release_def wf_heap_def)
next
  fix h :: heap and p r assume "live h p \<noteq> Some r"
  then show "release r p h = None" by (simp add: release_def)
qed

subsection \<open>malloc, realloc, free\<close>

text \<open>A pointer is a handle or NULL; \<open>None\<close> as an argument or result pointer is NULL.\<close>

definition malloc :: "allocator \<Rightarrow> alloc_site \<Rightarrow> nat \<Rightarrow> heap \<Rightarrow> nat option \<times> heap" where
  "malloc alloc s n h =
     (if alloc s n then (case acquire (Block s) h of (p, h') \<Rightarrow> (Some p, h')) else (None, h))"

fun is_block :: "resource option \<Rightarrow> bool" where
  "is_block (Some (Block s)) = True"
| "is_block _ = False"

definition free :: "nat option \<Rightarrow> heap \<Rightarrow> heap option" where
  "free p h =
     (case p of
        None \<Rightarrow> Some h
      | Some q \<Rightarrow> if is_block (live h q) then Some (h\<lparr>live := (live h)(q := None)\<rparr>) else None)"

text \<open>
  \<open>realloc\<close> of a block that was freed is undefined even when the request is refused; a refused request leaves
  the old block held, a granted one releases it and returns a new one.
\<close>

definition realloc :: "allocator \<Rightarrow> alloc_site \<Rightarrow> nat option \<Rightarrow> nat \<Rightarrow> heap \<Rightarrow> (nat option \<times> heap) option" where
  "realloc alloc s p n h = do {
     h1 \<leftarrow> free p h;
     (case malloc alloc s n h1 of
        (None, _) \<Rightarrow> Some (None, h)
      | (Some q, h2) \<Rightarrow> Some (Some q, h2))
   }"

text \<open>Reading or writing through a pointer into a block.\<close>

definition access :: "nat \<Rightarrow> heap \<Rightarrow> unit option" where
  "access p h = (if is_block (live h p) then Some () else None)"

lemma access_live [simp]: "live h p = Some (Block s) \<Longrightarrow> access p h = Some ()"
  by (simp add: access_def)

subsection \<open>What is held at the end\<close>

text \<open>
  \<open>gain p r F\<close> is \<open>F\<close> with the handle of a pointer that may be NULL, and \<open>fresh p F\<close> says that \<open>F\<close> does not hold it yet.
  \<open>ends m r L\<close>: the computation \<open>m\<close> returns \<open>r\<close> and then holds exactly \<open>L\<close>; \<open>leaves m L\<close> is the same for a
  computation without a value.
\<close>

type_synonym holding = "nat \<Rightarrow> resource option"

fun gain :: "nat option \<Rightarrow> resource \<Rightarrow> holding \<Rightarrow> holding" where
  "gain None r F = F"
| "gain (Some p) r F = F(p \<mapsto> r)"

fun fresh :: "nat option \<Rightarrow> holding \<Rightarrow> bool" where
  "fresh None F = True"
| "fresh (Some p) F = (F p = None)"

definition ends :: "('a \<times> heap) option \<Rightarrow> 'a \<Rightarrow> holding \<Rightarrow> bool" where
  "ends m r L \<longleftrightarrow> (\<exists>h. m = Some (r, h) \<and> wf_heap h \<and> live h = L)"

definition leaves :: "heap option \<Rightarrow> holding \<Rightarrow> bool" where
  "leaves m L \<longleftrightarrow> (\<exists>h. m = Some h \<and> wf_heap h \<and> live h = L)"

lemma ends_Some [simp]: "ends (Some (r, h)) r' L \<longleftrightarrow> r = r' \<and> wf_heap h \<and> live h = L"
  by (auto simp: ends_def)

lemma endsE:
  assumes "ends m r L" obtains h where "m = Some (r, h)" "wf_heap h" "live h = L"
  using assms by (auto simp: ends_def)

lemma ends_bind:
  assumes "ends m r L" and "\<And>h. wf_heap h \<Longrightarrow> live h = L \<Longrightarrow> ends (k (r, h)) r' L'"
  shows "ends (Option.bind m k) r' L'"
  using assms by (auto simp: ends_def)

lemma leaves_bind:
  assumes "leaves m L" and "\<And>h. wf_heap h \<Longrightarrow> live h = L \<Longrightarrow> ends (k h) r' L'"
  shows "ends (Option.bind m k) r' L'"
  using assms by (auto simp: leaves_def ends_def)

lemma acquire_fresh:
  assumes "wf_heap h"
  obtains p h' where "acquire r h = (p, h')" "wf_heap h'" "live h p = None" "live h' = (live h)(p \<mapsto> r)"
  using handles.get_fresh [OF assms] by (cases "acquire r h") auto

lemma leaves_release:
  assumes "wf_heap h" and "live h = F(p \<mapsto> r)" and "F p = None"
  shows "leaves (release r p h) F"
  using handles.give_held [of h p r] assms by (auto simp: leaves_def fun_upd_idem)

lemma leaves_free:
  assumes "wf_heap h" and "live h = gain p (Block s) F" and "fresh p F"
  shows "leaves (free p h) F"
proof (cases p)
  case None
  then show ?thesis using assms by (simp add: leaves_def free_def)
next
  case (Some q)
  then have "live h = F(q \<mapsto> Block s)" "F q = None" using assms by simp_all
  then show ?thesis
    using Some leaves_release [OF assms(1), of F q "Block s"] by (simp add: leaves_def free_def release_def fun_upd_idem)
qed

lemma leaves_free_Some:
  assumes "wf_heap h" and "live h = F(p \<mapsto> Block s)" and "F p = None"
  shows "leaves (free (Some p) h) F"
  using leaves_free [of h "Some p"] assms by simp

lemma malloc_refused: "\<not> alloc s n \<Longrightarrow> malloc alloc s n h = (None, h)"
  by (simp add: malloc_def)

lemma malloc_granted:
  assumes "wf_heap h" and "alloc s n"
  obtains p h' where "malloc alloc s n h = (Some p, h')" "wf_heap h'" "live h p = None"
    "live h' = (live h)(p \<mapsto> Block s)"
  by (rule acquire_fresh [OF assms(1), of "Block s"]) (use assms(2) that in \<open>auto simp: malloc_def\<close>)

lemma realloc_refused:
  assumes "wf_heap h" and "live h = gain p (Block s) F" and "fresh p F" and "\<not> alloc s n"
  shows "realloc alloc s p n h = Some (None, h)"
  using leaves_free [OF assms(1-3)] assms(4) by (auto simp: realloc_def leaves_def malloc_refused)

lemma realloc_granted:
  assumes "wf_heap h" and "live h = gain p (Block s) F" and "fresh p F" and "alloc s n"
  obtains q h' where "realloc alloc s p n h = Some (Some q, h')" "wf_heap h'" "F q = None"
    "live h' = F(q \<mapsto> Block s)"
proof -
  from leaves_free [OF assms(1-3)] obtain h1 where h1: "free p h = Some h1" "wf_heap h1" "live h1 = F"
    by (auto simp: leaves_def)
  show ?thesis
    by (rule malloc_granted [of h1 alloc s n]) (use h1 assms(4) that in \<open>auto simp: realloc_def\<close>)
qed

subsection \<open>Arrays that grow\<close>

text \<open>
  \<open>fota_tar_entries_t\<close> and \<open>fota_manifest_files_t\<close>: a pointer to the elements and their number.  \<open>array_free\<close> is what
  \<open>fota_tar_entries_free\<close> and \<open>manifest_files_free\<close> do; \<open>array_room\<close> makes room for one more element: it is the
  \<open>realloc\<close> of both parsers, which free the array when it is refused.  \<open>bytes\<close> gives the size of the request for a
  capacity; the capacity is a word where the code's arithmetic can wrap, and a natural number where it cannot.
\<close>

record 'e owned_array =
  elems :: "'e list"
  base :: "nat option"

definition empty_array :: "'e owned_array" where
  "empty_array = \<lparr>elems = [], base = None\<rparr>"

definition array_free :: "'e owned_array \<Rightarrow> heap \<Rightarrow> ('e owned_array \<times> heap) option" where
  "array_free a h = do { h1 \<leftarrow> free (base a) h; Some (empty_array, h1) }"

definition array_room ::
    "allocator \<Rightarrow> alloc_site \<Rightarrow> ('c::semiring_1 \<Rightarrow> nat) \<Rightarrow> 'c \<Rightarrow> 'e owned_array \<Rightarrow> 'c \<Rightarrow> heap \<Rightarrow>
     (('c option \<times> 'e owned_array) \<times> heap) option"
where
  "array_room alloc s bytes initial a capacity h =
     (if of_nat (length (elems a)) = capacity then
        let new_capacity = (if capacity = 0 then initial else capacity * 2) in do {
          (bigger, h1) \<leftarrow> realloc alloc s (base a) (bytes new_capacity) h;
          (case bigger of
             None \<Rightarrow> do { (a1, h2) \<leftarrow> array_free a h1; Some ((None, a1), h2) }
           | Some p \<Rightarrow> Some ((Some new_capacity, a\<lparr>base := Some p\<rparr>), h1))
        }
      else Some ((Some capacity, a), h))"

lemma ends_array_free:
  assumes "wf_heap h" and "live h = gain (base a) (Block s) F" and "fresh (base a) F"
  shows "ends (array_free a h) empty_array F"
  unfolding array_free_def by (rule leaves_bind [OF leaves_free [OF assms]]) simp

text \<open>An array has a block when it has elements or its capacity is not 0.\<close>

definition roomy :: "'e owned_array \<Rightarrow> 'c::semiring_1 \<Rightarrow> bool" where
  "roomy a capacity \<longleftrightarrow> (elems a \<noteq> [] \<or> capacity \<noteq> 0 \<longrightarrow> base a \<noteq> None)"

lemma roomy_empty [simp]: "roomy empty_array 0"
  by (simp add: roomy_def empty_array_def)

text \<open>Reading elements of an array: its block must be held, unless there is no element.\<close>

definition array_access :: "'e owned_array \<Rightarrow> heap \<Rightarrow> unit option" where
  "array_access a h =
     (if elems a = [] then Some ()
      else (case base a of None \<Rightarrow> None | Some p \<Rightarrow> access p h))"

lemma roomy_array_access:
  "roomy a capacity \<Longrightarrow> live h = gain (base a) (Block s) F \<Longrightarrow> array_access a h = Some ()"
  by (cases "base a") (auto simp: roomy_def array_access_def)

lemma array_access_mono:
  assumes "array_access a h = Some ()" and "\<And>p. is_block (live h p) \<Longrightarrow> is_block (live h' p)"
  shows "array_access a h' = Some ()"
  using assms by (auto simp: array_access_def access_def split: option.split_asm if_split_asm)

lemma array_room_cases:
  assumes "wf_heap h" and "live h = gain (base a) (Block s) F" and "fresh (base a) F"
    and "roomy a capacity"
  obtains
    (refused) "of_nat (length (elems a)) = capacity" "\<not> alloc s (bytes (if capacity = 0 then initial else capacity * 2))"
      "ends (array_room alloc s bytes initial a capacity h) (None, empty_array) F"
  | (granted) b capacity' where
      "capacity' = (if of_nat (length (elems a)) = capacity then if capacity = 0 then initial else capacity * 2 else capacity)"
      "of_nat (length (elems a)) = capacity \<longrightarrow> alloc s (bytes capacity')"
      "ends (array_room alloc s bytes initial a capacity h) (Some capacity', a\<lparr>base := b\<rparr>) (gain b (Block s) F)"
      "fresh b F" "\<And>e. roomy \<lparr>elems = elems a @ [e], base = b\<rparr> capacity'"
proof -
  note held = assms(1-3)
  let ?n = "if capacity = 0 then initial else capacity * 2"
  consider (keep) "of_nat (length (elems a)) \<noteq> capacity" | (no) "of_nat (length (elems a)) = capacity" "\<not> alloc s (bytes ?n)"
    | (yes) "of_nat (length (elems a)) = capacity" "alloc s (bytes ?n)" by blast
  then show thesis
  proof cases
    case keep
    then have "elems a \<noteq> [] \<or> capacity \<noteq> 0" by auto
    then have "base a \<noteq> None" using assms(4) unfolding roomy_def by blast
    then show thesis using keep granted [of capacity "base a"] assms by (simp add: array_room_def roomy_def)
  next
    case no
    have "ends (array_room alloc s bytes initial a capacity h) (None, empty_array) F"
      using no(1) realloc_refused [of h "base a" s F alloc "bytes ?n", OF held no(2)]
      by (auto simp: array_room_def Let_def intro: ends_bind [OF ends_array_free [OF held]])
    with no show thesis by (rule refused)
  next
    case yes
    show thesis
    proof (rule realloc_granted [of h "base a" s F alloc "bytes ?n", OF held yes(2)])
      fix q h' assume "realloc alloc s (base a) (bytes ?n) h = Some (Some q, h')" "wf_heap h'" "F q = None"
        "live h' = F(q \<mapsto> Block s)"
      then show thesis
        using granted [of ?n "Some q"] yes by (simp add: array_room_def Let_def roomy_def)
    qed
  qed
qed

end
