(* ===== verification/Fota_Heap_Crypto.thy ===== *)
theory Fota_Heap_Crypto
  imports Fota_Heap Fota_Crypto Fota_Version
begin

section \<open>The libcrypto wrappers and the version files with their handles\<close>

text \<open>
  \<open>fcrypto.c\<close> opens key files and creates one libcrypto context per operation; \<open>fota_unwrap_key\<close> also holds a
  block of \<open>OPENSSL_malloc\<close> with the unwrapped key, which only \<open>OPENSSL_clear_free\<close> may take back: \<open>release
  Crypto_block\<close> stands for it.  The key loaders hand their \<open>EVP_PKEY\<close> to the caller.  \<open>version.c\<close> opens and
  closes its files.
\<close>

text \<open>A handle held across work that takes nothing else.\<close>

lemma handle_bracket:
  assumes "wf_heap h"
  obtains p h1 h2 where "acquire k h = (p, h1)" "release k p h1 = Some h2" "wf_heap h2"
    "live h2 = live h"
proof -
  obtain p h1 where a: "acquire k h = (p, h1)" by fastforce
  from handles.get_fresh [OF assms a] have "wf_heap h1" by simp
  from handles.bracket [OF assms a this refl] that a show thesis by blast
qed

subsection \<open>Keys\<close>

definition fota_load_private_key_h ::
    "'h openssl \<Rightarrow> world \<Rightarrow> u8 list option \<Rightarrow> heap \<Rightarrow> (('h \<times> nat) option \<times> heap) option" where
  "fota_load_private_key_h C w path h =
     (case path of
        None \<Rightarrow> Some (None, h)
      | Some p \<Rightarrow>
          (case fopen_rb w p of
             None \<Rightarrow> Some (None, h)
           | Some fp \<Rightarrow>
               let (fd, h1) = acquire Open_file h;
                   (pkey, h2) = (case PEM_read_PrivateKey C fp of
                                   None \<Rightarrow> (None, h1)
                                 | Some k \<Rightarrow> (case acquire Pkey h1 of (kp, h2) \<Rightarrow> (Some (k, kp), h2)))
               in do { h3 \<leftarrow> release Open_file fd h2; Some (pkey, h3) }))"

definition fota_load_public_key_h ::
    "'h openssl \<Rightarrow> world \<Rightarrow> u8 list option \<Rightarrow> heap \<Rightarrow> (('h \<times> nat) option \<times> heap) option" where
  "fota_load_public_key_h C w path h =
     (case path of
        None \<Rightarrow> Some (None, h)
      | Some p \<Rightarrow>
          (case fopen_rb w p of
             None \<Rightarrow> Some (None, h)
           | Some fp \<Rightarrow>
               let (fd, h1) = acquire Open_file h;
                   (pkey, h2) = (case PEM_read_PUBKEY C fp of
                                   None \<Rightarrow> (None, h1)
                                 | Some k \<Rightarrow> (case acquire Pkey h1 of (kp, h2) \<Rightarrow> (Some (k, kp), h2)))
               in do { h3 \<leftarrow> release Open_file fd h2; Some (pkey, h3) }))"

text \<open>A loader hands out the key and nothing else.\<close>

definition loads :: "(('h \<times> nat) option \<times> heap) option \<Rightarrow> 'h option \<Rightarrow> holding \<Rightarrow> bool" where
  "loads m key F \<longleftrightarrow>
     (case key of
        None \<Rightarrow> ends m None F
      | Some k \<Rightarrow> \<exists>kp. F kp = None \<and> ends m (Some (k, kp)) (F(kp \<mapsto> Pkey)))"

lemma key_file_loads:
  assumes "wf_heap h"
  shows "loads (let (fd, h1) = acquire Open_file h;
                    (pkey, h2) = (case key of
                                    None \<Rightarrow> (None, h1)
                                  | Some k \<Rightarrow> (case acquire Pkey h1 of (kp, h2) \<Rightarrow> (Some (k, kp), h2)))
                in do { h3 \<leftarrow> release Open_file fd h2; Some (pkey, h3) }) key (live h)"
proof -
  obtain fd h1 where a: "acquire Open_file h = (fd, h1)" "wf_heap h1" "live h fd = None"
      "live h1 = (live h)(fd \<mapsto> Open_file)"
    by (rule acquire_fresh [OF assms])
  show ?thesis
  proof (cases key)
    case None
    then show ?thesis using leaves_release [OF a(2,4,3)] a(1) by (auto simp: loads_def leaves_def)
  next
    case (Some k)
    obtain kp h2 where b: "acquire Pkey h1 = (kp, h2)" "wf_heap h2" "live h1 kp = None"
        "live h2 = (live h1)(kp \<mapsto> Pkey)"
      by (rule acquire_fresh [OF a(2)])
    have ne: "kp \<noteq> fd" "live h kp = None" using a(4) b(3) by (auto split: if_split_asm)
    then have "live h2 = ((live h)(kp \<mapsto> Pkey))(fd \<mapsto> Open_file)" using a(4) b(4) by (simp add: fun_upd_twist)
    from leaves_release [OF b(2) this] ne show ?thesis
      using Some a(1,3) b(1) by (auto simp: loads_def leaves_def)
  qed
qed

lemma load_private_key_h_loads:
  "wf_heap h \<Longrightarrow> loads (fota_load_private_key_h C w path h) (fota_load_private_key C w path) (live h)"
  using key_file_loads [of h]
  by (auto simp: fota_load_private_key_h_def fota_load_private_key_def loads_def [where key = None] split: option.split)

lemma load_public_key_h_loads:
  "wf_heap h \<Longrightarrow> loads (fota_load_public_key_h C w path h) (fota_load_public_key C w path) (live h)"
  using key_file_loads [of h]
  by (auto simp: fota_load_public_key_h_def fota_load_public_key_def loads_def [where key = None] split: option.split)

subsection \<open>Key unwrap\<close>

text \<open>The part between \<open>EVP_PKEY_CTX_new\<close> and \<open>EVP_PKEY_CTX_free\<close>.\<close>

definition unwrap_in_ctx_h ::
    "'h openssl \<Rightarrow> allocator \<Rightarrow> 'h \<Rightarrow> u8 list \<Rightarrow> nat \<Rightarrow> u8 list \<Rightarrow> nat \<Rightarrow> heap \<Rightarrow>
     ((fota_crypto_result \<times> u8 list option \<times> nat option) \<times> heap) option"
where
  "unwrap_in_ctx_h C alloc ctx wk wrapped_key_len out cap h =
     (case oaep_setup C ctx of
        None \<Rightarrow> Some ((FOTA_CRYPTO_ERR_UNWRAP_FAILED, Some out, Some cap), h)
      | Some ctx1 \<Rightarrow> do {
          inp \<leftarrow> rd_slice wk 0 wrapped_key_len;
          let (rq, required_len, ctx2) = EVP_PKEY_decrypt_size C ctx1 inp;
          if rq \<noteq> 1 then Some ((FOTA_CRYPTO_ERR_UNWRAP_FAILED, Some out, Some cap), h)
          else if \<not> alloc Site_unwrap_tmp required_len
          then Some ((FOTA_CRYPTO_ERR_UNWRAP_FAILED, Some out, Some cap), h)
          else let (tmp_p, h1) = acquire Crypto_block h;
                   (rc, tmp, _) = EVP_PKEY_decrypt C ctx2 required_len inp
               in if required_len < length tmp then None
                  else do {
                    r \<leftarrow> (if rc = 1 \<and> length tmp \<le> cap
                         then do { out' \<leftarrow> wr_slice out 0 tmp; Some (FOTA_CRYPTO_OK, Some out', Some (length tmp)) }
                         else Some (FOTA_CRYPTO_ERR_UNWRAP_FAILED, Some out, Some cap));
                    h2 \<leftarrow> release Crypto_block tmp_p h1;
                    Some (r, h2)
                  }
        })"

definition fota_unwrap_key_h ::
    "'h openssl \<Rightarrow> allocator \<Rightarrow> 'h option \<Rightarrow> u8 list option \<Rightarrow> nat \<Rightarrow> u8 list option \<Rightarrow> nat option \<Rightarrow> heap \<Rightarrow>
     ((fota_crypto_result \<times> u8 list option \<times> nat option) \<times> heap) option"
where
  "fota_unwrap_key_h C alloc device_private_key wrapped_key wrapped_key_len out_key out_key_len h =
     (case (device_private_key, wrapped_key, out_key, out_key_len) of
        (Some key, Some wk, Some out, Some cap) \<Rightarrow>
          (case EVP_PKEY_CTX_new C key of
             None \<Rightarrow> Some ((FOTA_CRYPTO_ERR_UNWRAP_FAILED, out_key, out_key_len), h)
           | Some ctx \<Rightarrow>
               let (ctx_p, h1) = acquire Pkey_ctx h in do {
                 (r, h2) \<leftarrow> unwrap_in_ctx_h C alloc ctx wk wrapped_key_len out cap h1;
                 h3 \<leftarrow> release Pkey_ctx ctx_p h2;
                 Some (r, h3)
               })
      | _ \<Rightarrow> Some ((FOTA_CRYPTO_ERR_INVALID_ARG, out_key, out_key_len), h))"

lemma unwrap_in_ctx_h_ends:
  assumes "EVP_PKEY_CTX_new C key = Some ctx"
    and "fota_unwrap_key C alloc (Some key) (Some wk) n (Some out) (Some cap) = Some r" and "wf_heap h"
  shows "ends (unwrap_in_ctx_h C alloc ctx wk n out cap h) r (live h)"
proof -
  obtain p h1 where a: "acquire Crypto_block h = (p, h1)" "wf_heap h1" "live h p = None"
      "live h1 = (live h)(p \<mapsto> Crypto_block)"
    by (rule acquire_fresh [OF assms(3)])
  obtain h2 where "release Crypto_block p h1 = Some h2" "wf_heap h2" "live h2 = live h"
    using leaves_release [OF a(2,4,3)] by (auto simp: leaves_def)
  then show ?thesis using assms a(1)
    by (auto simp: fota_unwrap_key_def unwrap_in_ctx_h_def Let_def
        split: option.splits prod.splits Option.bind_split_asm if_split_asm)
qed

lemma unwrap_key_h_ends:
  assumes "fota_unwrap_key C alloc key wk n out cap = Some r" and "wf_heap h"
  shows "ends (fota_unwrap_key_h C alloc key wk n out cap h) r (live h)"
proof (cases "\<exists>k w o' c ctx. key = Some k \<and> wk = Some w \<and> out = Some o' \<and> cap = Some c \<and> EVP_PKEY_CTX_new C k = Some ctx")
  case False
  then show ?thesis using assms
    by (auto simp: fota_unwrap_key_def fota_unwrap_key_h_def split: option.splits)
next
  case True
  then obtain k w o' c ctx where args: "key = Some k" "wk = Some w" "out = Some o'" "cap = Some c"
      and ctx: "EVP_PKEY_CTX_new C k = Some ctx" by blast
  obtain p h1 where a: "acquire Pkey_ctx h = (p, h1)" "wf_heap h1" "live h p = None"
      "live h1 = (live h)(p \<mapsto> Pkey_ctx)"
    by (rule acquire_fresh [OF assms(2)])
  from unwrap_in_ctx_h_ends [OF ctx assms(1) [unfolded args] a(2)] obtain h2
    where h2: "unwrap_in_ctx_h C alloc ctx w n o' c h1 = Some (r, h2)" "wf_heap h2" "live h2 = live h1"
    by (rule endsE)
  from leaves_release [OF h2(2), of "live h" p Pkey_ctx] a(3,4) h2 show ?thesis
    using args ctx a(1) by (auto simp: fota_unwrap_key_h_def leaves_def)
qed

subsection \<open>Signature and payload\<close>

definition fota_verify_signature_h ::
    "'h openssl \<Rightarrow> 'h option \<Rightarrow> u8 list option \<Rightarrow> nat \<Rightarrow> u8 list option \<Rightarrow> nat \<Rightarrow> heap \<Rightarrow>
     (fota_crypto_result \<times> heap) option"
where
  "fota_verify_signature_h C signing_public_key data data_len signature signature_len h =
     (case (signing_public_key, data, signature) of
        (Some key, Some d, Some sig) \<Rightarrow>
          (case EVP_MD_CTX_new C of
             None \<Rightarrow> Some (FOTA_CRYPTO_ERR_VERIFY_FAILED, h)
           | Some mdctx \<Rightarrow>
               let (ctx_p, h1) = acquire Md_ctx h;
                   (r, mdctx1) = EVP_DigestVerifyInit C mdctx EVP_sha256 key
               in do {
                 result \<leftarrow>
                   (if r \<noteq> 1 then Some FOTA_CRYPTO_ERR_VERIFY_FAILED
                    else do {
                      s \<leftarrow> rd_slice sig 0 signature_len;
                      m \<leftarrow> rd_slice d 0 data_len;
                      Some (if EVP_DigestVerify C mdctx1 s m = 1 then FOTA_CRYPTO_OK
                            else FOTA_CRYPTO_ERR_VERIFY_FAILED)
                    });
                 h2 \<leftarrow> release Md_ctx ctx_p h1;
                 Some (result, h2)
               })
      | _ \<Rightarrow> Some (FOTA_CRYPTO_ERR_INVALID_ARG, h))"

text \<open>The three calls between \<open>EVP_CIPHER_CTX_new\<close> and \<open>EVP_CIPHER_CTX_free\<close>.\<close>

definition decrypt_in_ctx ::
    "'h openssl \<Rightarrow> 'h \<Rightarrow> u8 list \<Rightarrow> u8 list \<Rightarrow> u8 list \<Rightarrow> nat \<Rightarrow> u8 list \<Rightarrow> nat option \<Rightarrow>
     (fota_crypto_result \<times> u8 list option \<times> nat option) option"
where
  "decrypt_in_ctx C ctx k v ct ciphertext_len out out_len = do {
     kb \<leftarrow> rd_slice k 0 FOTA_AES_KEY_SIZE;
     vb \<leftarrow> rd_slice v 0 FOTA_AES_IV_SIZE;
     let (r1, ctx1) = EVP_DecryptInit_ex C ctx EVP_aes_256_cbc kb vb;
     if r1 \<noteq> 1 then Some (FOTA_CRYPTO_ERR_DECRYPT_FAILED, Some out, out_len)
     else do {
       inp \<leftarrow> rd_slice ct 0 ciphertext_len;
       let (r2, up, ctx2) = EVP_DecryptUpdate C ctx1 inp;
       out1 \<leftarrow> wr_slice out 0 up;
       if r2 \<noteq> 1 then Some (FOTA_CRYPTO_ERR_DECRYPT_FAILED, Some out1, out_len)
       else do {
         let (r3, fin, _) = EVP_DecryptFinal_ex C ctx2;
         out2 \<leftarrow> wr_slice out1 (length up) fin;
         if r3 \<noteq> 1 then Some (FOTA_CRYPTO_ERR_DECRYPT_FAILED, Some out2, out_len)
         else Some (FOTA_CRYPTO_OK, Some out2, Some (length up + length fin))
       }
     }
   }"

definition fota_decrypt_payload_h ::
    "'h openssl \<Rightarrow> u8 list option \<Rightarrow> nat \<Rightarrow> u8 list option \<Rightarrow> nat \<Rightarrow> u8 list option \<Rightarrow> nat \<Rightarrow>
     u8 list option \<Rightarrow> nat option \<Rightarrow> heap \<Rightarrow> ((fota_crypto_result \<times> u8 list option \<times> nat option) \<times> heap) option"
where
  "fota_decrypt_payload_h C key key_len vec iv_len ciphertext ciphertext_len plaintext_out plaintext_out_len h =
     (case (key, vec, ciphertext, plaintext_out, plaintext_out_len) of
        (Some k, Some v, Some ct, Some out, Some _) \<Rightarrow>
          if key_len \<noteq> FOTA_AES_KEY_SIZE \<or> iv_len \<noteq> FOTA_AES_IV_SIZE
             \<or> ciphertext_len = 0 \<or> ciphertext_len > INT32_MAX
          then Some ((FOTA_CRYPTO_ERR_INVALID_ARG, plaintext_out, plaintext_out_len), h)
          else (case EVP_CIPHER_CTX_new C of
             None \<Rightarrow> Some ((FOTA_CRYPTO_ERR_DECRYPT_FAILED, plaintext_out, plaintext_out_len), h)
           | Some ctx \<Rightarrow>
               let (ctx_p, h1) = acquire Cipher_ctx h in do {
                 r \<leftarrow> decrypt_in_ctx C ctx k v ct ciphertext_len out plaintext_out_len;
                 h2 \<leftarrow> release Cipher_ctx ctx_p h1;
                 Some (r, h2)
               })
      | _ \<Rightarrow> Some ((FOTA_CRYPTO_ERR_INVALID_ARG, plaintext_out, plaintext_out_len), h))"

lemma verify_signature_h_ends:
  assumes "fota_verify_signature C key data len sig n = Some r" and "wf_heap h"
  shows "ends (fota_verify_signature_h C key data len sig n h) r (live h)"
proof (rule handle_bracket [OF assms(2), of Md_ctx])
  fix p h1 h2
  assume "acquire Md_ctx h = (p, h1)" "release Md_ctx p h1 = Some h2" "wf_heap h2" "live h2 = live h"
  then show ?thesis using assms
    by (auto simp: fota_verify_signature_def fota_verify_signature_h_def Let_def
        split: option.splits prod.splits Option.bind_split_asm if_split_asm)
qed

lemma decrypt_in_ctx_Some:
  assumes "fota_decrypt_payload C (Some k) kl (Some v) vl (Some ct) n (Some out) (Some l) = Some r"
    and "kl = FOTA_AES_KEY_SIZE \<and> vl = FOTA_AES_IV_SIZE \<and> n \<noteq> 0 \<and> n \<le> INT32_MAX"
    and "EVP_CIPHER_CTX_new C = Some ctx"
  shows "decrypt_in_ctx C ctx k v ct n out (Some l) = Some r"
  using assms by (simp add: fota_decrypt_payload_def decrypt_in_ctx_def)

lemma decrypt_payload_h_ends:
  assumes "fota_decrypt_payload C key kl v vl ct n out out_len = Some r" and "wf_heap h"
  shows "ends (fota_decrypt_payload_h C key kl v vl ct n out out_len h) r (live h)"
proof (cases "\<exists>k v' c o' l ctx. key = Some k \<and> v = Some v' \<and> ct = Some c \<and> out = Some o' \<and> out_len = Some l \<and>
    EVP_CIPHER_CTX_new C = Some ctx \<and> kl = FOTA_AES_KEY_SIZE \<and> vl = FOTA_AES_IV_SIZE \<and> n \<noteq> 0 \<and> n \<le> INT32_MAX")
  case False
  then show ?thesis using assms
    by (auto simp: fota_decrypt_payload_def fota_decrypt_payload_h_def split: option.splits if_split_asm)
next
  case True
  then obtain k v' c o' l ctx where args: "key = Some k" "v = Some v'" "ct = Some c" "out = Some o'" "out_len = Some l"
      and ctx: "EVP_CIPHER_CTX_new C = Some ctx"
      and ok: "kl = FOTA_AES_KEY_SIZE \<and> vl = FOTA_AES_IV_SIZE \<and> n \<noteq> 0 \<and> n \<le> INT32_MAX" by blast
  note val = decrypt_in_ctx_Some [OF assms(1) [unfolded args] ok ctx]
  show ?thesis
  proof (rule handle_bracket [OF assms(2), of Cipher_ctx])
    fix p h1 h2
    assume "acquire Cipher_ctx h = (p, h1)" "release Cipher_ctx p h1 = Some h2" "wf_heap h2" "live h2 = live h"
    then show ?thesis using args ctx ok val by (simp add: fota_decrypt_payload_h_def)
  qed
qed

subsection \<open>The version file and the override hash\<close>

definition fota_version_read_installed_h ::
    "world \<Rightarrow> u8 list option \<Rightarrow> heap \<Rightarrow> ((fota_version_read_result \<times> fota_version) \<times> heap) option"
where
  "fota_version_read_installed_h w path h =
     (let out = Fota_version 0 0 0 0 in
      case path of
        None \<Rightarrow> Some ((FOTA_VERSION_READ_OK, out), h)
      | Some p \<Rightarrow>
          (case fopen_rb w p of
             None \<Rightarrow> Some ((FOTA_VERSION_READ_OK, out), h)
           | Some fp \<Rightarrow>
               let (fd, h1) = acquire Open_file h;
                   (buf, fp1) = fread FOTA_VERSION_READ_BUF_SIZE fp;
                   n = length buf;
                   has_more = (n = FOTA_VERSION_READ_BUF_SIZE \<and> length (fst (fread 1 fp1)) = 1)
               in do {
                 h2 \<leftarrow> release Open_file fd h1;
                 if has_more then Some ((FOTA_VERSION_READ_ERR_MALFORMED_CONTENTS, out), h2)
                 else do {
                   n' \<leftarrow> trim_trailing buf n;
                   if n' = 0 then Some ((FOTA_VERSION_READ_OK, out), h2)
                   else do {
                     (r, parsed) \<leftarrow> fota_version_parse (Some buf) n' (Some out);
                     (case (r, parsed) of
                        (FOTA_VERSION_PARSE_OK, Some v) \<Rightarrow> Some ((FOTA_VERSION_READ_OK, v), h2)
                      | _ \<Rightarrow> Some ((FOTA_VERSION_READ_ERR_MALFORMED_CONTENTS, out), h2))
                   }
                 }
               }))"

definition fota_version_write_installed_h ::
    "u8 list option \<Rightarrow> fota_version option \<Rightarrow> world \<Rightarrow> heap \<Rightarrow> ((int \<times> world) \<times> heap) option"
where
  "fota_version_write_installed_h path version w h =
     (case (path, version) of
        (Some p, Some v) \<Rightarrow>
          let text = version_text v; written = length text in
          if written \<ge> 64 then Some ((-1, w), h)
          else (case fopen_wb w p of
             None \<Rightarrow> Some ((-1, w), h)
           | Some (l, w1) \<Rightarrow>
               let (fd, h1) = acquire Open_file h;
                   (written_bytes, w2) = fwrite text l w1;
                   close_ok = fclose_ok w2 l
               in do {
                 h2 \<leftarrow> release Open_file fd h1;
                 Some ((if written_bytes \<noteq> written \<or> \<not> close_ok then -1 else 0, w2), h2)
               })
      | _ \<Rightarrow> Some ((-1, w), h))"

definition fota_version_read_downgrade_secret_hash_h ::
    "world \<Rightarrow> u8 list option \<Rightarrow> u8 list option \<Rightarrow> heap \<Rightarrow>
     ((fota_secret_hash_read_result \<times> u8 list option) \<times> heap) option"
where
  "fota_version_read_downgrade_secret_hash_h w path out_hash h =
     (case (path, out_hash) of
        (Some p, Some out) \<Rightarrow>
          (case fopen_rb w p of
             None \<Rightarrow> Some ((FOTA_SECRET_HASH_READ_ERR_UNAVAILABLE, out_hash), h)
           | Some fp \<Rightarrow>
               let (fd, h1) = acquire Open_file h;
                   (bytes, fp1) = fread FOTA_DOWNGRADE_SECRET_HASH_SIZE fp
               in do {
                 out' \<leftarrow> wr_slice out 0 bytes;
                 let (extra, _) = fread 1 fp1;
                 h2 \<leftarrow> release Open_file fd h1;
                 Some (if length bytes \<noteq> FOTA_DOWNGRADE_SECRET_HASH_SIZE \<or> length extra \<noteq> 0
                       then (FOTA_SECRET_HASH_READ_ERR_UNAVAILABLE, Some out')
                       else (FOTA_SECRET_HASH_READ_OK, Some out'), h2)
               })
      | _ \<Rightarrow> Some ((FOTA_SECRET_HASH_READ_ERR_UNAVAILABLE, out_hash), h))"

lemma read_installed_h_ends:
  assumes "fota_version_read_installed w path = Some r" and "wf_heap h"
  shows "ends (fota_version_read_installed_h w path h) r (live h)"
proof (rule handle_bracket [OF assms(2), of Open_file])
  fix fd h1 h2
  assume "acquire Open_file h = (fd, h1)" "release Open_file fd h1 = Some h2" "wf_heap h2" "live h2 = live h"
  then show ?thesis using assms
    by (auto simp: fota_version_read_installed_def fota_version_read_installed_h_def Let_def
        split: option.splits prod.splits Option.bind_split_asm if_split_asm fota_version_parse_result.splits)
qed

lemma write_installed_h_ends:
  assumes "wf_heap h"
  shows "ends (fota_version_write_installed_h path v w h) (fota_version_write_installed path v w) (live h)"
proof (rule handle_bracket [OF assms, of Open_file])
  fix fd h1 h2
  assume "acquire Open_file h = (fd, h1)" "release Open_file fd h1 = Some h2" "wf_heap h2" "live h2 = live h"
  then show ?thesis using assms
    by (auto simp: fota_version_write_installed_def fota_version_write_installed_h_def put_file_def Let_def
        split: option.splits prod.splits)
qed

lemma read_secret_hash_h_ends:
  assumes "fota_version_read_downgrade_secret_hash w path out = Some r" and "wf_heap h"
  shows "ends (fota_version_read_downgrade_secret_hash_h w path out h) r (live h)"
proof (rule handle_bracket [OF assms(2), of Open_file])
  fix fd h1 h2
  assume "acquire Open_file h = (fd, h1)" "release Open_file fd h1 = Some h2" "wf_heap h2" "live h2 = live h"
  then show ?thesis using assms
    by (auto simp: fota_version_read_downgrade_secret_hash_def fota_version_read_downgrade_secret_hash_h_def Let_def
        split: option.splits prod.splits Option.bind_split_asm if_split_asm)
qed

end
