(* ===== verification/Fota_Heap_Gunzip.thy ===== *)
theory Fota_Heap_Gunzip
  imports Fota_Heap Fota_Gunzip
begin

section \<open>fota_gunzip with its buffer and its stream\<close>

text \<open>
  \<open>fota_gunzip\<close> holds two things: the output buffer, which grows by \<open>realloc\<close>, and the state that \<open>inflateInit2\<close>
  sets up and \<open>inflateEnd\<close> tears down.  On success the caller gets the buffer; on every error nothing is left.
  \<open>gz_p\<close> is the block of the caller that \<open>gz_data\<close> points into.
\<close>

text \<open>\<open>free (buf); inflateEnd (&strm); return e;\<close>\<close>

definition gunzip_abort ::
    "fota_install_result \<Rightarrow> nat \<Rightarrow> nat \<Rightarrow> heap \<Rightarrow> ((fota_install_result + 'a) \<times> heap) option" where
  "gunzip_abort e buf_p strm h = do {
     h1 \<leftarrow> free (Some buf_p) h;
     h2 \<leftarrow> release Inflate_state strm h1;
     Some (Inl e, h2)
   }"

definition gunzip_grow_h ::
    "allocator \<Rightarrow> nat \<Rightarrow> nat \<Rightarrow> nat \<Rightarrow> nat \<Rightarrow> nat \<Rightarrow> heap \<Rightarrow> ((fota_install_result + nat \<times> nat) \<times> heap) option"
where
  "gunzip_grow_h alloc max_output_size filled capacity buf_p strm h =
     (if filled = capacity then
        if capacity \<ge> max_output_size then gunzip_abort FOTA_INSTALL_ERR_DECOMPRESSED_TOO_LARGE buf_p strm h
        else let new_capacity = capacity * 2;
                 new_capacity = (if new_capacity > max_output_size then max_output_size else new_capacity)
             in do {
               (bigger, h1) \<leftarrow> realloc alloc Site_gunzip (Some buf_p) new_capacity h;
               (case bigger of
                  None \<Rightarrow> gunzip_abort FOTA_INSTALL_ERR_DECOMPRESS_FAILED buf_p strm h1
                | Some p \<Rightarrow> Some (Inr (new_capacity, p), h1))
             }
      else Some (Inr (capacity, buf_p), h))"

partial_function (option) gunzip_loop_h ::
    "'z zlib \<Rightarrow> allocator \<Rightarrow> nat \<Rightarrow> 'z \<Rightarrow> u8 list \<Rightarrow> nat \<Rightarrow> u8 list \<Rightarrow> nat \<Rightarrow> nat \<Rightarrow> nat \<Rightarrow> heap \<Rightarrow>
     ((fota_install_result + u8 list \<times> nat) \<times> heap) option"
where
  "gunzip_loop_h Z alloc max_output_size st inp gz_p buf capacity buf_p strm h =
     Option.bind (gunzip_grow_h alloc max_output_size (length buf) capacity buf_p strm h) (\<lambda>(g, h1).
       (case g of
          Inl e \<Rightarrow> Some (Inl e, h1)
        | Inr (capacity', buf_p') \<Rightarrow> do {
            _ \<leftarrow> access gz_p h1;
            _ \<leftarrow> access buf_p' h1;
            Option.bind (gunzip_inflate Z st inp buf capacity') (\<lambda>(zret, inp', buf', avail_out', st').
              if zret \<noteq> Z_OK \<and> zret \<noteq> Z_STREAM_END
              then gunzip_abort FOTA_INSTALL_ERR_DECOMPRESS_FAILED buf_p' strm h1
              else if zret = Z_OK \<and> inp' = [] \<and> avail_out' > 0
              then gunzip_abort FOTA_INSTALL_ERR_DECOMPRESS_FAILED buf_p' strm h1
              else if zret = Z_STREAM_END then do {
                h2 \<leftarrow> release Inflate_state strm h1;
                Some (Inr (buf', buf_p'), h2)
              }
              else gunzip_loop_h Z alloc max_output_size st' inp' gz_p buf' capacity' buf_p' strm h1)
          }))"

definition fota_gunzip_h ::
    "'z zlib \<Rightarrow> allocator \<Rightarrow> u8 list option \<Rightarrow> nat \<Rightarrow> nat \<Rightarrow> nat \<Rightarrow> bool \<Rightarrow> heap \<Rightarrow>
     ((fota_install_result + u8 list \<times> nat) \<times> heap) option"
where
  "fota_gunzip_h Z alloc gz_data gz_p gz_len max_output_size out_ok h =
     (case gz_data of
        None \<Rightarrow> Some (Inl FOTA_INSTALL_ERR_INVALID_ARG, h)
      | Some gz \<Rightarrow>
          if \<not> out_ok \<or> gz_len = 0 \<or> max_output_size = 0 then Some (Inl FOTA_INSTALL_ERR_INVALID_ARG, h)
          else let (r, st) = inflateInit2 Z (16 + MAX_WBITS) in
            if r \<noteq> Z_OK then Some (Inl FOTA_INSTALL_ERR_DECOMPRESS_FAILED, h)
            else let (strm, h1) = acquire Inflate_state h in do {
              inp \<leftarrow> rd_slice gz 0 (unat (of_nat gz_len :: u32));
              let capacity = (if FOTA_GUNZIP_CHUNK < max_output_size then FOTA_GUNZIP_CHUNK
                              else max_output_size);
              (case malloc alloc Site_gunzip capacity h1 of
                 (None, h2) \<Rightarrow> do {
                   h3 \<leftarrow> release Inflate_state strm h2;
                   Some (Inl FOTA_INSTALL_ERR_DECOMPRESS_FAILED, h3)
                 }
               | (Some buf_p, h2) \<Rightarrow> gunzip_loop_h Z alloc max_output_size st inp gz_p [] capacity buf_p strm h2)
            })"

subsection \<open>What it returns and what it holds\<close>

text \<open>The result \<open>r\<close> of the plain model together with the ownership of the buffer.\<close>

definition hands_out ::
    "((fota_install_result + u8 list \<times> nat) \<times> heap) option \<Rightarrow> fota_install_result + u8 list \<Rightarrow> holding \<Rightarrow> bool"
where
  "hands_out m r F \<longleftrightarrow>
     (case r of
        Inl e \<Rightarrow> ends m (Inl e) F
      | Inr out \<Rightarrow> \<exists>p. F p = None \<and> ends m (Inr (out, p)) (F(p \<mapsto> Block Site_gunzip)))"

lemma ends_gunzip_abort:
  assumes "wf_heap h" and "live h = F(strm \<mapsto> Inflate_state, buf_p \<mapsto> Block Site_gunzip)"
    and "F strm = None" and "F buf_p = None" and "strm \<noteq> buf_p"
  shows "ends (gunzip_abort e buf_p strm h) (Inl e) F"
  unfolding gunzip_abort_def
  by (rule leaves_bind [OF leaves_free_Some [OF assms(1,2)]], use assms in simp)
     (rule leaves_bind [OF leaves_release [where F = F]], use assms in auto)

lemma gunzip_grow_h_cases:
  assumes "wf_heap h" and "live h = F(strm \<mapsto> Inflate_state, buf_p \<mapsto> Block Site_gunzip)"
    and "F strm = None" and "F buf_p = None" and "strm \<noteq> buf_p"
  obtains
    (stop) e where "gunzip_grow alloc m filled cap = Inl e"
      "ends (gunzip_grow_h alloc m filled cap buf_p strm h) (Inl e) F"
  | (go) cap' p where "gunzip_grow alloc m filled cap = Inr cap'" "F p = None" "strm \<noteq> p"
      "ends (gunzip_grow_h alloc m filled cap buf_p strm h) (Inr (cap', p))
         (F(strm \<mapsto> Inflate_state, p \<mapsto> Block Site_gunzip))"
proof -
  let ?n = "if cap * 2 > m then m else cap * 2"
  have owned: "live h = gain (Some buf_p) (Block Site_gunzip) (F(strm \<mapsto> Inflate_state))"
    "fresh (Some buf_p) (F(strm \<mapsto> Inflate_state))"
    using assms by simp_all
  consider "filled \<noteq> cap" | "filled = cap" "m \<le> cap" | "filled = cap" "cap < m" "\<not> alloc Site_gunzip ?n"
    | "filled = cap" "cap < m" "alloc Site_gunzip ?n" by linarith
  then show thesis
  proof cases
    case 1
    then show thesis using go [of cap buf_p] assms by (simp add: gunzip_grow_def gunzip_grow_h_def)
  next
    case 2
    then show thesis using stop by (simp add: gunzip_grow_def gunzip_grow_h_def ends_gunzip_abort [OF assms])
  next
    case 3
    then show thesis
      using stop realloc_refused [where alloc = alloc, OF assms(1) owned 3(3)]
      by (simp add: gunzip_grow_def gunzip_grow_h_def Let_def ends_gunzip_abort [OF assms])
  next
    case 4
    show thesis
    proof (rule realloc_granted [where alloc = alloc, OF assms(1) owned 4(3)])
      fix q h'
      assume "realloc alloc Site_gunzip (Some buf_p) ?n h = Some (Some q, h')" "wf_heap h'"
        "(F(strm \<mapsto> Inflate_state)) q = None"
        "live h' = F(strm \<mapsto> Inflate_state, q \<mapsto> Block Site_gunzip)"
      then show thesis using 4 go [of ?n q]
        by (simp add: gunzip_grow_def gunzip_grow_h_def Let_def split: if_split_asm)
    qed
  qed
qed

lemma gunzip_loop_h_hands_out:
  assumes "gunzip_loop Z alloc m st inp buf cap = Some r"
    and "wf_heap h" and "live h = F(strm \<mapsto> Inflate_state, buf_p \<mapsto> Block Site_gunzip)"
    and "F strm = None" and "F buf_p = None" and "strm \<noteq> buf_p" and "is_block (F gz_p)"
  shows "hands_out (gunzip_loop_h Z alloc m st inp gz_p buf cap buf_p strm h) r F"
proof (rule gunzip_loop.raw_induct [where P = "\<lambda>Z alloc m st inp buf cap r. \<forall>buf_p h.
      wf_heap h \<longrightarrow> live h = F(strm \<mapsto> Inflate_state, buf_p \<mapsto> Block Site_gunzip) \<longrightarrow> F buf_p = None \<longrightarrow>
      strm \<noteq> buf_p \<longrightarrow> hands_out (gunzip_loop_h Z alloc m st inp gz_p buf cap buf_p strm h) r F",
      OF _ assms(1), rule_format, OF _ assms(2,3,5,6)])
  fix loop :: "'a zlib \<Rightarrow> allocator \<Rightarrow> nat \<Rightarrow> 'a \<Rightarrow> u8 list \<Rightarrow> u8 list \<Rightarrow> nat \<Rightarrow> (fota_install_result + u8 list) option"
  fix Z :: "'a zlib" and alloc m st inp buf cap r buf_p h
  assume IH: "\<And>Z alloc m st inp buf cap r buf_p h. loop Z alloc m st inp buf cap = Some r \<Longrightarrow> wf_heap h \<Longrightarrow>
      live h = F(strm \<mapsto> Inflate_state, buf_p \<mapsto> Block Site_gunzip) \<Longrightarrow> F buf_p = None \<Longrightarrow> strm \<noteq> buf_p \<Longrightarrow>
      hands_out (gunzip_loop_h Z alloc m st inp gz_p buf cap buf_p strm h) r F"
    and eq: "(case gunzip_grow alloc m (length buf) cap of
        Inl e \<Rightarrow> Some (Inl e)
      | Inr cap' \<Rightarrow>
          Option.bind (gunzip_inflate Z st inp buf cap') (\<lambda>(zret, inp', buf', left, st').
            if zret \<noteq> Z_OK \<and> zret \<noteq> Z_STREAM_END then Some (Inl FOTA_INSTALL_ERR_DECOMPRESS_FAILED)
            else if zret = Z_OK \<and> inp' = [] \<and> left > 0
            then Some (Inl FOTA_INSTALL_ERR_DECOMPRESS_FAILED)
            else if zret = Z_STREAM_END then Some (Inr buf')
            else loop Z alloc m st' inp' buf' cap')) = Some r"
    and held: "wf_heap h" "live h = F(strm \<mapsto> Inflate_state, buf_p \<mapsto> Block Site_gunzip)" "F buf_p = None"
      "strm \<noteq> buf_p"
  show "hands_out (gunzip_loop_h Z alloc m st inp gz_p buf cap buf_p strm h) r F"
  proof (rule gunzip_grow_h_cases [of h F strm buf_p alloc m "length buf" cap, OF held(1,2) assms(4) held(3,4)])
    fix e assume "gunzip_grow alloc m (length buf) cap = Inl e"
      "ends (gunzip_grow_h alloc m (length buf) cap buf_p strm h) (Inl e) F"
    then show ?thesis using eq by (auto simp: hands_out_def ends_def gunzip_loop_h.simps)
  next
    fix cap' p
    assume g: "gunzip_grow alloc m (length buf) cap = Inr cap'" "F p = None" "strm \<noteq> p"
      "ends (gunzip_grow_h alloc m (length buf) cap buf_p strm h) (Inr (cap', p))
        (F(strm \<mapsto> Inflate_state, p \<mapsto> Block Site_gunzip))"
    from g(4) obtain h1 where h1: "gunzip_grow_h alloc m (length buf) cap buf_p strm h = Some (Inr (cap', p), h1)"
      "wf_heap h1" "live h1 = F(strm \<mapsto> Inflate_state, p \<mapsto> Block Site_gunzip)" by (rule endsE)
    have acc: "access gz_p h1 = Some ()" "access p h1 = Some ()"
      using h1(3) assms(4,7) g(2) by (auto simp: access_def)
    obtain zret inp' buf' left st'
      where gi: "gunzip_inflate Z st inp buf cap' = Some (zret, inp', buf', left, st')"
      using eq g(1) by (auto split: Option.bind_split_asm)
    note abort = ends_gunzip_abort [OF h1(2,3) assms(4) g(2,3)]
    have "leaves (release Inflate_state strm h1) (F(p \<mapsto> Block Site_gunzip))"
      by (rule leaves_release [OF h1(2)]) (use h1(3) g(2,3) assms(4) in auto)
    then have "\<exists>h2. release Inflate_state strm h1 = Some h2 \<and> wf_heap h2 \<and> live h2 = F(p \<mapsto> Block Site_gunzip)"
      by (simp add: leaves_def)
    moreover have "zret = Z_OK \<Longrightarrow> \<not> (inp' = [] \<and> left > 0) \<Longrightarrow>
        hands_out (gunzip_loop_h Z alloc m st' inp' gz_p buf' cap' p strm h1) r F"
      using eq g(1) gi IH [OF _ h1(2,3) g(2,3)] by (auto simp: z_codes split: if_splits)
    ultimately show ?thesis
      using eq g h1(1) acc gi abort
      by (subst gunzip_loop_h.simps) (auto simp: hands_out_def z_codes split: if_splits)
  qed
qed

lemma gunzip_h_hands_out:
  assumes "fota_gunzip Z alloc gz gz_len m ok = Some r" and "wf_heap h" and "is_block (live h gz_p)"
  shows "hands_out (fota_gunzip_h Z alloc gz gz_p gz_len m ok h) r (live h)"
proof (cases "gz = None \<or> \<not> ok \<or> gz_len = 0 \<or> m = 0 \<or> fst (inflateInit2 Z (16 + MAX_WBITS)) \<noteq> Z_OK")
  case True
  obtain r0 st where i: "inflateInit2 Z (16 + MAX_WBITS) = (r0, st)" by fastforce
  show ?thesis
  proof (cases gz)
    case None
    then show ?thesis using assms(1,2) by (auto simp: fota_gunzip_def fota_gunzip_h_def hands_out_def)
  next
    case (Some d)
    then have "\<exists>e. r = Inl e \<and> fota_gunzip_h Z alloc gz gz_p gz_len m ok h = Some (Inl e, h)"
      using True i assms(1)
      by (cases "\<not> ok \<or> gz_len = 0 \<or> m = 0") (auto simp: fota_gunzip_def fota_gunzip_h_def)
    then show ?thesis using assms(2) by (auto simp: hands_out_def)
  qed
next
  case False
  then obtain d st where d: "gz = Some d" "inflateInit2 Z (16 + MAX_WBITS) = (Z_OK, st)"
    by (cases "inflateInit2 Z (16 + MAX_WBITS)") auto
  let ?cap = "if FOTA_GUNZIP_CHUNK < m then FOTA_GUNZIP_CHUNK else m"
  obtain inp where inp: "rd_slice d 0 (unat (of_nat gz_len :: u32)) = Some inp"
    using assms(1) False d by (auto simp: fota_gunzip_def split: Option.bind_split_asm)
  obtain strm h1 where a: "acquire Inflate_state h = (strm, h1)" "wf_heap h1" "live h strm = None"
      "live h1 = (live h)(strm \<mapsto> Inflate_state)"
    by (rule acquire_fresh [OF assms(2)])
  show ?thesis
  proof (cases "alloc Site_gunzip ?cap")
    case no: False
    have "leaves (release Inflate_state strm h1) (live h)" by (rule leaves_release [OF a(2,4,3)])
    then show ?thesis using assms(1) False d inp a no
      by (auto simp: fota_gunzip_def fota_gunzip_h_def hands_out_def malloc_refused Let_def leaves_def)
  next
    case True
    obtain p h2 where p: "malloc alloc Site_gunzip ?cap h1 = (Some p, h2)" "wf_heap h2" "live h1 p = None"
        "live h2 = (live h1)(p \<mapsto> Block Site_gunzip)"
      by (rule malloc_granted [where alloc = alloc, OF a(2) True])
    have loop: "gunzip_loop Z alloc m st inp [] ?cap = Some r"
      using assms(1) False d inp True by (simp add: fota_gunzip_def Let_def)
    have "hands_out (gunzip_loop_h Z alloc m st inp gz_p [] ?cap p strm h2) r (live h)"
      by (rule gunzip_loop_h_hands_out [OF loop p(2)]) (use a p assms(3) in \<open>auto split: if_split_asm\<close>)
    then show ?thesis using False d inp a p by (simp add: fota_gunzip_h_def Let_def)
  qed
qed

end
