(* ===== verification/Fota_Heap_Tar.thy ===== *)
theory Fota_Heap_Tar
  imports Fota_Heap_Gunzip Fota_Tar
begin

section \<open>fota_tar_parse with its array of entries\<close>

text \<open>
  \<open>fota_tar_parse\<close> builds \<open>out->entries\<close> with \<open>realloc\<close>; every error path first calls \<open>fota_tar_entries_free\<close>.  The entries
  point into the caller's tar buffer, the block \<open>tar_p\<close>.
\<close>

definition fota_tar_entries_free ::
    "fota_tar_entry owned_array option \<Rightarrow> heap \<Rightarrow> (fota_tar_entry owned_array option \<times> heap) option" where
  "fota_tar_entries_free entries h =
     (case entries of
        None \<Rightarrow> Some (None, h)
      | Some a \<Rightarrow> do { (a1, h1) \<leftarrow> array_free a h; Some (Some a1, h1) })"

text \<open>\<open>fota_tar_entries_free (out); return e;\<close>\<close>

definition tar_reject ::
    "fota_install_result \<Rightarrow> fota_tar_entry owned_array \<Rightarrow> heap \<Rightarrow>
     ((fota_install_result \<times> fota_tar_entry owned_array) \<times> heap) option"
where
  "tar_reject e out h = do {
     (freed, h1) \<leftarrow> fota_tar_entries_free (Some out) h;
     out1 \<leftarrow> freed;
     Some ((e, out1), h1)
   }"

partial_function (option) tar_loop_h ::
    "allocator \<Rightarrow> u8 list \<Rightarrow> nat \<Rightarrow> 's::len word \<Rightarrow> 's word \<Rightarrow> fota_tar_entry owned_array \<Rightarrow> 's word \<Rightarrow> heap \<Rightarrow>
     ((fota_install_result \<times> fota_tar_entry owned_array) \<times> heap) option"
where
  "tar_loop_h alloc tar_data tar_p tar_len offset out capacity h =
     (if offset < tar_len then
        if tar_len - offset < of_nat FOTA_TAR_BLOCK_SIZE then tar_reject FOTA_INSTALL_ERR_MALFORMED_TAR out h
        else do {
          _ \<leftarrow> access tar_p h;
          header \<leftarrow> rd_slice tar_data (unat offset) FOTA_TAR_BLOCK_SIZE;
          end_of_archive \<leftarrow> is_all_zero header FOTA_TAR_BLOCK_SIZE;
          if end_of_archive then Some ((FOTA_INSTALL_OK, out), h)
          else do {
            r \<leftarrow> tar_check_header header;
            (case r of
               Inl e \<Rightarrow> tar_reject e out h
             | Inr (name, entry_type, entry_size) \<Rightarrow>
                 (case tar_extent offset entry_size tar_len of
                    None \<Rightarrow> tar_reject FOTA_INSTALL_ERR_MALFORMED_TAR out h
                  | Some (data_offset, next_offset) \<Rightarrow>
                      Option.bind (array_room alloc Site_tar_entries entries_bytes 16 out capacity h) (\<lambda>((room, out1), h1).
                        (case room of
                           None \<Rightarrow> Some ((FOTA_INSTALL_ERR_IO, out1), h1)
                         | Some capacity' \<Rightarrow> do {
                             _ \<leftarrow> tar_slot capacity' (length (elems out1));
                             tar_loop_h alloc tar_data tar_p tar_len next_offset
                               (out1\<lparr>elems := elems out1 @ [\<lparr>path = name, etype = entry_type,
                                       data_off = unat data_offset, esize = unat entry_size\<rparr>]\<rparr>)
                               capacity' h1
                           }))))
          }
        }
      else tar_reject FOTA_INSTALL_ERR_MALFORMED_TAR out h)"

text \<open>\<open>out\<close> is the caller's struct; only its pointer being NULL matters, since the parser clears it first.\<close>

definition fota_tar_parse_h ::
    "'s::len itself \<Rightarrow> allocator \<Rightarrow> u8 list option \<Rightarrow> nat \<Rightarrow> nat \<Rightarrow> fota_tar_entry owned_array option \<Rightarrow> heap \<Rightarrow>
     ((fota_install_result \<times> fota_tar_entry owned_array option) \<times> heap) option"
where
  "fota_tar_parse_h width alloc tar_data tar_p tar_len out h =
     (case (tar_data, out) of
        (Some d, Some _) \<Rightarrow> do {
          ((r, a), h1) \<leftarrow> tar_loop_h alloc d tar_p (of_nat tar_len :: 's word) 0 empty_array 0 h;
          Some ((r, Some a), h1)
        }
      | _ \<Rightarrow> Some ((FOTA_INSTALL_ERR_INVALID_ARG, out), h))"

subsection \<open>What it returns and what it holds\<close>

text \<open>
  A parser that fills an array: on an error the array is empty and nothing is held, on success the array holds
  the elements and is the only new block, if there is one.
\<close>

definition fills ::
    "alloc_site \<Rightarrow> ((fota_install_result \<times> 'e owned_array) \<times> heap) option \<Rightarrow> fota_install_result + 'e list \<Rightarrow> holding \<Rightarrow> bool"
where
  "fills s m r F \<longleftrightarrow>
     (case r of
        Inl e \<Rightarrow> e \<noteq> FOTA_INSTALL_OK \<and> ends m (e, empty_array) F
      | Inr es \<Rightarrow> \<exists>b. fresh b F \<and> (es \<noteq> [] \<longrightarrow> b \<noteq> None) \<and>
        ends m (FOTA_INSTALL_OK, \<lparr>elems = es, base = b\<rparr>) (gain b (Block s) F))"

lemma ends_entries_free:
  assumes "wf_heap h" and "live h = gain (base a) (Block s) F" and "fresh (base a) F"
  shows "ends (fota_tar_entries_free (Some a) h) (Some empty_array) F"
  unfolding fota_tar_entries_free_def
  using ends_bind [OF ends_array_free [OF assms], where k = "\<lambda>(a1, h1). Some (Some a1, h1)"] by simp

lemma ends_tar_reject:
  assumes "wf_heap h" and "live h = gain (base a) (Block s) F" and "fresh (base a) F"
  shows "ends (tar_reject e a h) (e, empty_array) F"
  unfolding tar_reject_def by (rule ends_bind [OF ends_entries_free [OF assms]]) simp

lemma is_block_gain: "fresh b F \<Longrightarrow> is_block (F p) \<Longrightarrow> is_block (gain b r F p)"
  by (cases b) auto

lemma tar_check_header_error: "tar_check_header header = Some (Inl e) \<Longrightarrow> e \<noteq> FOTA_INSTALL_OK"
  by (auto simp: tar_check_header_def Let_def split: Option.bind_split_asm if_split_asm option.split_asm)

lemma tar_loop_h_fills:
  assumes "tar_loop alloc d len off es cap = Some r"
    and "wf_heap h" and "live h = gain b (Block Site_tar_entries) F" and "fresh b F"
    and "roomy \<lparr>elems = es, base = b\<rparr> cap" and "is_block (F tar_p)"
  shows "fills Site_tar_entries (tar_loop_h alloc d tar_p len off \<lparr>elems = es, base = b\<rparr> cap h) r F"
proof (rule tar_loop.raw_induct [where P = "\<lambda>alloc d len off es cap r. \<forall>b h. wf_heap h \<longrightarrow>
      live h = gain b (Block Site_tar_entries) F \<longrightarrow> fresh b F \<longrightarrow> roomy \<lparr>elems = es, base = b\<rparr> cap \<longrightarrow>
      fills Site_tar_entries (tar_loop_h alloc d tar_p len off \<lparr>elems = es, base = b\<rparr> cap h) r F",
      OF _ assms(1), rule_format, OF _ assms(2-5)])
  fix loop :: "allocator \<Rightarrow> u8 list \<Rightarrow> 'a::len word \<Rightarrow> 'a word \<Rightarrow> fota_tar_entry list \<Rightarrow> 'a word \<Rightarrow>
    (fota_install_result + fota_tar_entry list) option"
  fix alloc d and len off :: "'a word" and es and cap :: "'a word" and r b h
  let ?out = "\<lparr>elems = es, base = b\<rparr> :: fota_tar_entry owned_array"
  assume IH: "\<And>alloc d len off es cap r b h. loop alloc d len off es cap = Some r \<Longrightarrow> wf_heap h \<Longrightarrow>
      live h = gain b (Block Site_tar_entries) F \<Longrightarrow> fresh b F \<Longrightarrow> roomy \<lparr>elems = es, base = b\<rparr> cap \<Longrightarrow>
      fills Site_tar_entries (tar_loop_h alloc d tar_p len off \<lparr>elems = es, base = b\<rparr> cap h) r F"
    and eq: "(if off < len then
        if len - off < of_nat FOTA_TAR_BLOCK_SIZE then Some (Inl FOTA_INSTALL_ERR_MALFORMED_TAR)
        else do {
          header \<leftarrow> rd_slice d (unat off) FOTA_TAR_BLOCK_SIZE;
          end_of_archive \<leftarrow> is_all_zero header FOTA_TAR_BLOCK_SIZE;
          if end_of_archive then Some (Inr es)
          else do {
            r \<leftarrow> tar_check_header header;
            (case r of
               Inl e \<Rightarrow> Some (Inl e)
             | Inr (name, entry_type, entry_size) \<Rightarrow>
                 (case tar_extent off entry_size len of
                    None \<Rightarrow> Some (Inl FOTA_INSTALL_ERR_MALFORMED_TAR)
                  | Some (data_offset, next_offset) \<Rightarrow>
                      (case tar_grow alloc (of_nat (length es)) cap of
                         None \<Rightarrow> Some (Inl FOTA_INSTALL_ERR_IO)
                       | Some capacity' \<Rightarrow> do {
                           _ \<leftarrow> tar_slot capacity' (length es);
                           loop alloc d len next_offset
                             (es @ [\<lparr>path = name, etype = entry_type,
                                     data_off = unat data_offset, esize = unat entry_size\<rparr>])
                             capacity'
                         })))
          }
        }
      else Some (Inl FOTA_INSTALL_ERR_MALFORMED_TAR)) = Some r"
    and held: "wf_heap h" "live h = gain b (Block Site_tar_entries) F" "fresh b F"
      "roomy ?out cap"
  have acc: "access tar_p h = Some ()"
    using held(2) is_block_gain [OF held(3) assms(6)] by (simp add: access_def)
  have rej: "ends (tar_reject e ?out h) (e, empty_array) F" for e
    by (rule ends_tar_reject) (simp_all add: held)
  show "fills Site_tar_entries (tar_loop_h alloc d tar_p len off ?out cap h) r F"
  proof (cases "off < len \<and> \<not> len - off < of_nat FOTA_TAR_BLOCK_SIZE")
    case False
    then show ?thesis using eq rej by (subst tar_loop_h.simps) (auto simp: fills_def split: if_splits)
  next
    case True
    obtain header z where hz: "rd_slice d (unat off) FOTA_TAR_BLOCK_SIZE = Some header"
        "is_all_zero header FOTA_TAR_BLOCK_SIZE = Some z"
      using eq True by (auto split: Option.bind_split_asm)
    show ?thesis
    proof (cases z)
      case True
      then show ?thesis
        using eq \<open>off < len \<and> _\<close> hz acc held by (subst tar_loop_h.simps) (auto simp: fills_def roomy_def)
    next
      case False
      then obtain c :: "fota_install_result + u8 list \<times> fota_tar_entry_type \<times> 'a word"
        where c: "tar_check_header header = Some c"
        using eq True hz by (auto split: Option.bind_split_asm)
      show ?thesis
      proof (cases "\<exists>name ty sz data_offset next. c = Inr (name, ty, sz) \<and> tar_extent off sz len = Some (data_offset, next)")
        case no: False
        then show ?thesis using eq True hz False c acc rej
          by (subst tar_loop_h.simps)
             (auto simp: fills_def dest: tar_check_header_error split: sum.splits option.splits)
      next
        case True
        then obtain name ty sz data_offset nxt where e: "c = Inr (name, ty, sz)" "tar_extent off sz len = Some (data_offset, nxt)"
          by blast
        note step = \<open>off < len \<and> _\<close> hz c e acc \<open>\<not> z\<close>
        have out: "live h = gain (base ?out) (Block Site_tar_entries) F" "fresh (base ?out) F" using held by simp_all
        show ?thesis
        proof (rule array_room_cases [where alloc = alloc and initial = 16 and capacity = cap and bytes = entries_bytes,
                OF held(1) out held(4)])
          assume "of_nat (length (elems ?out)) = cap"
            "\<not> alloc Site_tar_entries (entries_bytes (if cap = 0 then 16 else cap * 2))"
            "ends (array_room alloc Site_tar_entries entries_bytes 16 ?out cap h) (None, empty_array) F"
          then show ?thesis
            using eq step by (subst tar_loop_h.simps) (auto simp: fills_def tar_grow_def ends_def)
        next
          fix b' cap'
          assume cap': "cap' = (if of_nat (length (elems ?out)) = cap then if cap = 0 then 16 else cap * 2 else cap)"
            "of_nat (length (elems ?out)) = cap \<longrightarrow> alloc Site_tar_entries (entries_bytes cap')"
            and room: "ends (array_room alloc Site_tar_entries entries_bytes 16 ?out cap h) (Some cap', ?out\<lparr>base := b'\<rparr>)
              (gain b' (Block Site_tar_entries) F)" and b': "fresh b' F"
            and more: "\<And>e. roomy \<lparr>elems = elems ?out @ [e], base = b'\<rparr> cap'"
          from room obtain h1 where h1: "array_room alloc Site_tar_entries entries_bytes 16 ?out cap h = Some ((Some cap', ?out\<lparr>base := b'\<rparr>), h1)"
            "wf_heap h1" "live h1 = gain b' (Block Site_tar_entries) F" by (rule endsE)
          have grow: "tar_grow alloc (of_nat (length es)) cap = Some cap'" using cap' by (auto simp: tar_grow_def Let_def)
          then have "tar_slot cap' (length es) = Some ()"
            using eq step by (cases "tar_slot cap' (length es)") simp_all
          then show ?thesis using eq step grow h1(1) IH [OF _ h1(2,3) b'] more
            by (subst tar_loop_h.simps) simp
        qed
      qed
    qed
  qed
qed

text \<open>
  \<open>fota_tar_parse_h\<close> returns what \<open>fota_tar_parse\<close> returns, for every width of \<open>size_t\<close>; the caller owns the array exactly
  on success.
\<close>

lemma tar_parse_h_fills:
  assumes "fota_tar_parse TYPE('s::len) alloc (Some d) len True = Some r" and "wf_heap h" and "is_block (live h tar_p)"
  shows "case r of
      Inl e \<Rightarrow> e \<noteq> FOTA_INSTALL_OK \<and>
        ends (fota_tar_parse_h TYPE('s) alloc (Some d) tar_p len (Some out) h) (e, Some empty_array) (live h)
    | Inr es \<Rightarrow> \<exists>b. fresh b (live h) \<and> (es \<noteq> [] \<longrightarrow> b \<noteq> None) \<and>
        ends (fota_tar_parse_h TYPE('s) alloc (Some d) tar_p len (Some out) h)
          (FOTA_INSTALL_OK, Some \<lparr>elems = es, base = b\<rparr>) (gain b (Block Site_tar_entries) (live h))"
proof -
  have "tar_loop alloc d (of_nat len :: 's word) 0 [] 0 = Some r" using assms(1) by (simp add: fota_tar_parse_def)
  then have "fills Site_tar_entries (tar_loop_h alloc d tar_p (of_nat len :: 's word) 0 \<lparr>elems = [], base = None\<rparr> 0 h) r (live h)"
    by (rule tar_loop_h_fills) (simp_all add: assms roomy_def)
  then show ?thesis
    by (auto simp: fills_def ends_def fota_tar_parse_h_def empty_array_def split: sum.splits)
qed

end
