(* ===== verification/Fota_Heap_Manifest.thy ===== *)
theory Fota_Heap_Manifest
  imports Fota_Heap_Tar Fota_Manifest
begin

section \<open>fota_verify_manifest with its list of files and its marks\<close>

text \<open>
  \<open>parse_manifest_files\<close> builds the list of files with \<open>realloc\<close> and frees it on every error behind the opening bracket;
  \<open>fota_verify_manifest\<close> holds that list and the \<open>calloc\<close>ed array \<open>matched\<close>, and gives both back on every path.  The
  manifest and the files are read in the tar buffer \<open>tar_p\<close>, the entries in the caller's array.
\<close>

definition manifest_files_free ::
    "fota_manifest_file owned_array \<Rightarrow> heap \<Rightarrow> (fota_manifest_file owned_array \<times> heap) option" where
  "manifest_files_free files_arr h = array_free files_arr h"

text \<open>\<open>manifest_files_free (out); return e;\<close>\<close>

definition manifest_reject ::
    "fota_install_result \<Rightarrow> fota_manifest_file owned_array \<Rightarrow> heap \<Rightarrow>
     ((fota_install_result \<times> fota_manifest_file owned_array) \<times> heap) option"
where
  "manifest_reject e out h = do { (out1, h1) \<leftarrow> manifest_files_free out h; Some ((e, out1), h1) }"

function manifest_array_h ::
    "allocator \<Rightarrow> u8 list \<Rightarrow> nat \<Rightarrow> nat \<Rightarrow> nat \<Rightarrow> fota_manifest_file owned_array \<Rightarrow> nat \<Rightarrow> heap \<Rightarrow>
     ((fota_install_result \<times> fota_manifest_file owned_array) \<times> heap) option"
where
  "manifest_array_h alloc buf tar_p buf_len pos0 out capacity h = do {
     _ \<leftarrow> access tar_p h;
     pos \<leftarrow> skip_json_whitespace buf buf_len pos0;
     if pos \<ge> buf_len then manifest_reject FOTA_INSTALL_ERR_MANIFEST_PARSE out h
     else do {
       c \<leftarrow> rd buf pos;
       if c = 93 then Some ((FOTA_INSTALL_OK, out), h)
       else if c = 44 then manifest_array_h alloc buf tar_p buf_len (pos + 1) out capacity h
       else if c \<noteq> 123 then manifest_reject FOTA_INSTALL_ERR_MANIFEST_PARSE out h
       else do {
         r \<leftarrow> manifest_object buf buf_len (pos + 1) None None;
         (case r of
            Some (pos', Some mpath, Some msha) \<Rightarrow>
              Option.bind (array_room alloc Site_manifest_files (\<lambda>c. c * sizeof_manifest_file) 8 out capacity h) (\<lambda>((room, out1), h1).
                (case room of
                   None \<Rightarrow> Some ((FOTA_INSTALL_ERR_IO, out1), h1)
                 | Some capacity' \<Rightarrow>
                     manifest_array_h alloc buf tar_p buf_len pos'
                       (out1\<lparr>elems := elems out1 @ [\<lparr>mf_path = mpath, mf_sha256_hex = msha\<rparr>]\<rparr>) capacity' h1))
          | _ \<Rightarrow> manifest_reject FOTA_INSTALL_ERR_MANIFEST_PARSE out h)
       }
     }
   }"
  by pat_completeness auto
termination
  by (relation "measure (\<lambda>(alloc, buf, tar_p, buf_len, pos, out, capacity, h). buf_len - pos)")
     (auto dest!: skip_json_whitespace_advances manifest_object_advances)

declare manifest_array_h.simps [simp del]

definition parse_manifest_files_h ::
    "allocator \<Rightarrow> u8 list \<Rightarrow> nat \<Rightarrow> nat \<Rightarrow> heap \<Rightarrow>
     ((fota_install_result \<times> fota_manifest_file owned_array) \<times> heap) option"
where
  "parse_manifest_files_h alloc buf tar_p buf_len h = do {
     _ \<leftarrow> access tar_p h;
     files_key_pos \<leftarrow> find_files_key buf buf_len 0;
     (case files_key_pos of
        None \<Rightarrow> Some ((FOTA_INSTALL_ERR_MANIFEST_PARSE, empty_array), h)
      | Some k \<Rightarrow> do {
          colon \<leftarrow> expect_char buf buf_len (k + length files_key) 58;
          (case colon of
             None \<Rightarrow> Some ((FOTA_INSTALL_ERR_MANIFEST_PARSE, empty_array), h)
           | Some pos \<Rightarrow> do {
               bracket \<leftarrow> expect_char buf buf_len pos 91;
               (case bracket of
                  None \<Rightarrow> Some ((FOTA_INSTALL_ERR_MANIFEST_PARSE, empty_array), h)
                | Some pos \<Rightarrow> manifest_array_h alloc buf tar_p buf_len pos empty_array 0 h)
             })
        })
   }"

subsection \<open>The match loop and fota_verify_manifest\<close>

text \<open>\<open>free (matched); manifest_files_free (&manifest_files); return e;\<close>\<close>

definition match_reject ::
    "fota_install_result \<Rightarrow> nat \<Rightarrow> fota_manifest_file owned_array \<Rightarrow> heap \<Rightarrow>
     ((fota_install_result + 'a) \<times> heap) option"
where
  "match_reject e matched_p mfs h = do {
     h1 \<leftarrow> free (Some matched_p) h;
     (_, h2) \<leftarrow> manifest_files_free mfs h1;
     Some (Inl e, h2)
   }"

fun match_files_h ::
    "'h openssl \<Rightarrow> u8 list \<Rightarrow> nat \<Rightarrow> fota_tar_entry owned_array \<Rightarrow> fota_manifest_file owned_array \<Rightarrow> nat \<Rightarrow>
     fota_manifest_file list \<Rightarrow> u8 list \<Rightarrow> nat \<Rightarrow> heap \<Rightarrow> ((fota_install_result + u8 list \<times> nat) \<times> heap) option"
where
  "match_files_h C tar tar_p entries mfs matched_p [] matched matched_count h = Some (Inr (matched, matched_count), h)"
| "match_files_h C tar tar_p entries mfs matched_p (mf # todo) matched matched_count h = do {
     _ \<leftarrow> array_access mfs h;
     _ \<leftarrow> array_access entries h;
     (case entry_index (elems entries) (cstr (mf_path mf)) 0 of
        None \<Rightarrow> match_reject FOTA_INSTALL_ERR_MANIFEST_MISMATCH matched_p mfs h
      | Some j \<Rightarrow> do {
          _ \<leftarrow> access tar_p h;
          d \<leftarrow> rd_slice tar (data_off (elems entries ! j)) (esize (elems entries ! j));
          let (rc, digest) = EVP_Digest C d EVP_sha256;
          if rc \<noteq> 1 then match_reject FOTA_INSTALL_ERR_IO matched_p mfs h
          else if EVP_MAX_MD_SIZE < length digest then None
          else do {
            digest_hex \<leftarrow> bytes_to_hex_lower digest (length digest)
                            (replicate (FOTA_MANIFEST_SHA256_HEX_LEN + 1) 0);
            if cstr digest_hex \<noteq> cstr (mf_sha256_hex mf)
            then match_reject FOTA_INSTALL_ERR_MANIFEST_MISMATCH matched_p mfs h
            else do {
              _ \<leftarrow> access matched_p h;
              matched' \<leftarrow> wr_slice matched j [1];
              match_files_h C tar tar_p entries mfs matched_p todo matched' (matched_count + 1) h
            }
          }
        })
   }"

definition fota_verify_manifest_h ::
    "'h openssl \<Rightarrow> allocator \<Rightarrow> u8 list \<Rightarrow> nat \<Rightarrow> fota_tar_entry owned_array option \<Rightarrow> heap \<Rightarrow>
     (fota_install_result \<times> heap) option"
where
  "fota_verify_manifest_h C alloc tar tar_p entries_ptr h =
     (case entries_ptr of
        None \<Rightarrow> Some (FOTA_INSTALL_ERR_INVALID_ARG, h)
      | Some entries \<Rightarrow> do {
          _ \<leftarrow> array_access entries h;
          (case find_entry (elems entries) manifest_name of
             None \<Rightarrow> Some (FOTA_INSTALL_ERR_MANIFEST_MISSING, h)
           | Some manifest_entry \<Rightarrow> do {
               ((r, mfs), h1) \<leftarrow>
                 parse_manifest_files_h alloc (drop (data_off manifest_entry) tar) tar_p (esize manifest_entry) h;
               if r \<noteq> FOTA_INSTALL_OK then Some (r, h1)
               else do {
                 let file_entry_count = count_file_entries (elems entries);
                 let slots = (if length (elems entries) > 0 then length (elems entries) else 1);
                 (case malloc alloc Site_matched slots h1 of
                    (None, h2) \<Rightarrow> do {
                      (_, h3) \<leftarrow> manifest_files_free mfs h2;
                      Some (FOTA_INSTALL_ERR_IO, h3)
                    }
                  | (Some matched_p, h2) \<Rightarrow> do {
                      (m, h3) \<leftarrow> match_files_h C tar tar_p entries mfs matched_p (elems mfs) (replicate slots 0) 0 h2;
                      (case m of
                         Inl e \<Rightarrow> Some (e, h3)
                       | Inr (matched, matched_count) \<Rightarrow> do {
                           (_, h4) \<leftarrow> manifest_files_free mfs h3;
                           h5 \<leftarrow> free (Some matched_p) h4;
                           Some (if matched_count \<noteq> file_entry_count then FOTA_INSTALL_ERR_MANIFEST_MISMATCH
                                 else FOTA_INSTALL_OK, h5)
                         })
                    })
               }
             })
        })"

subsection \<open>What they return and what they hold\<close>

lemma ends_manifest_reject:
  assumes "wf_heap h" and "live h = gain (base a) (Block s) F" and "fresh (base a) F"
  shows "ends (manifest_reject e a h) (e, empty_array) F"
  unfolding manifest_reject_def manifest_files_free_def by (rule ends_bind [OF ends_array_free [OF assms]]) simp

lemma manifest_array_h_fills:
  assumes "manifest_array alloc buf len pos es cap = Some r"
    and "wf_heap h" and "live h = gain b (Block Site_manifest_files) F" and "fresh b F"
    and "roomy \<lparr>elems = es, base = b\<rparr> cap" and "is_block (F tar_p)"
  shows "fills Site_manifest_files (manifest_array_h alloc buf tar_p len pos \<lparr>elems = es, base = b\<rparr> cap h) r F"
  using assms(1-5)
proof (induction "len - pos" arbitrary: pos es cap b h rule: less_induct)
  case less
  let ?out = "\<lparr>elems = es, base = b\<rparr> :: fota_manifest_file owned_array"
  have acc: "access tar_p h = Some ()"
    using less.prems(3) is_block_gain [OF less.prems(4) assms(6)] by (simp add: access_def)
  have rej: "ends (manifest_reject e ?out h) (e, empty_array) F" for e
    by (rule ends_manifest_reject) (simp_all add: less.prems)
  obtain q where q: "skip_json_whitespace buf len pos = Some q"
    using less.prems(1) by (subst (asm) manifest_array.simps) (auto split: Option.bind_split_asm)
  note adv = skip_json_whitespace_advances [OF q]
  show ?case
  proof (cases "q < len")
    case False
    then show ?thesis using less.prems(1) q acc rej
      by (subst (asm) manifest_array.simps, subst manifest_array_h.simps) (auto simp: fills_def)
  next
    case True
    then obtain c where c: "rd buf q = Some c"
      using less.prems(1) q by (subst (asm) manifest_array.simps) (auto split: Option.bind_split_asm)
    consider "c = 93" | "c = 44" | "c \<noteq> 93" "c \<noteq> 44" "c \<noteq> 123" | "c = 123" by blast
    then show ?thesis
    proof cases
      case 1
      then show ?thesis using less.prems q acc True c
        by (subst (asm) manifest_array.simps, subst manifest_array_h.simps) (auto simp: fills_def roomy_def)
    next
      case 2
      have rest: "manifest_array alloc buf len (q + 1) es cap = Some r"
        using less.prems(1) q True c 2 by (subst (asm) manifest_array.simps) simp
      have "len - (q + 1) < len - pos" using adv True by linarith
      from less.hyps [OF this rest less.prems(2-5)] show ?thesis
        using q acc True c 2 by (subst manifest_array_h.simps) simp
    next
      case 3
      then show ?thesis using less.prems(1) q acc True c rej
        by (subst (asm) manifest_array.simps, subst manifest_array_h.simps) (auto simp: fills_def)
    next
      case 4
      then obtain v where v: "manifest_object buf len (q + 1) None None = Some v"
        using less.prems(1) q True c by (subst (asm) manifest_array.simps) (auto split: Option.bind_split_asm)
      note step = q acc True c 4 v
      show ?thesis
      proof (cases "\<exists>p x y. v = Some (p, Some x, Some y)")
        case False
        then show ?thesis using less.prems(1) step rej
          by (subst (asm) manifest_array.simps, subst manifest_array_h.simps)
             (auto simp: fills_def split: option.splits)
      next
        case True
        then obtain p x y where v': "v = Some (p, Some x, Some y)" by blast
        have "len - p < len - pos" using manifest_object_advances v v' adv step(3) by fastforce
        note IH = less.hyps [OF this]
        have out: "live h = gain (base ?out) (Block Site_manifest_files) F" "fresh (base ?out) F"
          using less.prems by simp_all
        show ?thesis
        proof (rule array_room_cases [where alloc = alloc and initial = 8 and capacity = cap and
                bytes = "\<lambda>c. c * sizeof_manifest_file", OF less.prems(2) out less.prems(5)])
          assume "of_nat (length (elems ?out)) = cap"
            "\<not> alloc Site_manifest_files ((if cap = 0 then 8 else cap * 2) * sizeof_manifest_file)"
            "ends (array_room alloc Site_manifest_files (\<lambda>c. c * sizeof_manifest_file) 8 ?out cap h) (None, empty_array) F"
          then show ?thesis using less.prems(1) step v'
            by (subst (asm) manifest_array.simps, subst manifest_array_h.simps)
               (auto simp: fills_def manifest_grow_def ends_def)
        next
          fix b' cap'
          assume cap': "cap' = (if of_nat (length (elems ?out)) = cap then if cap = 0 then 8 else cap * 2 else cap)"
            "of_nat (length (elems ?out)) = cap \<longrightarrow> alloc Site_manifest_files (cap' * sizeof_manifest_file)"
            and room: "ends (array_room alloc Site_manifest_files (\<lambda>c. c * sizeof_manifest_file) 8 ?out cap h) (Some cap', ?out\<lparr>base := b'\<rparr>)
              (gain b' (Block Site_manifest_files) F)" and b': "fresh b' F"
            and more: "\<And>e. roomy \<lparr>elems = elems ?out @ [e], base = b'\<rparr> cap'"
          from room obtain h1
            where h1: "array_room alloc Site_manifest_files (\<lambda>c. c * sizeof_manifest_file) 8 ?out cap h = Some ((Some cap', ?out\<lparr>base := b'\<rparr>), h1)"
              "wf_heap h1" "live h1 = gain b' (Block Site_manifest_files) F" by (rule endsE)
          have "manifest_grow alloc (length es) cap = Some cap'" using cap' by (auto simp: manifest_grow_def Let_def)
          then show ?thesis using less.prems(1) step v' h1(1) IH [OF _ h1(2,3) b'] more
            by (subst (asm) manifest_array.simps, subst manifest_array_h.simps) simp
        qed
      qed
    qed
  qed
qed

lemma parse_manifest_files_h_fills:
  assumes "parse_manifest_files alloc buf len = Some r" and "wf_heap h" and "is_block (live h tar_p)"
  shows "fills Site_manifest_files (parse_manifest_files_h alloc buf tar_p len h) r (live h)"
proof -
  have acc: "access tar_p h = Some ()" using assms(3) by (simp add: access_def)
  have fail: "fills Site_manifest_files (Some ((FOTA_INSTALL_ERR_MANIFEST_PARSE, empty_array), h))
      (Inl FOTA_INSTALL_ERR_MANIFEST_PARSE) (live h)"
    using assms(2) by (simp add: fills_def)
  have arr: "fills Site_manifest_files (manifest_array_h alloc buf tar_p len pos empty_array 0 h) r (live h)"
    if "manifest_array alloc buf len pos [] 0 = Some r" for pos
    using manifest_array_h_fills [OF that assms(2), of None] assms(3) by (simp add: empty_array_def roomy_def)
  show ?thesis
    using assms(1) acc fail arr unfolding parse_manifest_files_def parse_manifest_files_h_def
    by (auto split: Option.bind_split_asm option.split_asm)
qed

lemma ends_match_reject:
  assumes "wf_heap h" and "live h = (gain (base a) (Block s) F)(mp \<mapsto> Block Site_matched)"
    and "fresh (base a) F" and "gain (base a) (Block s) F mp = None"
  shows "ends (match_reject e mp a h) (Inl e) F"
  unfolding match_reject_def manifest_files_free_def
  by (rule leaves_bind [OF leaves_free_Some [OF assms(1,2,4)]], rule ends_bind [OF ends_array_free], assumption+)
     (simp_all add: assms(3))

lemma match_files_h_ends:
  assumes "match_files C tar (elems entries) todo matched n = Some r"
    and "wf_heap h" and "live h = (gain (base mfs) (Block Site_manifest_files) F)(mp \<mapsto> Block Site_matched)"
    and "fresh (base mfs) F" and "gain (base mfs) (Block Site_manifest_files) F mp = None"
    and "is_block (F tar_p)" and "array_access entries h = Some ()" and "todo \<noteq> [] \<Longrightarrow> array_access mfs h = Some ()"
  shows "case r of
      Inl e \<Rightarrow> ends (match_files_h C tar tar_p entries mfs mp todo matched n h) (Inl e) F
    | Inr x \<Rightarrow> match_files_h C tar tar_p entries mfs mp todo matched n h = Some (Inr x, h)"
  using assms(1,8)
proof (induction todo arbitrary: matched n)
  case (Cons mf todo)
  have acc: "array_access entries h = Some ()" "array_access mfs h = Some ()" "access mp h = Some ()"
    using assms(3,7) Cons.prems(2) by (simp_all add: access_def)
  have "is_block ((gain (base mfs) (Block Site_manifest_files) F) tar_p)"
    using is_block_gain [OF assms(4,6)] .
  then have "access tar_p h = Some ()" using assms(3) by (simp add: access_def)
  note acc = acc this
  note rej = ends_match_reject [OF assms(2-5)]
  show ?case
  proof (cases "entry_index (elems entries) (cstr (mf_path mf)) 0")
    case None
    then show ?thesis using Cons.prems(1) acc by (auto simp: rej)
  next
    case (Some j)
    then obtain d where d: "rd_slice tar (data_off (elems entries ! j)) (esize (elems entries ! j)) = Some d"
      using Cons.prems(1) by (auto split: Option.bind_split_asm)
    obtain rc digest where dg: "EVP_Digest C d EVP_sha256 = (rc, digest)" by fastforce
    show ?thesis
    proof (cases "rc \<noteq> 1")
      case True
      then show ?thesis using Cons.prems(1) acc Some d dg by (auto simp: rej)
    next
      case False
      then obtain x where x: "\<not> EVP_MAX_MD_SIZE < length digest"
          "bytes_to_hex_lower digest (length digest) (replicate (FOTA_MANIFEST_SHA256_HEX_LEN + 1) 0) = Some x"
        using Cons.prems(1) Some d dg by (auto split: Option.bind_split_asm if_split_asm)
      show ?thesis
      proof (cases "cstr x = cstr (mf_sha256_hex mf)")
        case neq: False
        then show ?thesis using Cons.prems(1) acc Some d dg False x by (auto simp: rej)
      next
        case True
        then obtain m' where m': "wr_slice matched j [1] = Some m'"
            "match_files C tar (elems entries) todo m' (n + 1) = Some r"
          using Cons.prems(1) Some d dg False x by (auto split: Option.bind_split_asm)
        from Cons.IH [OF m'(2)] Cons.prems(2) show ?thesis
          using acc Some d dg False x True m'(1) by (auto split: sum.splits)
      qed
    qed
  qed
qed auto

text \<open>\<open>fota_verify_manifest_h\<close> returns the same code and gives back everything it took.\<close>

lemma verify_manifest_h_ends:
  assumes "fota_verify_manifest C alloc tar (Some (elems entries)) = Some r"
    and "wf_heap h" and "is_block (live h tar_p)" and "array_access entries h = Some ()"
  shows "ends (fota_verify_manifest_h C alloc tar tar_p (Some entries) h) r (live h)"
proof (cases "find_entry (elems entries) manifest_name")
  case None
  then show ?thesis using assms by (simp add: fota_verify_manifest_def fota_verify_manifest_h_def)
next
  case (Some me)
  let ?buf = "drop (data_off me) tar"
  obtain p where p: "parse_manifest_files alloc ?buf (esize me) = Some p"
    using assms(1) Some by (auto simp: fota_verify_manifest_def split: Option.bind_split_asm)
  note parse = parse_manifest_files_h_fills [OF p assms(2,3)]
  let ?slots = "if length (elems entries) > 0 then length (elems entries) else 1"
  show ?thesis
  proof (cases p)
    case (Inl e)
    with parse obtain h1 where "parse_manifest_files_h alloc ?buf tar_p (esize me) h = Some ((e, empty_array), h1)"
        "wf_heap h1" "live h1 = live h" by (auto simp: fills_def ends_def)
    moreover have "e \<noteq> FOTA_INSTALL_OK" using parse Inl by (simp add: fills_def)
    ultimately show ?thesis
      using assms(1,4) Some p Inl by (simp add: fota_verify_manifest_def fota_verify_manifest_h_def)
  next
    case (Inr mfs)
    with parse obtain b h1
      where h1: "parse_manifest_files_h alloc ?buf tar_p (esize me) h =
          Some ((FOTA_INSTALL_OK, \<lparr>elems = mfs, base = b\<rparr>), h1)"
        "wf_heap h1" "live h1 = gain b (Block Site_manifest_files) (live h)" "fresh b (live h)"
        "mfs \<noteq> [] \<longrightarrow> b \<noteq> None"
      by (auto simp: fills_def ends_def)
    let ?mfs = "\<lparr>elems = mfs, base = b\<rparr> :: fota_manifest_file owned_array"
    note start = Some p Inr h1(1) assms(4)
    show ?thesis
    proof (cases "alloc Site_matched ?slots")
      case False
      have "ends (array_free ?mfs h1) empty_array (live h)"
        by (rule ends_array_free) (simp_all add: h1)
      then show ?thesis using assms(1) start False
        by (auto simp: fota_verify_manifest_def fota_verify_manifest_h_def manifest_files_free_def malloc_refused
            ends_def Let_def)
    next
      case True
      obtain mp h2 where h2: "malloc alloc Site_matched ?slots h1 = (Some mp, h2)" "wf_heap h2" "live h1 mp = None"
          "live h2 = (live h1)(mp \<mapsto> Block Site_matched)"
        by (rule malloc_granted [where alloc = alloc, OF h1(2) True])
      obtain m where m: "match_files C tar (elems entries) mfs (replicate ?slots 0) 0 = Some m"
        and r: "r = (case m of Inl e \<Rightarrow> e | Inr (matched, n) \<Rightarrow>
          if n \<noteq> count_file_entries (elems entries) then FOTA_INSTALL_ERR_MANIFEST_MISMATCH else FOTA_INSTALL_OK)"
        using assms(1) Some p Inr True by (auto simp: fota_verify_manifest_def Let_def split: Option.bind_split_asm)
      have grown: "is_block (live h2 q)" if "is_block (live h q)" for q
        using is_block_gain [OF h1(4) that] h1(3) h2(4) by simp
      have acc: "array_access entries h2 = Some ()" "mfs \<noteq> [] \<Longrightarrow> array_access ?mfs h2 = Some ()"
        using array_access_mono [OF assms(4) grown] h1(3,5) h2(4) by (auto simp: array_access_def access_def)
      have run: "case m of
          Inl e \<Rightarrow> ends (match_files_h C tar tar_p entries ?mfs mp mfs (replicate ?slots 0) 0 h2) (Inl e) (live h)
        | Inr x \<Rightarrow> match_files_h C tar tar_p entries ?mfs mp mfs (replicate ?slots 0) 0 h2 = Some (Inr x, h2)"
        by (rule match_files_h_ends [OF m h2(2)]) (use h1 h2 assms(3) acc in simp_all)
      have settled: "ends (Option.bind (manifest_files_free ?mfs h2) (\<lambda>(_, h4). Option.bind (free (Some mp) h4) (\<lambda>h5. Some (c, h5))))
          c (live h)" for c :: fota_install_result
        unfolding manifest_files_free_def
      proof (rule ends_bind [OF ends_array_free])
        show "live h2 = gain (base ?mfs) (Block Site_manifest_files) ((live h)(mp \<mapsto> Block Site_matched))"
          "fresh (base ?mfs) ((live h)(mp \<mapsto> Block Site_matched))"
          using h1(3,4) h2(3,4) by (cases b; fastforce simp: fun_eq_iff)+
        have "live h mp = None" using h1(3) h2(3) by (cases b) (auto split: if_split_asm)
        then show "ends ((\<lambda>(_, h4). Option.bind (free (Some mp) h4) (\<lambda>h5. Some (c, h5))) (empty_array, h4)) c (live h)"
          if "wf_heap h4" "live h4 = (live h)(mp \<mapsto> Block Site_matched)" for h4
          using leaves_free_Some [OF that] by (auto simp: leaves_def)
      qed (rule h2(2))
      have eq: "fota_verify_manifest_h C alloc tar tar_p (Some entries) h =
          Option.bind (match_files_h C tar tar_p entries ?mfs mp mfs (replicate ?slots 0) 0 h2) (\<lambda>(m, h3).
            (case m of
               Inl e \<Rightarrow> Some (e, h3)
             | Inr (matched, n) \<Rightarrow>
                 Option.bind (manifest_files_free ?mfs h3) (\<lambda>(_, h4). Option.bind (free (Some mp) h4) (\<lambda>h5.
                   Some (if n \<noteq> count_file_entries (elems entries) then FOTA_INSTALL_ERR_MANIFEST_MISMATCH
                         else FOTA_INSTALL_OK, h5)))))"
        using start h2(1) by (simp add: fota_verify_manifest_h_def)
      show ?thesis
      proof (cases m)
        case Inl
        then show ?thesis unfolding eq using run r by (auto simp: ends_def)
      next
        case (Inr x)
        then show ?thesis unfolding eq using run r settled by (cases x) simp
      qed
    qed
  qed
qed

end
