(* ===== verification/Fota_Heap_Installer.thy ===== *)
theory Fota_Heap_Installer
  imports Fota_Heap_Manifest Fota_Installer
begin

section \<open>fota_installer_extract with everything it holds\<close>

text \<open>
  The pipeline holds the tar buffer from \<open>fota_gunzip\<close> and the entries from \<open>fota_tar_parse\<close>, which point into it; both are
  freed on every path, and only behind the last write.  \<open>write_entry_file\<close> holds one open file.
\<close>

definition write_entry_file_h ::
    "u8 list \<Rightarrow> u8 list \<Rightarrow> nat \<Rightarrow> fota_tar_entry \<Rightarrow> world \<Rightarrow> heap \<Rightarrow> ((bool \<times> world) \<times> heap) option" where
  "write_entry_file_h install_dir tar tar_p e w h =
     (case ensure_parent_dirs install_dir (path e) w of
        (ok, w1) \<Rightarrow>
          if \<not> ok then Some ((False, w1), h)
          else (case make_full_path install_dir (path e) of
             None \<Rightarrow> Some ((False, w1), h)
           | Some s \<Rightarrow>
               (case fopen_wb w1 s of
                  None \<Rightarrow> Some ((False, w1), h)
                | Some (l, w2) \<Rightarrow>
                    let (fp, h1) = acquire Open_file h in do {
                      _ \<leftarrow> access tar_p h1;
                      (written_bytes, w3) \<leftarrow>
                        (if esize e > 0 then map_option (\<lambda>d. fwrite d l w2) (rd_slice tar (data_off e) (esize e))
                         else Some (0, w2));
                      let close_ok = fclose_ok w3 l;
                      h2 \<leftarrow> release Open_file fp h1;
                      Some ((written_bytes = esize e \<and> close_ok, w3), h2)
                    })))"

text \<open>\<open>fota_tar_entries_free (&entries); free (tar_data); return r;\<close>\<close>

definition extract_return ::
    "'a \<Rightarrow> fota_tar_entry owned_array \<Rightarrow> nat \<Rightarrow> heap \<Rightarrow> ('a \<times> heap) option" where
  "extract_return r entries tar_p h = do {
     (_, h1) \<leftarrow> fota_tar_entries_free (Some entries) h;
     h2 \<leftarrow> free (Some tar_p) h1;
     Some (r, h2)
   }"

fun install_loop_h ::
    "u8 list \<Rightarrow> u8 list \<Rightarrow> nat \<Rightarrow> fota_tar_entry owned_array \<Rightarrow> fota_tar_entry list \<Rightarrow> world \<Rightarrow> heap \<Rightarrow>
     ((fota_install_result \<times> world) \<times> heap) option"
where
  "install_loop_h install_dir tar tar_p entries [] w h = extract_return (FOTA_INSTALL_OK, w) entries tar_p h"
| "install_loop_h install_dir tar tar_p entries (e # es) w h = do {
     _ \<leftarrow> array_access entries h;
     if etype e \<noteq> FOTA_TAR_ENTRY_FILE then install_loop_h install_dir tar tar_p entries es w h
     else if path e = manifest_name then install_loop_h install_dir tar tar_p entries es w h
     else do {
       ((ok, w1), h1) \<leftarrow> write_entry_file_h install_dir tar tar_p e w h;
       if \<not> ok then extract_return (FOTA_INSTALL_ERR_IO, w1) entries tar_p h1
       else install_loop_h install_dir tar tar_p entries es w1 h1
     }
   }"

definition fota_installer_extract_h ::
    "'s::len itself \<Rightarrow> 'z zlib \<Rightarrow> 'h openssl \<Rightarrow> allocator \<Rightarrow> u8 list option \<Rightarrow> nat \<Rightarrow> nat \<Rightarrow> u8 list option \<Rightarrow>
     world \<Rightarrow> heap \<Rightarrow> ((fota_install_result \<times> world) \<times> heap) option"
where
  "fota_installer_extract_h width Z C alloc tar_gz_data gz_p tar_gz_len install_dir w h =
     (case install_dir of
        None \<Rightarrow> Some ((FOTA_INSTALL_ERR_INVALID_ARG, w), h)
      | Some dir \<Rightarrow>
          if tar_gz_data = None then Some ((FOTA_INSTALL_ERR_INVALID_ARG, w), h)
          else do {
            (g, h1) \<leftarrow>
              fota_gunzip_h Z alloc tar_gz_data gz_p tar_gz_len FOTA_INSTALLER_MAX_DECOMPRESSED_SIZE True h;
            (case g of
               Inl e \<Rightarrow> Some ((e, w), h1)
             | Inr (tar, tar_p) \<Rightarrow> do {
                 ((r, out), h2) \<leftarrow> fota_tar_parse_h TYPE('s) alloc (Some tar) tar_p (length tar) (Some empty_array) h1;
                 entries \<leftarrow> out;
                 if r \<noteq> FOTA_INSTALL_OK then do { h3 \<leftarrow> free (Some tar_p) h2; Some ((r, w), h3) }
                 else do {
                   (v, h3) \<leftarrow> fota_verify_manifest_h C alloc tar tar_p (Some entries) h2;
                   if v \<noteq> FOTA_INSTALL_OK then extract_return (v, w) entries tar_p h3
                   else install_loop_h dir tar tar_p entries (elems entries) (emit Ev_validated w) h3
                 }
               })
          })"

subsection \<open>What it returns and what it holds\<close>

lemma ends_write_entry_file:
  assumes "write_entry_file dir tar e w = Some r" and "wf_heap h" and "is_block (live h tar_p)"
  shows "ends (write_entry_file_h dir tar tar_p e w h) r (live h)"
proof -
  obtain fp h1 where a: "acquire Open_file h = (fp, h1)" "wf_heap h1" "live h fp = None"
      "live h1 = (live h)(fp \<mapsto> Open_file)"
    by (rule acquire_fresh [OF assms(2)])
  have "access tar_p h1 = Some ()" using assms(3) a(3,4) by (auto simp: access_def)
  moreover obtain h2 where "release Open_file fp h1 = Some h2" "wf_heap h2" "live h2 = live h"
    using leaves_release [OF a(2,4,3)] by (auto simp: leaves_def)
  ultimately show ?thesis using assms(1,2) a(1)
    by (auto simp: write_entry_file_def write_entry_file_h_def Let_def
        split: prod.splits option.splits Option.bind_split_asm if_split_asm)
qed

text \<open>The two things held while files are written: the entries and, below them, the tar buffer.\<close>

definition holds_archive :: "fota_tar_entry owned_array \<Rightarrow> nat \<Rightarrow> holding \<Rightarrow> heap \<Rightarrow> bool" where
  "holds_archive entries tar_p F h \<longleftrightarrow> wf_heap h \<and> F tar_p = None \<and>
     fresh (base entries) (F(tar_p \<mapsto> Block Site_gunzip)) \<and> (elems entries \<noteq> [] \<longrightarrow> base entries \<noteq> None) \<and>
     live h = gain (base entries) (Block Site_tar_entries) (F(tar_p \<mapsto> Block Site_gunzip))"

lemma holds_archive_access:
  assumes "holds_archive entries tar_p F h"
  shows "array_access entries h = Some ()" and "is_block (live h tar_p)"
  using assms is_block_gain [of "base entries" "F(tar_p \<mapsto> Block Site_gunzip)" tar_p]
  by (auto simp: holds_archive_def array_access_def)

lemma ends_extract_return:
  assumes "holds_archive entries tar_p F h"
  shows "ends (extract_return r entries tar_p h) r F"
  unfolding extract_return_def
proof (rule ends_bind [OF ends_entries_free [where s = Site_tar_entries and F = "F(tar_p \<mapsto> Block Site_gunzip)"]])
  fix h1 assume "wf_heap h1" "live h1 = F(tar_p \<mapsto> Block Site_gunzip)"
  from leaves_free_Some [OF this]
  show "ends (case (Some empty_array, h1) of (_, h1) \<Rightarrow> Option.bind (free (Some tar_p) h1) (\<lambda>h2. Some (r, h2))) r F"
    using assms by (auto simp: leaves_def holds_archive_def)
qed (use assms in \<open>simp_all add: holds_archive_def\<close>)

lemma install_loop_h_ends:
  assumes "install_loop dir tar es w = Some r" and "holds_archive entries tar_p F h"
  shows "ends (install_loop_h dir tar tar_p entries es w h) r F"
  using assms
proof (induction es arbitrary: w h)
  case Nil
  then show ?case by (auto intro: ends_extract_return)
next
  case (Cons e es)
  note acc = holds_archive_access [OF Cons.prems(2)]
  show ?case
  proof (cases "etype e = FOTA_TAR_ENTRY_FILE \<and> path e \<noteq> manifest_name")
    case False
    then have "install_loop dir tar es w = Some r" using Cons.prems(1) by (auto split: if_split_asm)
    from Cons.IH [OF this Cons.prems(2)] show ?thesis using False acc(1) by auto
  next
    case True
    then obtain ok w1 where wr: "write_entry_file dir tar e w = Some (ok, w1)"
        and rest: "(if \<not> ok then Some (FOTA_INSTALL_ERR_IO, w1) else install_loop dir tar es w1) = Some r"
      using Cons.prems(1) by (auto split: Option.bind_split_asm)
    have "wf_heap h" using Cons.prems(2) by (simp add: holds_archive_def)
    from ends_write_entry_file [OF wr this acc(2)]
    obtain h1 where h1: "write_entry_file_h dir tar tar_p e w h = Some ((ok, w1), h1)" "wf_heap h1" "live h1 = live h"
      by (rule endsE)
    then have held: "holds_archive entries tar_p F h1" using Cons.prems(2) by (simp add: holds_archive_def)
    show ?thesis
      using True acc(1) h1(1) rest ends_extract_return [OF held] Cons.IH [OF _ held] by (auto split: if_split_asm)
  qed
qed

text \<open>\<open>fota_installer_extract_h\<close> returns the same result and device, and holds nothing of its own afterwards.\<close>

lemma extract_h_ends:
  assumes run: "fota_installer_extract TYPE('s::len) Z C alloc gz gz_len dir w = Some r"
    and h: "wf_heap h" "is_block (live h gz_p)"
  shows "ends (fota_installer_extract_h TYPE('s) Z C alloc gz gz_p gz_len dir w h) r (live h)"
proof (cases "dir = None \<or> gz = None")
  case True
  then show ?thesis
    using run h(1) by (cases dir) (auto simp: fota_installer_extract_def fota_installer_extract_h_def)
next
  case False
  then obtain d z where d: "dir = Some d" "gz = Some z" by auto
  obtain g where g: "fota_gunzip Z alloc gz gz_len FOTA_INSTALLER_MAX_DECOMPRESSED_SIZE True = Some g"
    using run d by (auto simp: fota_installer_extract_def split: Option.bind_split_asm)
  note gun = gunzip_h_hands_out [OF g h]
  show ?thesis
  proof (cases g)
    case (Inl e)
    with gun obtain h1
      where "fota_gunzip_h Z alloc gz gz_p gz_len FOTA_INSTALLER_MAX_DECOMPRESSED_SIZE True h = Some (Inl e, h1)"
        "wf_heap h1" "live h1 = live h" by (auto simp: hands_out_def ends_def)
    then show ?thesis using run d g Inl by (simp add: fota_installer_extract_def fota_installer_extract_h_def)
  next
    case (Inr tar)
    with gun obtain tp h1
      where h1: "fota_gunzip_h Z alloc gz gz_p gz_len FOTA_INSTALLER_MAX_DECOMPRESSED_SIZE True h = Some (Inr (tar, tp), h1)"
        "wf_heap h1" "live h1 = (live h)(tp \<mapsto> Block Site_gunzip)" "live h tp = None"
      by (auto simp: hands_out_def ends_def)
    obtain q where q: "fota_tar_parse TYPE('s) alloc (Some tar) (length tar) True = Some q"
      using run d g Inr by (auto simp: fota_installer_extract_def split: Option.bind_split_asm)
    have tp: "is_block (live h1 tp)" using h1(3) by simp
    note parse = tar_parse_h_fills [OF q h1(2) tp, of empty_array]
    note start = d g Inr h1(1) q
    show ?thesis
    proof (cases q)
      case (Inl e)
      with parse obtain h2
        where h2: "fota_tar_parse_h TYPE('s) alloc (Some tar) tp (length tar) (Some empty_array) h1 =
            Some ((e, Some empty_array), h2)" "wf_heap h2" "live h2 = live h1" and e: "e \<noteq> FOTA_INSTALL_OK"
        by (auto simp: ends_def)
      have "leaves (free (Some tp) h2) (live h)"
        by (rule leaves_free_Some [OF h2(2)]) (use h1 h2 in simp_all)
      then show ?thesis using run start Inl h2(1) e
        by (auto simp: fota_installer_extract_def fota_installer_extract_h_def leaves_def)
    next
      case (Inr es)
      with parse obtain b h2
        where h2: "fota_tar_parse_h TYPE('s) alloc (Some tar) tp (length tar) (Some empty_array) h1 =
            Some ((FOTA_INSTALL_OK, Some \<lparr>elems = es, base = b\<rparr>), h2)" "wf_heap h2"
            "live h2 = gain b (Block Site_tar_entries) (live h1)" "fresh b (live h1)" "es \<noteq> [] \<longrightarrow> b \<noteq> None"
        by (auto simp: ends_def)
      let ?es = "\<lparr>elems = es, base = b\<rparr> :: fota_tar_entry owned_array"
      have held: "holds_archive ?es tp (live h) h2" using h1 h2 by (simp add: holds_archive_def)
      obtain v where v: "fota_verify_manifest C alloc tar (Some es) = Some v"
        using run start Inr by (auto simp: fota_installer_extract_def split: Option.bind_split_asm)
      have v': "fota_verify_manifest C alloc tar (Some (elems ?es)) = Some v" using v by simp
      from verify_manifest_h_ends [OF v' h2(2) holds_archive_access(2,1) [OF held]]
      obtain h3 where h3: "fota_verify_manifest_h C alloc tar tp (Some ?es) h2 = Some (v, h3)" "wf_heap h3" "live h3 = live h2"
        by (rule endsE)
      then have held3: "holds_archive ?es tp (live h) h3" using held by (simp add: holds_archive_def)
      show ?thesis
        using run start Inr h2(1) h3(1) v ends_extract_return [OF held3] install_loop_h_ends [OF _ held3]
        by (auto simp: fota_installer_extract_def fota_installer_extract_h_def split: if_split_asm)
    qed
  qed
qed

end
