(* ===== verification/Fota_Heap_Main.thy ===== *)
theory Fota_Heap_Main
  imports Fota_Heap_Crypto Fota_Heap_Installer Fota_Main
begin

section \<open>main with everything it holds\<close>

text \<open>
  \<open>main\<close> holds the package \<open>data\<close> from \<open>read_all\<close> to its end, and for a while each the input file, the two keys, the signed
  bytes and the plaintext.  The stages are those of \<open>Fota_Main\<close>; \<open>data_p\<close> is the block of the package, into which
  wrapped key, signature and ciphertext point.
\<close>

subsection \<open>Reading the input\<close>

function read_all_loop_h ::
    "allocator \<Rightarrow> u8 list \<Rightarrow> nat \<Rightarrow> nat \<Rightarrow> stream \<Rightarrow> heap \<Rightarrow> ((u8 list \<times> nat) option \<times> heap) option"
where
  "read_all_loop_h alloc buf buf_p capacity fp h =
     Option.bind
       (if length buf = capacity then do {
          let new_capacity = capacity * 2;
          (bigger, h1) \<leftarrow> realloc alloc Site_read_all (Some buf_p) new_capacity h;
          (case bigger of
             None \<Rightarrow> do { h2 \<leftarrow> free (Some buf_p) h1; Some (None, h2) }
           | Some p \<Rightarrow> Some (Some (new_capacity, p), h1))
        } else Some (Some (capacity, buf_p), h))
       (\<lambda>(room, h1).
          (case room of
             None \<Rightarrow> Some (None, h1)
           | Some (capacity', buf_p') \<Rightarrow>
               (case fread (capacity' - length buf) fp of
                  (got, fp') \<Rightarrow>
                    if got = [] then
                      (if err_flag fp' then do { h2 \<leftarrow> free (Some buf_p') h1; Some (None, h2) }
                       else Some (Some (buf, buf_p'), h1))
                    else read_all_loop_h alloc (buf @ got) buf_p' capacity' fp' h1)))"
  by pat_completeness auto
termination
  by (relation "measure (\<lambda>(alloc, buf, buf_p, capacity, fp, h). length (avail fp))")
     (auto simp: fread_def neq_Nil_conv)

declare read_all_loop_h.simps [simp del]

definition read_all_h :: "allocator \<Rightarrow> stream \<Rightarrow> heap \<Rightarrow> ((u8 list \<times> nat) option \<times> heap) option" where
  "read_all_h alloc fp h =
     (case malloc alloc Site_read_all 65536 h of
        (None, h1) \<Rightarrow> Some (None, h1)
      | (Some buf_p, h1) \<Rightarrow> read_all_loop_h alloc [] buf_p 65536 fp h1)"

subsection \<open>The stages\<close>

text \<open>\<open>free (data); return code;\<close>\<close>

definition main_return :: "exit_code \<Rightarrow> nat \<Rightarrow> world \<Rightarrow> heap \<Rightarrow> ((exit_code \<times> world) \<times> heap) option" where
  "main_return code data_p w h = do { h1 \<leftarrow> free (Some data_p) h; Some ((code, w), h1) }"

definition main_install_h ::
    "'s::len itself \<Rightarrow> 'z zlib \<Rightarrow> 'h openssl \<Rightarrow> allocator \<Rightarrow> fota_version \<Rightarrow> u8 list option \<Rightarrow> nat \<Rightarrow> nat \<Rightarrow> nat \<Rightarrow>
     world \<Rightarrow> heap \<Rightarrow> ((exit_code \<times> world) \<times> heap) option"
where
  "main_install_h width Z C alloc new_version plaintext plaintext_p plaintext_len data_p w h = do {
     ((install_result, w1), h1) \<leftarrow>
       fota_installer_extract_h width Z C alloc plaintext plaintext_p plaintext_len (Some FOTA_CONFIG_INSTALL_DIR) w h;
     h2 \<leftarrow> free (Some plaintext_p) h1;
     h3 \<leftarrow> free (Some data_p) h2;
     if install_result \<noteq> FOTA_INSTALL_OK then Some ((install_result_to_exit_code install_result, w1), h3)
     else do {
       ((rc, w2), h4) \<leftarrow>
         fota_version_write_installed_h (Some FOTA_CONFIG_VERSION_FILE) (Some new_version) w1 h3;
       if rc \<noteq> 0 then Some ((FOTA_EXIT_GENERIC_FAILURE, w2), h4)
       else Some ((FOTA_EXIT_SUCCESS, platform_post_install_hook w2), h4)
     }
   }"

definition main_decrypt_h ::
    "'s::len itself \<Rightarrow> 'z zlib \<Rightarrow> 'h openssl \<Rightarrow> allocator \<Rightarrow> fota_header \<Rightarrow> fota_version \<Rightarrow> u8 list \<Rightarrow> u8 list \<Rightarrow> nat \<Rightarrow>
     nat \<Rightarrow> world \<Rightarrow> heap \<Rightarrow> ((exit_code \<times> world) \<times> heap) option"
where
  "main_decrypt_h width Z C alloc header new_version wrapped_key ciphertext ciphertext_len data_p w h = do {
     (key, h1) \<leftarrow> fota_load_private_key_h C w (Some FOTA_CONFIG_DEVICE_PRIVATE_KEY_FILE) h;
     (case key of
        None \<Rightarrow> main_return FOTA_EXIT_GENERIC_FAILURE data_p w h1
      | Some (device_private_key, key_p) \<Rightarrow> do {
          _ \<leftarrow> access data_p h1;
          ((unwrap_result, aes_key, aes_key_len), h2) \<leftarrow>
            fota_unwrap_key_h C alloc (Some device_private_key) (Some wrapped_key) (unat (wrapped_key_len header))
              (Some (replicate FOTA_AES_KEY_SIZE 0)) (Some FOTA_AES_KEY_SIZE) h1;
          h3 \<leftarrow> release Pkey key_p h2;
          let w1 = emit (Ev_unwrap (unwrap_result = FOTA_CRYPTO_OK)) w;
          if unwrap_result \<noteq> FOTA_CRYPTO_OK \<or> aes_key_len \<noteq> Some FOTA_AES_KEY_SIZE
          then main_return FOTA_EXIT_DECRYPTION_FAILED data_p w1 h3
          else (case malloc alloc Site_plaintext (ciphertext_len + FOTA_AES_IV_SIZE) h3 of
            (None, h4) \<Rightarrow> main_return FOTA_EXIT_GENERIC_FAILURE data_p w1 h4
          | (Some plaintext_p, h4) \<Rightarrow> do {
              _ \<leftarrow> access data_p h4;
              ((decrypt_result, plaintext, plaintext_len), h5) \<leftarrow>
                fota_decrypt_payload_h C aes_key FOTA_AES_KEY_SIZE (Some (iv header)) FOTA_IV_SIZE
                  (Some ciphertext) ciphertext_len
                  (Some (replicate (ciphertext_len + FOTA_AES_IV_SIZE) 0)) (Some 0) h4;
              let w2 = emit (Ev_decrypt (decrypt_result = FOTA_CRYPTO_OK)) w1;
              if decrypt_result \<noteq> FOTA_CRYPTO_OK then do {
                h6 \<leftarrow> free (Some plaintext_p) h5;
                main_return FOTA_EXIT_DECRYPTION_FAILED data_p w2 h6
              }
              else do {
                n \<leftarrow> plaintext_len;
                main_install_h width Z C alloc new_version plaintext plaintext_p n data_p w2 h5
              }
            })
        })
   }"

definition main_verify_h ::
    "'s::len itself \<Rightarrow> 'z zlib \<Rightarrow> 'h openssl \<Rightarrow> allocator \<Rightarrow> fota_header \<Rightarrow> fota_version \<Rightarrow> u8 list \<Rightarrow> nat \<Rightarrow> nat \<Rightarrow>
     world \<Rightarrow> heap \<Rightarrow> ((exit_code \<times> world) \<times> heap) option"
where
  "main_verify_h width Z C alloc header new_version data data_len data_p w h =
     (let wrapped_key_end = FOTA_HEADER_SIZE + unat (wrapped_key_len header);
          signature_end = wrapped_key_end + 256;
          wrapped_key = drop FOTA_HEADER_SIZE data;
          signature = drop wrapped_key_end data;
          ciphertext = drop signature_end data;
          ciphertext_len = data_len - signature_end
      in do {
        (key, h1) \<leftarrow> fota_load_public_key_h C w (Some FOTA_CONFIG_SIGNING_PUBLIC_KEY_FILE) h;
        (case key of
           None \<Rightarrow> main_return FOTA_EXIT_GENERIC_FAILURE data_p w h1
         | Some (signing_public_key, key_p) \<Rightarrow>
             let signed_data_len = FOTA_HEADER_SIZE + unat (wrapped_key_len header) + ciphertext_len
             in (case malloc alloc Site_signed_data signed_data_len h1 of
                   (None, h2) \<Rightarrow> do {
                     h3 \<leftarrow> release Pkey key_p h2;
                     main_return FOTA_EXIT_GENERIC_FAILURE data_p w h3
                   }
                 | (Some signed_p, h2) \<Rightarrow> do {
                     _ \<leftarrow> access data_p h2;
                     part1 \<leftarrow> rd_slice data 0 FOTA_HEADER_SIZE;
                     part2 \<leftarrow> rd_slice wrapped_key 0 (unat (wrapped_key_len header));
                     part3 \<leftarrow> rd_slice ciphertext 0 ciphertext_len;
                     let signed_data = part1 @ part2 @ part3;
                     (verify_result, h3) \<leftarrow>
                       fota_verify_signature_h C (Some signing_public_key) (Some signed_data) signed_data_len
                         (Some signature) 256 h2;
                     h4 \<leftarrow> free (Some signed_p) h3;
                     h5 \<leftarrow> release Pkey key_p h4;
                     let w1 = emit (Ev_verify (verify_result = FOTA_CRYPTO_OK)) w;
                     if verify_result \<noteq> FOTA_CRYPTO_OK then main_return FOTA_EXIT_SIGNATURE_FAILED data_p w1 h5
                     else main_decrypt_h width Z C alloc header new_version wrapped_key ciphertext ciphertext_len
                            data_p w1 h5
                   }))
      })"

definition main_sections_h ::
    "'s::len itself \<Rightarrow> 'z zlib \<Rightarrow> 'h openssl \<Rightarrow> allocator \<Rightarrow> fota_header \<Rightarrow> fota_version \<Rightarrow> u8 list \<Rightarrow> nat \<Rightarrow> nat \<Rightarrow>
     world \<Rightarrow> heap \<Rightarrow> ((exit_code \<times> world) \<times> heap) option"
where
  "main_sections_h width Z C alloc header new_version data data_len data_p w h =
     (let wrapped_key_end = FOTA_HEADER_SIZE + unat (wrapped_key_len header);
          signature_end = wrapped_key_end + 256
      in if data_len < signature_end then main_return FOTA_EXIT_MALFORMED_HEADER data_p w h
         else let ciphertext_len = data_len - signature_end in
           case statvfs w FOTA_CONFIG_INSTALL_DIR of
             None \<Rightarrow> main_return FOTA_EXIT_GENERIC_FAILURE data_p w h
           | Some (f_bavail, f_frsize) \<Rightarrow>
               if f_bavail * f_frsize < of_nat ciphertext_len
               then main_return FOTA_EXIT_INSUFFICIENT_DISK_SPACE data_p w h
               else main_verify_h width Z C alloc header new_version data data_len data_p w h)"

definition main_version_h ::
    "'s::len itself \<Rightarrow> 'z zlib \<Rightarrow> 'h openssl \<Rightarrow> allocator \<Rightarrow> u8 list option \<Rightarrow> fota_header \<Rightarrow> u8 list \<Rightarrow> nat \<Rightarrow> nat \<Rightarrow>
     world \<Rightarrow> heap \<Rightarrow> ((exit_code \<times> world) \<times> heap) option"
where
  "main_version_h width Z C alloc downgrade_secret header data data_len data_p w h = do {
     (parse_result, parsed) \<leftarrow>
       fota_version_parse (Some (fw_version header)) FOTA_FW_VERSION_SIZE (Some (Fota_version 0 0 0 0));
     (case (parse_result, parsed) of
        (FOTA_VERSION_PARSE_OK, Some new_version) \<Rightarrow> do {
          ((read_result, installed_version), h1) \<leftarrow>
            fota_version_read_installed_h w (Some FOTA_CONFIG_VERSION_FILE) h;
          if read_result \<noteq> FOTA_VERSION_READ_OK then main_return FOTA_EXIT_GENERIC_FAILURE data_p w h1
          else do {
            ((hash_result, stored_secret_hash), h2) \<leftarrow>
              fota_version_read_downgrade_secret_hash_h w (Some FOTA_CONFIG_DOWNGRADE_SECRET_HASH_FILE)
                (Some (replicate FOTA_DOWNGRADE_SECRET_HASH_SIZE 0)) h1;
            let stored_secret_hash_ptr =
              (if hash_result = FOTA_SECRET_HASH_READ_OK then stored_secret_hash else None);
            let secret_len = (case downgrade_secret of None \<Rightarrow> 0 | Some s \<Rightarrow> length s);
            downgrade_result \<leftarrow>
              fota_downgrade_check C new_version installed_version downgrade_secret secret_len
                stored_secret_hash_ptr;
            (case downgrade_result of
               FOTA_DOWNGRADE_CHECK_UP_TO_DATE \<Rightarrow> main_return FOTA_EXIT_UP_TO_DATE data_p w h2
             | FOTA_DOWNGRADE_CHECK_BLOCKED \<Rightarrow> main_return FOTA_EXIT_DOWNGRADE_BLOCKED data_p w h2
             | FOTA_DOWNGRADE_CHECK_ALLOW \<Rightarrow>
                 main_sections_h width Z C alloc header new_version data data_len data_p w h2)
          }
        }
      | _ \<Rightarrow> main_return FOTA_EXIT_MALFORMED_HEADER data_p w h)
   }"

definition main_header_h ::
    "'s::len itself \<Rightarrow> 'z zlib \<Rightarrow> 'h openssl \<Rightarrow> allocator \<Rightarrow> u8 list option \<Rightarrow> u8 list \<Rightarrow> nat \<Rightarrow> nat \<Rightarrow>
     world \<Rightarrow> heap \<Rightarrow> ((exit_code \<times> world) \<times> heap) option"
where
  "main_header_h width Z C alloc downgrade_secret data data_len data_p w h = do {
     _ \<leftarrow> access data_p h;
     (header_result, out) \<leftarrow> fota_header_parse (Some data) data_len (Some blank_header);
     (case (header_result, out) of
        (FOTA_HEADER_OK, Some header) \<Rightarrow> do {
          ok \<leftarrow> platform_tag_matches (platform_tag header);
          if \<not> ok then main_return FOTA_EXIT_PLATFORM_MISMATCH data_p w h
          else main_version_h width Z C alloc downgrade_secret header data data_len data_p w h
        }
      | _ \<Rightarrow> main_return FOTA_EXIT_MALFORMED_HEADER data_p w h)
   }"

text \<open>The input file is closed as soon as it has been read; \<open>stdin\<close> is not \<open>main\<close>'s to close.\<close>

definition main_h ::
    "'s::len itself \<Rightarrow> 'z zlib \<Rightarrow> 'h openssl \<Rightarrow> allocator \<Rightarrow> u8 list list \<Rightarrow> stream \<Rightarrow> world \<Rightarrow> heap \<Rightarrow>
     ((exit_code \<times> world) \<times> heap) option"
where
  "main_h width Z C alloc argv stdin w h =
     (if length argv < 2 then Some ((FOTA_EXIT_GENERIC_FAILURE, w), h)
      else case main_input (argv ! 1) stdin w of
          None \<Rightarrow> Some ((FOTA_EXIT_GENERIC_FAILURE, w), h)
        | Some input_fp \<Rightarrow>
            let input_is_stdin = (argv ! 1 = ascii ''-'');
                (fd, h1) = (if input_is_stdin then (None, h)
                            else (case acquire Open_file h of (p, h1) \<Rightarrow> (Some p, h1)))
            in do {
              (result, h2) \<leftarrow> read_all_h alloc input_fp h1;
              h3 \<leftarrow> (case fd of None \<Rightarrow> Some h2 | Some p \<Rightarrow> release Open_file p h2);
              (case result of
                 None \<Rightarrow> Some ((FOTA_EXIT_GENERIC_FAILURE, w), h3)
               | Some (data, data_p) \<Rightarrow>
                   main_header_h width Z C alloc (downgrade_secret_arg None (drop 2 argv)) data (length data) data_p w h3)
            })"

subsection \<open>What read_all holds\<close>

definition hands_block :: "alloc_site \<Rightarrow> (('a \<times> nat) option \<times> heap) option \<Rightarrow> 'a option \<Rightarrow> holding \<Rightarrow> bool" where
  "hands_block s m r F \<longleftrightarrow>
     (case r of
        None \<Rightarrow> ends m None F
      | Some d \<Rightarrow> \<exists>p. F p = None \<and> ends m (Some (d, p)) (F(p \<mapsto> Block s)))"

lemma read_all_loop_h_hands:
  assumes "wf_heap h" and "live h = F(p \<mapsto> Block Site_read_all)" and "F p = None"
  shows "hands_block Site_read_all (read_all_loop_h alloc buf p cap fp h) (read_all_loop alloc buf cap fp) F"
  using assms
proof (induction alloc buf cap fp arbitrary: p h rule: read_all_loop.induct)
  case (1 alloc buf cap fp)
  let ?n = "cap * 2"
  have owned: "live h = gain (Some p) (Block Site_read_all) F" "fresh (Some p) F"
    using "1.prems" by (simp_all only: gain.simps fresh.simps)
  have drop_it: "leaves (free (Some q) g) F" if "wf_heap g" "live g = F(q \<mapsto> Block Site_read_all)" "F q = None" for q g
    using leaves_free_Some [OF that] .
  have go: "hands_block Site_read_all
      (case fread (cap' - length buf) fp of (got, fp') \<Rightarrow>
         if got = [] then
           (if err_flag fp' then Option.bind (free (Some q) g) (\<lambda>h2. Some (None, h2)) else Some (Some (buf, q), g))
         else read_all_loop_h alloc (buf @ got) q cap' fp' g)
      (case fread (cap' - length buf) fp of (got, fp') \<Rightarrow>
         if got = [] then (if err_flag fp' then None else Some buf) else read_all_loop alloc (buf @ got) cap' fp') F"
    if room: "read_all_grow alloc (length buf) cap = Some cap'"
      and g: "wf_heap g" "live g = F(q \<mapsto> Block Site_read_all)" "F q = None" for cap' q g
  proof -
    obtain got fp' where r: "fread (cap' - length buf) fp = (got, fp')" by fastforce
    show ?thesis
    proof (cases "got = []")
      case True
      then show ?thesis using r g drop_it [OF g] by (auto simp: hands_block_def leaves_def)
    next
      case False
      from "1.IH" [OF room r [symmetric] False g] show ?thesis using r False by simp
    qed
  qed
  consider (keep) "length buf \<noteq> cap" | (no) "length buf = cap" "\<not> alloc Site_read_all ?n"
    | (yes) "length buf = cap" "alloc Site_read_all ?n" by blast
  then show ?case
  proof cases
    case keep
    then have "read_all_grow alloc (length buf) cap = Some cap" by (simp add: read_all_grow_def)
    from go [OF this "1.prems"] this keep show ?thesis
      by (subst read_all_loop_h.simps, subst read_all_loop.simps) simp
  next
    case no
    then have "read_all_grow alloc (length buf) cap = None" by (simp add: read_all_grow_def Let_def)
    moreover note realloc_refused [where alloc = alloc, OF "1.prems"(1) owned no(2)]
    ultimately show ?thesis using no(1) drop_it [OF "1.prems"]
      by (subst read_all_loop_h.simps, subst read_all_loop.simps) (auto simp: hands_block_def leaves_def Let_def)
  next
    case yes
    then have room: "read_all_grow alloc (length buf) cap = Some ?n" by (simp add: read_all_grow_def Let_def)
    show ?thesis
    proof (rule realloc_granted [where alloc = alloc, OF "1.prems"(1) owned yes(2)])
      fix q g assume "realloc alloc Site_read_all (Some p) ?n h = Some (Some q, g)" "wf_heap g" "F q = None"
        "live g = F(q \<mapsto> Block Site_read_all)"
      then show ?thesis using go [OF room, of g q] room yes(1)
        by (subst read_all_loop_h.simps, subst read_all_loop.simps) (simp add: Let_def)
    qed
  qed
qed

lemma read_all_h_hands:
  assumes "wf_heap h"
  shows "hands_block Site_read_all (read_all_h alloc fp h) (read_all alloc fp) (live h)"
proof (cases "alloc Site_read_all 65536")
  case True
  show ?thesis
    by (rule malloc_granted [where alloc = alloc, OF assms True])
       (simp add: read_all_h_def read_all_def True read_all_loop_h_hands)
next
  case False
  then show ?thesis using assms by (simp add: read_all_h_def read_all_def malloc_refused hands_block_def)
qed

subsection \<open>What the stages hold\<close>

definition holds_data :: "nat \<Rightarrow> holding \<Rightarrow> heap \<Rightarrow> bool" where
  "holds_data data_p F h \<longleftrightarrow> wf_heap h \<and> F data_p = None \<and> live h = F(data_p \<mapsto> Block Site_read_all)"

lemma holds_data_access [simp]: "holds_data p F h \<Longrightarrow> access p h = Some ()"
  by (simp add: holds_data_def access_def)

lemma ends_main_return: "holds_data p F h \<Longrightarrow> ends (main_return c p w h) (c, w) F"
  unfolding main_return_def holds_data_def
  by (rule leaves_bind [OF leaves_free_Some [where F = F and s = Site_read_all]]) simp_all

lemma main_install_h_ends:
  assumes "main_install TYPE('s::len) Z C alloc nv pt n w = Some r"
    and "wf_heap h" and "live h = F(dp \<mapsto> Block Site_read_all, pp \<mapsto> Block Site_plaintext)"
    and "F dp = None" and "F pp = None" and "dp \<noteq> pp"
  shows "ends (main_install_h TYPE('s) Z C alloc nv pt pp n dp w h) r F"
proof -
  obtain res w1 where x: "fota_installer_extract TYPE('s) Z C alloc pt n (Some FOTA_CONFIG_INSTALL_DIR) w = Some (res, w1)"
    using assms(1) by (auto simp: main_install_def split: Option.bind_split_asm)
  obtain rc w2 where wr: "fota_version_write_installed (Some FOTA_CONFIG_VERSION_FILE) (Some nv) w1 = (rc, w2)"
    by fastforce
  have pp: "is_block (live h pp)" using assms(3) by simp
  obtain h1 where h1: "fota_installer_extract_h TYPE('s) Z C alloc pt pp n (Some FOTA_CONFIG_INSTALL_DIR) w h =
      Some ((res, w1), h1)" "wf_heap h1" "live h1 = live h"
    by (rule endsE [OF extract_h_ends [OF x assms(2) pp]])
  have "leaves (free (Some pp) h1) (F(dp \<mapsto> Block Site_read_all))"
    by (rule leaves_free_Some [OF h1(2)]) (use h1(3) assms in auto)
  then obtain h2 where h2: "free (Some pp) h1 = Some h2" "wf_heap h2" "live h2 = F(dp \<mapsto> Block Site_read_all)"
    by (auto simp: leaves_def)
  obtain h3 where h3: "free (Some dp) h2 = Some h3" "wf_heap h3" "live h3 = F"
    using leaves_free_Some [OF h2(2,3) assms(4)] by (auto simp: leaves_def)
  obtain h4 where "fota_version_write_installed_h (Some FOTA_CONFIG_VERSION_FILE) (Some nv) w1 h3 = Some ((rc, w2), h4)"
      "wf_heap h4" "live h4 = F"
    using write_installed_h_ends [OF h3(2), of "Some FOTA_CONFIG_VERSION_FILE" "Some nv" w1] wr h3(3)
    by (auto simp: ends_def)
  then show ?thesis using assms(1) x wr h1(1) h2(1) h3
    by (auto simp: main_install_def main_install_h_def)
qed

lemma main_decrypt_h_ends:
  assumes "main_decrypt TYPE('s::len) Z C alloc header nv wk ct n w = Some r" and "holds_data dp F h"
  shows "ends (main_decrypt_h TYPE('s) Z C alloc header nv wk ct n dp w h) r F"
proof -
  let ?L = "F(dp \<mapsto> Block Site_read_all)"
  have h: "wf_heap h" "F dp = None" "live h = ?L" using assms(2) by (simp_all add: holds_data_def)
  note key = load_private_key_h_loads [OF h(1), of C w "Some FOTA_CONFIG_DEVICE_PRIVATE_KEY_FILE"]
  show ?thesis
  proof (cases "fota_load_private_key C w (Some FOTA_CONFIG_DEVICE_PRIVATE_KEY_FILE)")
    case None
    with key obtain h1 where "fota_load_private_key_h C w (Some FOTA_CONFIG_DEVICE_PRIVATE_KEY_FILE) h = Some (None, h1)"
        "holds_data dp F h1" using h by (auto simp: loads_def ends_def holds_data_def)
    then show ?thesis using assms(1) None ends_main_return by (fastforce simp: main_decrypt_def main_decrypt_h_def)
  next
    case (Some k)
    with key obtain kp h1
      where h1: "fota_load_private_key_h C w (Some FOTA_CONFIG_DEVICE_PRIVATE_KEY_FILE) h = Some (Some (k, kp), h1)"
        "wf_heap h1" "live h1 = ?L(kp \<mapsto> Pkey)" "?L kp = None" using h by (auto simp: loads_def ends_def)
    have acc1: "access dp h1 = Some ()" using h1(3,4) by (auto simp: access_def)
    obtain ur ak al where u: "fota_unwrap_key C alloc (Some k) (Some wk) (unat (wrapped_key_len header))
        (Some (replicate FOTA_AES_KEY_SIZE 0)) (Some FOTA_AES_KEY_SIZE) = Some (ur, ak, al)"
      using assms(1) Some by (auto simp: main_decrypt_def split: Option.bind_split_asm)
    obtain h2 where h2: "fota_unwrap_key_h C alloc (Some k) (Some wk) (unat (wrapped_key_len header))
        (Some (replicate FOTA_AES_KEY_SIZE 0)) (Some FOTA_AES_KEY_SIZE) h1 = Some ((ur, ak, al), h2)"
        "wf_heap h2" "live h2 = live h1"
      by (rule endsE [OF unwrap_key_h_ends [OF u h1(2)]])
    obtain h3 where h3: "release Pkey kp h2 = Some h3" "wf_heap h3" "live h3 = ?L"
      using leaves_release [where F = ?L and p = kp, OF h2(2) _ h1(4)] h1(3) h2(3) by (auto simp: leaves_def)
    have held3: "holds_data dp F h3" using h3 h by (simp add: holds_data_def)
    note start = Some u h1(1) acc1 h2(1) h3(1)
    show ?thesis
    proof (cases "ur \<noteq> FOTA_CRYPTO_OK \<or> al \<noteq> Some FOTA_AES_KEY_SIZE")
      case True
      then show ?thesis using assms(1) start ends_main_return [OF held3]
        by (auto simp: main_decrypt_def main_decrypt_h_def Let_def)
    next
      case unwrapped: False
      show ?thesis
      proof (cases "alloc Site_plaintext (n + FOTA_AES_IV_SIZE)")
        case False
        then show ?thesis using assms(1) start unwrapped ends_main_return [OF held3]
          by (auto simp: main_decrypt_def main_decrypt_h_def malloc_refused Let_def)
      next
        case True
        obtain pp h4 where h4: "malloc alloc Site_plaintext (n + FOTA_AES_IV_SIZE) h3 = (Some pp, h4)" "wf_heap h4"
            "live h3 pp = None" "live h4 = (live h3)(pp \<mapsto> Block Site_plaintext)"
          by (rule malloc_granted [where alloc = alloc, OF h3(2) True])
        have ne: "dp \<noteq> pp" "F pp = None" using h4(3) h3(3) by (auto split: if_split_asm)
        have acc4: "access dp h4 = Some ()" using h4(4) h3(3) ne by (auto simp: access_def)
        obtain dr pt pl where d: "fota_decrypt_payload C ak FOTA_AES_KEY_SIZE (Some (iv header)) FOTA_IV_SIZE (Some ct) n
            (Some (replicate (n + FOTA_AES_IV_SIZE) 0)) (Some 0) = Some (dr, pt, pl)"
          using assms(1) start unwrapped True by (auto simp: main_decrypt_def Let_def split: Option.bind_split_asm)
        obtain h5 where h5: "fota_decrypt_payload_h C ak FOTA_AES_KEY_SIZE (Some (iv header)) FOTA_IV_SIZE (Some ct) n
            (Some (replicate (n + FOTA_AES_IV_SIZE) 0)) (Some 0) h4 = Some ((dr, pt, pl), h5)" "wf_heap h5" "live h5 = live h4"
          by (rule endsE [OF decrypt_payload_h_ends [OF d h4(2)]])
        have both: "live h5 = F(dp \<mapsto> Block Site_read_all, pp \<mapsto> Block Site_plaintext)"
          using h5(3) h4(4) h3(3) by simp
        note start = start unwrapped True h4(1) acc4 d h5(1)
        show ?thesis
        proof (cases "dr = FOTA_CRYPTO_OK")
          case False
          obtain h6 where h6: "free (Some pp) h5 = Some h6" "holds_data dp F h6"
            using leaves_free_Some [OF h5(2) both] ne h(2) by (auto simp: leaves_def holds_data_def)
          then show ?thesis using assms(1) start False ends_main_return [OF h6(2)]
            by (auto simp: main_decrypt_def main_decrypt_h_def Let_def)
        next
          case True
          then show ?thesis
            using assms(1) start main_install_h_ends [where 's = 's, OF _ h5(2) both h(2) ne(2,1)]
            by (cases r) (auto simp: main_decrypt_def main_decrypt_h_def Let_def split: Option.bind_split_asm)
        qed
      qed
    qed
  qed
qed

lemma main_verify_h_ends:
  assumes "main_verify TYPE('s::len) Z C alloc header nv data n w = Some r" and "holds_data dp F h"
  shows "ends (main_verify_h TYPE('s) Z C alloc header nv data n dp w h) r F"
proof -
  let ?L = "F(dp \<mapsto> Block Site_read_all)"
  let ?e = "FOTA_HEADER_SIZE + unat (wrapped_key_len header)"
  let ?n = "?e + (n - (?e + 256))"
  have h: "wf_heap h" "F dp = None" "live h = ?L" using assms(2) by (simp_all add: holds_data_def)
  note key = load_public_key_h_loads [OF h(1), of C w "Some FOTA_CONFIG_SIGNING_PUBLIC_KEY_FILE"]
  show ?thesis
  proof (cases "fota_load_public_key C w (Some FOTA_CONFIG_SIGNING_PUBLIC_KEY_FILE)")
    case None
    with key obtain h1 where "fota_load_public_key_h C w (Some FOTA_CONFIG_SIGNING_PUBLIC_KEY_FILE) h = Some (None, h1)"
        "holds_data dp F h1" using h by (auto simp: loads_def ends_def holds_data_def)
    then show ?thesis using assms(1) None ends_main_return by (fastforce simp: main_verify_def main_verify_h_def Let_def)
  next
    case (Some k)
    with key obtain kp h1
      where h1: "fota_load_public_key_h C w (Some FOTA_CONFIG_SIGNING_PUBLIC_KEY_FILE) h = Some (Some (k, kp), h1)"
        "wf_heap h1" "live h1 = ?L(kp \<mapsto> Pkey)" "?L kp = None" using h by (auto simp: loads_def ends_def)
    have unkey: "\<exists>g'. release Pkey kp g = Some g' \<and> holds_data dp F g'" if "wf_heap g" "live g = live h1" for g
      using leaves_release [where F = ?L and p = kp, OF that(1) _ h1(4)] that(2) h1(3) h by (auto simp: leaves_def holds_data_def)
    show ?thesis
    proof (cases "alloc Site_signed_data ?n")
      case False
      obtain g where g: "release Pkey kp h1 = Some g" "holds_data dp F g" using unkey [OF h1(2) refl] by blast
      then show ?thesis using assms(1) Some h1(1) False ends_main_return [OF g(2)]
        by (auto simp: main_verify_def main_verify_h_def malloc_refused Let_def)
    next
      case True
      obtain sp h2 where h2: "malloc alloc Site_signed_data ?n h1 = (Some sp, h2)" "wf_heap h2" "live h1 sp = None"
          "live h2 = (live h1)(sp \<mapsto> Block Site_signed_data)"
        by (rule malloc_granted [where alloc = alloc, OF h1(2) True])
      have acc: "access dp h2 = Some ()" using h2(3,4) h1(3,4) by (auto simp: access_def split: if_split_asm)
      obtain p1 p2 p3 v where v: "rd_slice data 0 FOTA_HEADER_SIZE = Some p1"
          "rd_slice (drop FOTA_HEADER_SIZE data) 0 (unat (wrapped_key_len header)) = Some p2"
          "rd_slice (drop (?e + 256) data) 0 (n - (?e + 256)) = Some p3"
          "fota_verify_signature C (Some k) (Some (p1 @ p2 @ p3)) ?n (Some (drop ?e data)) 256 = Some v"
        using assms(1) Some True by (auto simp: main_verify_def Let_def split: Option.bind_split_asm)
      obtain h3 where h3: "fota_verify_signature_h C (Some k) (Some (p1 @ p2 @ p3)) ?n (Some (drop ?e data)) 256 h2 =
          Some (v, h3)" "wf_heap h3" "live h3 = live h2"
        by (rule endsE [OF verify_signature_h_ends [OF v(4) h2(2)]])
      obtain h4 where h4: "free (Some sp) h3 = Some h4" "wf_heap h4" "live h4 = live h1"
        using leaves_free_Some [where F = "live h1" and p = sp and s = Site_signed_data, OF h3(2) _ h2(3)] h2(4) h3(3) by (auto simp: leaves_def)
      obtain h5 where h5: "release Pkey kp h4 = Some h5" "holds_data dp F h5" using unkey [OF h4(2,3)] by blast
      show ?thesis
        using assms(1) Some h1(1) True h2(1) acc v h3(1) h4(1) h5(1) ends_main_return [OF h5(2)]
          main_decrypt_h_ends [where 's = 's, OF _ h5(2)]
        by (cases r) (auto simp: main_verify_def main_verify_h_def Let_def split: if_split_asm)
    qed
  qed
qed

lemma main_sections_h_ends:
  assumes "main_sections TYPE('s::len) Z C alloc header nv data n w = Some r" and "holds_data dp F h"
  shows "ends (main_sections_h TYPE('s) Z C alloc header nv data n dp w h) r F"
  using assms ends_main_return [OF assms(2)] main_verify_h_ends [where 's = 's, OF _ assms(2)]
  by (cases r) (auto simp: main_sections_def main_sections_h_def Let_def split: if_split_asm option.splits)

lemma main_version_h_ends:
  assumes "main_version TYPE('s::len) Z C alloc secret header data n w = Some r" and "holds_data dp F h"
  shows "ends (main_version_h TYPE('s) Z C alloc secret header data n dp w h) r F"
proof -
  let ?v = "fota_version_parse (Some (fw_version header)) FOTA_FW_VERSION_SIZE (Some (Fota_version 0 0 0 0))"
  obtain pr parsed where p: "?v = Some (pr, parsed)"
    using assms(1) by (auto simp: main_version_def split: Option.bind_split_asm)
  show ?thesis
  proof (cases "\<exists>nv. pr = FOTA_VERSION_PARSE_OK \<and> parsed = Some nv")
    case False
    then show ?thesis using assms(1) p ends_main_return [OF assms(2)]
      by (auto simp: main_version_def main_version_h_def split: fota_version_parse_result.splits option.splits)
  next
    case True
    then obtain nv where p: "?v = Some (FOTA_VERSION_PARSE_OK, Some nv)" using p by blast
    obtain rr iv where ri: "fota_version_read_installed w (Some FOTA_CONFIG_VERSION_FILE) = Some (rr, iv)"
      using assms(1) p by (auto simp: main_version_def split: Option.bind_split_asm)
    have "wf_heap h" using assms(2) by (simp add: holds_data_def)
    from read_installed_h_ends [OF ri this] obtain h1
      where h1: "fota_version_read_installed_h w (Some FOTA_CONFIG_VERSION_FILE) h = Some ((rr, iv), h1)" "wf_heap h1"
        "live h1 = live h" by (rule endsE)
    then have held1: "holds_data dp F h1" using assms(2) by (simp add: holds_data_def)
    show ?thesis
    proof (cases "rr = FOTA_VERSION_READ_OK")
      case False
      then show ?thesis using assms(1) p ri h1(1) ends_main_return [OF held1]
        by (auto simp: main_version_def main_version_h_def)
    next
      case True
      let ?hash = "fota_version_read_downgrade_secret_hash w (Some FOTA_CONFIG_DOWNGRADE_SECRET_HASH_FILE)
        (Some (replicate FOTA_DOWNGRADE_SECRET_HASH_SIZE 0))"
      obtain hr stored where hs: "?hash = Some (hr, stored)"
        using assms(1) p ri True by (auto simp: main_version_def split: Option.bind_split_asm)
      obtain h2 where h2: "fota_version_read_downgrade_secret_hash_h w (Some FOTA_CONFIG_DOWNGRADE_SECRET_HASH_FILE)
          (Some (replicate FOTA_DOWNGRADE_SECRET_HASH_SIZE 0)) h1 = Some ((hr, stored), h2)" "wf_heap h2" "live h2 = live h1"
        by (rule endsE [OF read_secret_hash_h_ends [OF hs h1(2)]])
      then have held2: "holds_data dp F h2" using held1 by (simp add: holds_data_def)
      show ?thesis
        using assms(1) p ri True h1(1) hs h2(1) ends_main_return [OF held2] main_sections_h_ends [where 's = 's, OF _ held2]
        by (cases r) (auto simp: main_version_def main_version_h_def Let_def
            split: Option.bind_split_asm fota_downgrade_check_result.splits)
    qed
  qed
qed

lemma main_header_h_ends:
  assumes "main_header TYPE('s::len) Z C alloc secret data n w = Some r" and "holds_data dp F h"
  shows "ends (main_header_h TYPE('s) Z C alloc secret data n dp w h) r F"
  using assms ends_main_return [OF assms(2)] main_version_h_ends [where 's = 's, OF _ assms(2)]
  by (cases r) (auto simp: main_header_def main_header_h_def
      split: Option.bind_split_asm fota_header_result.splits option.splits if_split_asm)

text \<open>\<open>main_h\<close> returns what \<open>main\<close> returns, and holds afterwards what was held before.\<close>

lemma main_h_ends:
  assumes "main TYPE('s::len) Z C alloc argv stdin w = Some r" and "wf_heap h"
  shows "ends (main_h TYPE('s) Z C alloc argv stdin w h) r (live h)"
proof (cases "length argv < 2 \<or> main_input (argv ! 1) stdin w = None")
  case True
  then show ?thesis using assms by (auto simp: main_def main_h_def)
next
  case False
  then obtain fp where fp: "main_input (argv ! 1) stdin w = Some fp" by auto
  define fd h1 where "fd = (if argv ! 1 = ascii ''-'' then None else Some (fst (acquire Open_file h)))"
    and "h1 = (if argv ! 1 = ascii ''-'' then h else snd (acquire Open_file h))"
  have open_fd: "(if argv ! 1 = ascii ''-'' then (None, h) else (case acquire Open_file h of (p, h1) \<Rightarrow> (Some p, h1))) = (fd, h1)"
    by (simp add: fd_def h1_def split: prod.split)
  have h1: "wf_heap h1" "live h1 = gain fd Open_file (live h)" "fresh fd (live h)"
    by (rule acquire_fresh [OF assms(2), of Open_file], use assms(2) in \<open>simp add: fd_def h1_def\<close>)+
  have close: "\<exists>g'. (case fd of None \<Rightarrow> Some g | Some p \<Rightarrow> release Open_file p g) = Some g' \<and> wf_heap g' \<and> live g' = L"
    if "wf_heap g" "live g = gain fd Open_file L" "fresh fd L" for g L
    using that leaves_release [of g L _ Open_file] by (cases fd) (auto simp: leaves_def)
  note rd = read_all_h_hands [OF h1(1), of alloc fp]
  show ?thesis
  proof (cases "read_all alloc fp")
    case None
    with rd obtain h2 where h2: "read_all_h alloc fp h1 = Some (None, h2)" "wf_heap h2" "live h2 = live h1"
      by (auto simp: hands_block_def ends_def)
    from close [OF h2(2) _ h1(3)] h1(2) h2(3) show ?thesis
      using assms(1) False fp None open_fd h2(1) by (auto simp: main_def main_h_def Let_def)
  next
    case (Some data)
    with rd obtain dp h2 where h2: "read_all_h alloc fp h1 = Some (Some (data, dp), h2)" "wf_heap h2"
        "live h1 dp = None" "live h2 = (live h1)(dp \<mapsto> Block Site_read_all)"
      by (auto simp: hands_block_def ends_def)
    have "live h2 = gain fd Open_file ((live h)(dp \<mapsto> Block Site_read_all)) \<and>
      fresh fd ((live h)(dp \<mapsto> Block Site_read_all)) \<and> live h dp = None"
    proof (cases fd)
      case None
      then show ?thesis using h1(2) h2(3,4) by simp
    next
      case (Some q)
      then have "dp \<noteq> q" using h1(2) h2(3) by auto
      then show ?thesis using Some h1(2,3) h2(3,4) by (simp add: fun_upd_twist [of q dp])
    qed
    with close [OF h2(2)] obtain h3
      where h3: "(case fd of None \<Rightarrow> Some h2 | Some p \<Rightarrow> release Open_file p h2) = Some h3" "holds_data dp (live h) h3"
      by (fastforce simp: holds_data_def)
    show ?thesis
      using assms(1) False fp Some open_fd h2(1) h3(1) main_header_h_ends [where 's = 's, OF _ h3(2)]
      by (cases r) (auto simp: main_def main_h_def Let_def)
  qed
qed

end
