(* ===== verification/Fota_Heap_Props.thy ===== *)
theory Fota_Heap_Props
  imports Fota_Heap_Main Fota_Sample
begin

section \<open>Ownership of memory and handles\<close>

text \<open>
  The properties of the heap theories: the program gives back everything it acquires, on every path, and the parser of
  archives hands out exactly one block and only on success.
\<close>

definition empty_heap :: heap where
  "empty_heap = \<lparr>live = Map.empty, next_handle = 0\<rparr>"

lemma wf_empty_heap [simp]: "wf_heap empty_heap"
  by (simp add: wf_heap_def empty_heap_def)

text \<open>
  C8. No leak, no double free, no use after free: in every environment, and for every pattern of failures, \<open>main\<close> with all its
  acquisitions and releases runs to its end without an undefined one, returns what \<open>main\<close> returns, and holds at the end
  what was held at the start: every block is freed, every file closed, every key and context of libcrypto released, the zlib
  state torn down, and the temporary copy of the unwrapped key given to \<open>OPENSSL_clear_free\<close>.
\<close>

theorem main_gives_everything_back:
  assumes "crypto_contract C" and "zlib_contract Z" and "36 < LENGTH('s)" and "wf_heap h"
  shows "\<exists>c w' h'. main_h TYPE('s::len) Z C alloc argv stdin w h = Some ((c, w'), h') \<and>
    main TYPE('s) Z C alloc argv stdin w = Some (c, w') \<and> live h' = live h"
proof (rule main_cases [OF assms(1-3), where alloc = alloc and argv = argv and stdin = stdin and w = w])
qed (use main_h_ends [where 's = 's, OF _ assms(4)] in \<open>fastforce elim: endsE\<close>)+

theorem main_gives_everything_back_witness:
  "\<exists>w' h'. main_h TYPE(64) sample_zlib sha256_sample unlimited sample_argv sample_stdin sample_device empty_heap =
      Some ((FOTA_EXIT_SUCCESS, w'), h') \<and> live h' = Map.empty"
proof -
  have "36 < LENGTH(64)" by simp
  from main_gives_everything_back [OF sample_main_contracts this wf_empty_heap, of unlimited sample_argv sample_stdin sample_device]
  show ?thesis using sample_run by (auto simp: empty_heap_def)
qed

text \<open>
  Ownership of the parsed entries, for every width of \<open>size_t\<close> at which the parser returns: on an error nothing is held
  and \<open>*out\<close> is empty; on success \<open>*out\<close> owns one new block at most, and \<open>fota_tar_entries_free\<close> gives it back.
\<close>

theorem tar_parse_ownership:
  assumes "fota_tar_parse TYPE('s::len) alloc (Some d) len True = Some r" and "wf_heap h" and "live h tar_p = Some (Block s)"
  shows "case r of
      Inl e \<Rightarrow> \<exists>h'. fota_tar_parse_h TYPE('s) alloc (Some d) tar_p len (Some out) h = Some ((e, Some empty_array), h') \<and>
        live h' = live h
    | Inr es \<Rightarrow> \<exists>a h' h''.
        fota_tar_parse_h TYPE('s) alloc (Some d) tar_p len (Some out) h = Some ((FOTA_INSTALL_OK, Some a), h') \<and>
        elems a = es \<and> (\<forall>p. live h' p \<noteq> live h p \<longrightarrow> live h p = None \<and> base a = Some p) \<and>
        fota_tar_entries_free (Some a) h' = Some (Some empty_array, h'') \<and> live h'' = live h"
proof (cases r)
  case (Inl e)
  then show ?thesis using tar_parse_h_fills [OF assms(1,2), of tar_p out] assms(3) by (auto elim: endsE)
next
  case (Inr es)
  with tar_parse_h_fills [OF assms(1,2), of tar_p out] assms(3) obtain b
    where b: "fresh b (live h)" and ends: "ends (fota_tar_parse_h TYPE('s) alloc (Some d) tar_p len (Some out) h)
        (FOTA_INSTALL_OK, Some \<lparr>elems = es, base = b\<rparr>) (gain b (Block Site_tar_entries) (live h))"
    by auto
  from ends obtain h' where run: "fota_tar_parse_h TYPE('s) alloc (Some d) tar_p len (Some out) h =
        Some ((FOTA_INSTALL_OK, Some \<lparr>elems = es, base = b\<rparr>), h')"
      and h': "wf_heap h'" "live h' = gain b (Block Site_tar_entries) (live h)" by (rule endsE)
  let ?a = "\<lparr>elems = es, base = b\<rparr>"
  have "ends (fota_tar_entries_free (Some ?a) h') (Some empty_array) (live h)"
    by (rule ends_entries_free [OF h'(1)]) (simp_all add: h'(2) b)
  moreover have "\<forall>p. live h' p \<noteq> live h p \<longrightarrow> live h p = None \<and> base ?a = Some p"
    using b h'(2) by (cases b) auto
  ultimately show ?thesis using Inr run by (fastforce elim: endsE)
qed

definition tar_heap :: heap where
  "tar_heap = \<lparr>live = [0 \<mapsto> Block Site_gunzip], next_handle = 1\<rparr>"

theorem tar_parse_ownership_witness:
  "\<exists>a h' h''. elems a \<noteq> [] \<and>
    fota_tar_parse_h TYPE(64) unlimited (Some sample_archive) 0 (length sample_archive) (Some empty_array) tar_heap =
      Some ((FOTA_INSTALL_OK, Some a), h') \<and>
    fota_tar_entries_free (Some a) h' = Some (Some empty_array, h'') \<and> live h'' = [0 \<mapsto> Block Site_gunzip]"
proof -
  obtain es where es: "fota_tar_parse TYPE(64) unlimited (Some sample_archive) (length sample_archive) True = Some (Inr es)"
      "map (\<lambda>e. (path e, entry_data sample_archive e)) (filter is_payload_file es) = [(ascii ''a'', [])]"
    using sample_archive_accepted by (elim exE conjE) (rule that)
  have "wf_heap tar_heap" "live tar_heap 0 = Some (Block Site_gunzip)" by (auto simp: wf_heap_def tar_heap_def)
  from tar_parse_ownership [OF es(1) this, of empty_array] obtain a h' h''
    where "fota_tar_parse_h TYPE(64) unlimited (Some sample_archive) 0 (length sample_archive) (Some empty_array) tar_heap =
      Some ((FOTA_INSTALL_OK, Some a), h')" "elems a = es"
      "fota_tar_entries_free (Some a) h' = Some (Some empty_array, h'')" "live h'' = live tar_heap"
    by auto
  moreover have "es \<noteq> []" using es(2) by auto
  ultimately show ?thesis by (auto simp: tar_heap_def)
qed

end
