(* ===== verification/Fota_Retry.thy ===== *)
theory Fota_Retry
  imports Fota_Sample
begin

section \<open>Repeating an update that was interrupted\<close>

text \<open>
  \<open>main\<close> leaves whatever it had written when an I/O error stops it.  The theory shows that this never stands in the way of
  the next attempt: an interrupted installation has made parent directories of payload files and has written at the
  places of payload files, nothing else, so the same package installs completely once writes work again.
\<close>

subsection \<open>The directories that an installation makes\<close>

lemma mkdir_dirs: "mkdir p w = (r, w') \<Longrightarrow> dirs w' l \<Longrightarrow> dirs w l \<or> resolve w p = Some l"
  by (auto simp: mkdir_def emit_def split: option.split_asm if_split_asm)

lemma mkdir_resolves: "mkdir p w = (r, w') \<Longrightarrow> r \<noteq> Mkdir_error \<Longrightarrow> \<exists>l. resolve w p = Some l"
  by (auto simp: mkdir_def split: option.split_asm)

lemma mkdir_keeps:
  assumes "mkdir p w = (r, w')" and "resolve w q = Some l"
  shows "resolve w' q = Some l"
  by (rule resolve_mono [OF _ _ assms(2)])
     (use assms(1) in \<open>auto simp: mkdir_def emit_def split: option.split_asm if_split_asm\<close>)

lemma mkdir_loop_dirs:
  assumes "mkdir_loop (b @ slash # q) (Suc (length b)) w = (ok, w')" and "b \<noteq> []" and "resolve w b = Some here"
    and "plain_path q" and "dirs w' l"
  shows "dirs w l \<or> l \<in> parents here (comps q)"
  using assms
proof (induction "length q" arbitrary: b here w q rule: less_induct)
  case less
  show ?case
  proof (cases "slash \<in> set q")
    case False
    have "strchr_from (b @ slash # q) slash (Suc (length b)) = None"
      using strchr_from_miss [OF False, of "b @ [slash]"] by simp
    then show ?thesis using less.prems(1,5) by (subst (asm) mkdir_loop.simps) simp
  next
    case True
    then obtain c q' where q: "q = c @ slash # q'" "slash \<notin> set c" by (meson split_list_first)
    then have cs: "comps q = c # comps q'" by (simp add: split_on_append_sep)
    note par = parents_Cons [OF split_on_not_Nil, of here c slash q', folded cs]
    have plain: "plain_comp c" "plain_path q'" using less.prems(4) cs by (simp_all add: plain_path_def)
    have hit: "strchr_from (b @ slash # q) slash (Suc (length b)) = Some (Suc (length b) + length c)"
      using strchr_from_hit [OF q(2), of "b @ [slash]" q'] q(1) by simp
    let ?b = "b @ slash # c"
    have at: "l' = here @ [c]" if "resolve w ?b = Some l'" for l'
      using that plain(1) unfolding resolve_child [OF less.prems(2,3)] split_on_no_sep [OF q(2)]
      by (simp add: plain_comp_def split: if_split_asm)
    obtain r w1 where m: "mkdir ?b w = (r, w1)" by fastforce
    have old: "dirs w l' \<or> l' = here @ [c]" if "dirs w1 l'" for l' using mkdir_dirs [OF m that] at by blast
    have "take (Suc (length b) + length c) (b @ slash # q) = ?b" using q(1) by simp
    then have run: "(if r = Mkdir_error then (False, w1) else mkdir_loop (?b @ slash # q') (Suc (length ?b)) w1) = (ok, w')"
      using less.prems(1) hit m q(1) by (subst (asm) mkdir_loop.simps) (simp split: if_split_asm)
    show ?thesis
    proof (cases "r = Mkdir_error")
      case True
      then show ?thesis using run less.prems(5) old par by auto
    next
      case False
      obtain l' where "resolve w ?b = Some l'" using mkdir_resolves [OF m False] by blast
      then have "resolve w1 ?b = Some (here @ [c])" using mkdir_keeps [OF m] at by blast
      moreover have "length q' < length q" "?b \<noteq> []" using q(1) by simp_all
      ultimately have "dirs w1 l \<or> l \<in> parents (here @ [c]) (comps q')"
        using less.hyps [of q' ?b w1 "here @ [c]"] run False plain(2) less.prems(5) by simp
      then show ?thesis using old par by auto
    qed
  qed
qed

lemma plain_path_safe: "plain_path p \<Longrightarrow> dotdot_comp \<notin> set (comps p)"
  by (auto simp: plain_path_def plain_comp_def)

lemma write_entry_file_dirs:
  assumes "rd_slice tar (data_off e) (esize e) = Some d" and "write_entry_file dir tar e w = Some (ok, w')"
    and "dir \<noteq> []" and "resolve w dir = Some root" and "plain_path (path e)" and "dirs w' l"
  shows "dirs w l \<or> l \<in> parents root (comps (path e))"
proof -
  obtain ok1 w1 where en: "ensure_parent_dirs dir (path e) w = (ok1, w1)" by fastforce
  have "dirs w1 l"
    using assms(2,6) put_file_dirs(1)
    by (fastforce simp: write_entry_file_eq [OF assms(1)] en split: if_split_asm option.split_asm)
  then show ?thesis
    using mkdir_loop_dirs [OF _ assms(3-5)] en
    by (auto simp: ensure_parent_dirs_def make_full_path_def Let_def split: if_split_asm)
qed

lemma install_loop_dirs:
  assumes "install_loop dir tar es w = Some (r, w')" and "\<forall>e \<in> set es. writable_entry tar e" and "dir \<noteq> []"
    and "resolve w dir = Some root" and "\<forall>p \<in> payload_paths es. plain_path p" and "dirs w' l"
  shows "dirs w l \<or> (\<exists>p \<in> payload_paths es. l \<in> parents root (comps p))"
  using assms
proof (induction es arbitrary: w)
  case (Cons e es)
  show ?case
  proof (cases "is_payload_file e")
    case False
    then show ?thesis using Cons.IH [of w] Cons.prems install_loop_skip [OF False] by auto
  next
    case True
    have plain: "plain_path (path e)" using Cons.prems(5) True by simp
    have rd: "rd_slice tar (data_off e) (esize e) = Some (entry_data tar e)"
      using Cons.prems(2) by (simp add: writable_entry_def)
    obtain ok w1 where w1: "write_entry_file dir tar e w = Some (ok, w1)" "installs (resolve w dir) w w1"
      using write_entry_file_result [OF rd Cons.prems(3) plain_path_safe [OF plain], of w] by blast
    note here = write_entry_file_dirs [OF rd w1(1) Cons.prems(3,4) plain]
    have "(if ok then install_loop dir tar es w1 else Some (FOTA_INSTALL_ERR_IO, w1)) = Some (r, w')"
      using Cons.prems(1) install_loop_write [OF True w1(1)] by simp
    moreover have "resolve w1 dir = Some root" using installs_resolve [OF w1(2) Cons.prems(4)] .
    ultimately have "dirs w1 l \<or> (\<exists>p \<in> payload_paths es. l \<in> parents root (comps p))"
      using Cons.IH [of w1] Cons.prems(2,3,5,6) by (auto split: if_split_asm)
    then show ?thesis using here True by auto
  qed
qed simp

subsection \<open>An installation keeps its own room\<close>

lemma plain_target:
  assumes "dir \<noteq> []" and "resolve w dir = Some root" and "plain_path (path e)" and "resolve w (target dir e) = Some l"
  shows "l = root @ comps (path e)"
  using assms walk_plain [of "comps (path e)" "dirs w" root]
  by (simp add: resolve_child plain_path_def split: if_split_asm)

lemma room_kept:
  assumes "room w root ps" and "compatible ps"
    and grown: "\<And>l. dirs w' l \<Longrightarrow> dirs w l \<or> (\<exists>p \<in> ps. l \<in> parents root (comps p))"
    and wrote: "\<And>l. files w' l = files w l \<or> (\<exists>p \<in> ps. l = root @ comps p)"
  shows "room w' root ps"
  unfolding room_def
proof (intro ballI conjI)
  fix p l assume p: "p \<in> ps" and l: "l \<in> parents root (comps p)"
  have "l \<noteq> root @ comps q" if "q \<in> ps" for q
    using l that p assms(2) parents_strict_prefix [of root "comps q" "comps p"] by (auto simp: compatible_def)
  then show "files w' l = None" using wrote [of l] assms(1) p l by (auto simp: room_def)
next
  fix p assume p: "p \<in> ps"
  then have "root @ comps p \<notin> parents root (comps q)" if "q \<in> ps" for q
    using that assms(2) parents_strict_prefix [of root "comps p" "comps q"] by (auto simp: compatible_def)
  then show "\<not> dirs w' (root @ comps p)" using grown [of "root @ comps p"] assms(1) p by (auto simp: room_def)
qed

subsection \<open>What a device is left with\<close>

text \<open>
  \<open>leaves ps w w'\<close>: the storage of \<open>w'\<close> is that of \<open>w\<close> with more of the parent directories of the paths \<open>ps\<close> and with any
  content at the places of \<open>ps\<close>.  The relation is a preorder, so it describes any number of attempts.
\<close>

definition leaves :: "u8 list set \<Rightarrow> world \<Rightarrow> world \<Rightarrow> bool" where
  "leaves ps w w' \<longleftrightarrow>
     cwd w' = cwd w \<and> no_read w' = no_read w \<and> read_stop w' = read_stop w \<and>
     (\<forall>l. dirs w l \<longrightarrow> dirs w' l) \<and>
     (\<forall>l. dirs w' l \<longrightarrow> dirs w l \<or> (\<exists>p \<in> ps. l \<in> parents install_loc (comps p))) \<and>
     (\<forall>l. files w' l = files w l \<or> (\<exists>p \<in> ps. l = install_loc @ comps p))"

lemma leaves_refl [simp]: "leaves ps w w"
  by (simp add: leaves_def)

lemma leaves_trans: "leaves ps w1 w2 \<Longrightarrow> leaves ps w2 w3 \<Longrightarrow> leaves ps w1 w3"
  unfolding leaves_def by metis

lemma leaves_with_log [simp]:
  "leaves ps (with_log evs w) w' = leaves ps w w'" "leaves ps w (with_log evs w') = leaves ps w w'"
  by (simp_all add: leaves_def)

lemma leaves_resolve: "leaves ps w w' \<Longrightarrow> resolve w p = Some l \<Longrightarrow> resolve w' p = Some l"
  by (rule resolve_mono [of w w']) (auto simp: leaves_def)

lemma leaves_room:
  "leaves ps w w' \<Longrightarrow> room w install_loc ps \<Longrightarrow> compatible ps \<Longrightarrow> room w' install_loc ps"
  by (rule room_kept) (auto simp: leaves_def)

lemma parents_below: "l \<in> parents root cs \<Longrightarrow> prefix root l"
  by (auto simp: parents_def)

lemma leaves_outside:
  assumes "leaves ps w w'" and "\<not> prefix install_loc l"
  shows "files w' l = files w l" "dirs w' l = dirs w l"
  using assms parents_below [of l install_loc] unfolding leaves_def by (metis prefixI)+

text \<open>What a package may do depends on the configured files and on the free space only.\<close>

lemma leaves_config:
  assumes "leaves ps w w'"
  shows "has_etc w' = has_etc w"
    "p \<in> {FOTA_CONFIG_VERSION_FILE, FOTA_CONFIG_DOWNGRADE_SECRET_HASH_FILE, FOTA_CONFIG_SIGNING_PUBLIC_KEY_FILE,
       FOTA_CONFIG_DEVICE_PRIVATE_KEY_FILE} \<Longrightarrow> fopen_rb w' p = fopen_rb w p"
proof -
  note out = leaves_outside [OF assms]
  show e: "has_etc w' = has_etc w" using out(2) etc_not_installed by (simp add: has_etc_def)
  have "no_read w' = no_read w" "read_stop w' = read_stop w" using assms by (simp_all add: leaves_def)
  then show "fopen_rb w' p = fopen_rb w p"
    if "p \<in> {FOTA_CONFIG_VERSION_FILE, FOTA_CONFIG_DOWNGRADE_SECRET_HASH_FILE, FOTA_CONFIG_SIGNING_PUBLIC_KEY_FILE,
       FOTA_CONFIG_DEVICE_PRIVATE_KEY_FILE}"
    using that out etc_not_installed e by (auto simp: fopen_rb_def resolve_config)
qed

lemma authorised_leaves:
  assumes l: "leaves ps w w'" and vfs: "vfs_space w' = vfs_space w"
    and root: "resolve w FOTA_CONFIG_INSTALL_DIR = Some install_loc"
  shows "authorised C alloc secret data w' v pt = authorised C alloc secret data w v pt"
proof -
  have f: "installed_version w' = installed_version w" "override_hash w' = override_hash w"
    "fota_load_public_key C w' (Some FOTA_CONFIG_SIGNING_PUBLIC_KEY_FILE) =
     fota_load_public_key C w (Some FOTA_CONFIG_SIGNING_PUBLIC_KEY_FILE)"
    "fota_load_private_key C w' (Some FOTA_CONFIG_DEVICE_PRIVATE_KEY_FILE) =
     fota_load_private_key C w (Some FOTA_CONFIG_DEVICE_PRIVATE_KEY_FILE)"
    using leaves_config(2) [OF l]
    by (simp_all add: installed_version_def override_hash_def fota_load_public_key_def fota_load_private_key_def)
  have "statvfs w' FOTA_CONFIG_INSTALL_DIR = statvfs w FOTA_CONFIG_INSTALL_DIR"
    using leaves_resolve [OF l root] root vfs by (simp add: statvfs_def)
  then show ?thesis
    using f by (simp add: authorised_def version_passes_def override_granted_def fits_device_def signed_by_vendor_def
        opens_to_def)
qed

subsection \<open>What is installed does not depend on the allocator\<close>

lemma unwrapped_unique: "unwrapped C alloc k wk = Some x \<Longrightarrow> unwrapped C alloc' k wk = Some y \<Longrightarrow> x = y"
  by (auto simp: unwrapped_def ok1_def split: Option.bind_split_asm prod.split_asm if_split_asm)

lemma opens_to_unique: "opens_to C alloc data w pt \<Longrightarrow> opens_to C alloc' data w pt' \<Longrightarrow> pt = pt'"
  using unwrapped_unique unfolding opens_to_def by fastforce

lemma gunzip_grow_unique:
  "gunzip_grow alloc m n cap = Inr c \<Longrightarrow> gunzip_grow alloc' m n cap = Inr c' \<Longrightarrow> c = c'"
  by (auto simp: gunzip_grow_def Let_def split: if_split_asm)

lemma gunzip_loop_unique:
  assumes "gunzip_loop Z alloc m st inp buf cap = Some (Inr out)" and "gunzip_loop Z alloc' m st inp buf cap = Some (Inr out')"
  shows "out = out'"
proof (rule gunzip_loop.raw_induct [where P = "\<lambda>Z alloc m st inp buf cap r. \<forall>out out'. r = Inr out \<longrightarrow>
      gunzip_loop Z alloc' m st inp buf cap = Some (Inr out') \<longrightarrow> out = out'", OF _ assms(1), THEN spec, THEN spec,
      THEN mp, THEN mp, OF _ refl assms(2)], intro allI impI)
  fix loop :: "'a zlib \<Rightarrow> allocator \<Rightarrow> nat \<Rightarrow> 'a \<Rightarrow> u8 list \<Rightarrow> u8 list \<Rightarrow> nat \<Rightarrow> (fota_install_result + u8 list) option"
  fix Z :: "'a zlib" and alloc m st inp buf cap r out out'
  assume IH: "\<And>Z alloc m st inp buf cap r. loop Z alloc m st inp buf cap = Some r \<Longrightarrow>
      \<forall>out out'. r = Inr out \<longrightarrow> gunzip_loop Z alloc' m st inp buf cap = Some (Inr out') \<longrightarrow> out = out'"
    and eq: "(case gunzip_grow alloc m (length buf) cap of
      Inl e \<Rightarrow> Some (Inl e)
    | Inr cap' \<Rightarrow>
        Option.bind (gunzip_inflate Z st inp buf cap') (\<lambda>(zret, inp', buf', left, st').
          if zret \<noteq> Z_OK \<and> zret \<noteq> Z_STREAM_END then Some (Inl FOTA_INSTALL_ERR_DECOMPRESS_FAILED)
          else if zret = Z_OK \<and> inp' = [] \<and> left > 0
          then Some (Inl FOTA_INSTALL_ERR_DECOMPRESS_FAILED)
          else if zret = Z_STREAM_END then Some (Inr buf')
          else loop Z alloc m st' inp' buf' cap')) = Some r"
    and r: "r = Inr out" and other: "gunzip_loop Z alloc' m st inp buf cap = Some (Inr out')"
  obtain c where c: "gunzip_grow alloc m (length buf) cap = Inr c" using eq r by (auto split: sum.split_asm)
  moreover obtain c' where "gunzip_grow alloc' m (length buf) cap = Inr c'"
    using other by (subst (asm) gunzip_loop.simps) (auto split: sum.split_asm)
  ultimately have c': "gunzip_grow alloc' m (length buf) cap = Inr c" using gunzip_grow_unique by metis
  obtain zret inp' buf' left st' where g: "gunzip_inflate Z st inp buf c = Some (zret, inp', buf', left, st')"
    using eq c by (auto split: Option.bind_split_asm)
  show "out = out'"
    using IH [of Z alloc m st' inp' buf' c r] eq other r
    by (subst (asm) gunzip_loop.simps) (auto simp: c c' g split: if_split_asm)
qed

lemma gunzip_unique:
  "fota_gunzip Z alloc gz n m b = Some (Inr out) \<Longrightarrow> fota_gunzip Z alloc' gz n m b = Some (Inr out') \<Longrightarrow> out = out'"
  by (auto simp: fota_gunzip_def Let_def split: option.split_asm if_split_asm prod.split_asm Option.bind_split_asm
      dest: gunzip_loop_unique)

lemma accepted_unique:
  assumes "archive_accepted TYPE('s::len) Z C alloc gz n tar es" and "archive_accepted TYPE('s) Z C alloc' gz n tar' es'"
    and "36 < LENGTH('s)" and "zlib_contract Z" and "n \<le> length gz"
  shows "tar' = tar \<and> es' = es"
proof -
  have g: "fota_gunzip Z alloc (Some gz) n FOTA_INSTALLER_MAX_DECOMPRESSED_SIZE True = Some (Inr tar)"
    using assms(1) by (simp add: archive_accepted_def)
  moreover have "fota_gunzip Z alloc' (Some gz) n FOTA_INSTALLER_MAX_DECOMPRESSED_SIZE True = Some (Inr tar')"
    using assms(2) by (simp add: archive_accepted_def)
  ultimately have tar: "tar' = tar" by (simp add: gunzip_unique)
  have "length tar \<le> FOTA_INSTALLER_MAX_DECOMPRESSED_SIZE"
    by (rule gunzip_cases [OF assms(4,5), of alloc FOTA_INSTALLER_MAX_DECOMPRESSED_SIZE]) (use g in simp)
  also have "FOTA_INSTALLER_MAX_DECOMPRESSED_SIZE = 2 ^ 29" by (simp add: FOTA_INSTALLER_MAX_DECOMPRESSED_SIZE_def)
  also have "(2 :: nat) ^ 29 < 2 ^ LENGTH('s)" using assms(3) by (intro power_strict_increasing) simp_all
  finally have len: "length tar < 2 ^ LENGTH('s)" .
  have "tar_items tar 0 = Inr x" if "archive_accepted TYPE('s) Z C a gz n tar x" for a x
    using fota_tar_parse_cases [OF assms(3) len, of a] that by (auto simp: archive_accepted_def)
  from this [OF assms(1)] this [OF assms(2) [unfolded tar]] show ?thesis using tar by simp
qed

subsection \<open>One attempt\<close>

lemma extract_leaves:
  assumes Z: "zlib_contract Z" and D: "digest_contract C" and W: "36 < LENGTH('s)"
    and run: "fota_installer_extract TYPE('s::len) Z C alloc' (Some pt) (length pt) (Some FOTA_CONFIG_INSTALL_DIR) w = Some (r, w')"
    and acc: "archive_accepted TYPE('s) Z C alloc pt (length pt) tar es"
    and root: "resolve w FOTA_CONFIG_INSTALL_DIR = Some install_loc" and plain: "\<forall>p \<in> payload_paths es. plain_path p"
  shows "leaves (payload_paths es) w w' \<and> (\<exists>evs. log w' = log w @ evs \<and> Ev_write version_loc \<notin> set evs)"
proof (rule extract_cases [OF Z D W order_refl install_dir_not_Nil, where alloc = alloc' and w = w and gz = pt])
  fix r2
  assume "fota_installer_extract TYPE('s) Z C alloc' (Some pt) (length pt) (Some FOTA_CONFIG_INSTALL_DIR) w = Some (r2, w)"
  then show ?thesis using run by simp
next
  fix r2 w2 tar2 es2
  assume ex: "fota_installer_extract TYPE('s) Z C alloc' (Some pt) (length pt) (Some FOTA_CONFIG_INSTALL_DIR) w = Some (r2, w2)"
    and acc2: "archive_accepted TYPE('s) Z C alloc' pt (length pt) tar2 es2" and wf: "wf_entries tar2 es2"
    and ext: "extracted FOTA_CONFIG_INSTALL_DIR tar2 es2 r2 w w2"
  let ?w = "emit Ev_validated w"
  have same: "tar2 = tar" "es2 = es" "w2 = w'" using accepted_unique [OF acc acc2 W Z] ex run by simp_all
  have wr: "\<forall>e \<in> set es. writable_entry tar e" using wf_entries_writable [OF wf] same by blast
  have loop: "install_loop FOTA_CONFIG_INSTALL_DIR tar es ?w = Some (r, w')"
    using run acc2 same by (simp add: fota_installer_extract_def archive_accepted_def)
  have i: "installs (Some install_loc) ?w w'" and part: "partly_written FOTA_CONFIG_INSTALL_DIR tar es w w'"
    using ext same root by (simp_all add: extracted_def)
  have rt: "resolve ?w FOTA_CONFIG_INSTALL_DIR = Some install_loc" using root by simp
  have new: "dirs w l \<or> (\<exists>p \<in> payload_paths es. l \<in> parents install_loc (comps p))" if "dirs w' l" for l
    using install_loop_dirs [OF loop wr install_dir_not_Nil rt plain that] by (simp add: emit_def)
  have "files w' l = files w l \<or> (\<exists>p \<in> payload_paths es. l = install_loc @ comps p)" for l
  proof (cases "files w' l = files w l")
    case False
    then obtain e where e: "e \<in> set es" "is_payload_file e" "resolve w' (target FOTA_CONFIG_INSTALL_DIR e) = Some l"
      using part unfolding partly_written_def comes_from_def by blast
    then have "l = install_loc @ comps (path e)"
      using plain_target [OF install_dir_not_Nil installs_resolve [OF i rt]] plain by simp
    then show ?thesis using e by auto
  qed simp
  then have "leaves (payload_paths es) w w'" using i new unfolding leaves_def installs_def by (simp add: emit_def)
  moreover have "\<exists>evs. log w' = log ?w @ evs \<and> Ev_write version_loc \<notin> set evs"
    using i etc_not_installed(5) unfolding installs_def inside_def by fastforce
  ultimately show ?thesis by (auto simp: emit_def)
qed

lemma main_leaves:
  assumes C: "crypto_contract C" and Z: "zlib_contract Z" and W: "36 < LENGTH('s)"
    and run: "main TYPE('s::len) Z C alloc' argv stdin w = Some (c, w')"
    and read: "\<And>d. package_read alloc' argv stdin w = Some d \<Longrightarrow> d = data"
    and opens: "opens_to C alloc data w pt" and acc: "archive_accepted TYPE('s) Z C alloc pt (length pt) tar es"
    and root: "resolve w FOTA_CONFIG_INSTALL_DIR = Some install_loc" and plain: "\<forall>p \<in> payload_paths es. plain_path p"
  shows "\<exists>evs. log w' = log w @ evs \<and> (Ev_write version_loc \<notin> set evs \<longrightarrow> leaves (payload_paths es) w w')"
proof -
  have D: "digest_contract C" using C by (simp add: crypto_contract_def)
  consider (stopped) evs where "w' = with_log evs w"
    | (installed) v where "authorised C alloc' (secret_given argv) data w v pt"
        "main_install TYPE('s) Z C alloc' v (Some pt) (length pt) (with_log checks_passed w) = Some (c, w')"
  proof (cases "length argv < 2 \<or> package_read alloc' argv stdin w = None")
    case True
    then have "w' = with_log [] w" using run by (auto simp: main_eq [OF C] split: if_split_asm)
    then show ?thesis by (rule stopped)
  next
    case False
    then have rd: "package_read alloc' argv stdin w = Some data" using read by auto
    obtain evs d where d: "decide C alloc' (secret_given argv) data w = (evs, d)" by fastforce
    show ?thesis
    proof (cases d)
      case (Inl c2)
      then show ?thesis using run rd d False stopped [of evs] by (auto simp: main_eq [OF C] perform_def)
    next
      case (Inr vp)
      obtain v pt2 where vp: "vp = (v, pt2)" by fastforce
      then have auth: "authorised C alloc' (secret_given argv) data w v pt2" "evs = checks_passed"
        using d Inr by (simp_all add: decide_Inr)
      then have "pt2 = pt" using opens_to_unique [OF opens, of alloc' pt2] by (simp add: authorised_def)
      then show ?thesis using run rd d False vp Inr auth installed by (simp add: main_eq [OF C] perform_def)
    qed
  qed
  then show ?thesis
  proof cases
    case (installed v)
    then obtain r w1 where ex: "fota_installer_extract TYPE('s) Z C alloc' (Some pt) (length pt)
        (Some FOTA_CONFIG_INSTALL_DIR) (with_log checks_passed w) = Some (r, w1)"
      and rest: "w' = w1 \<or> (\<exists>ok. put_file FOTA_CONFIG_VERSION_FILE (version_text v) w1 = (ok, w'))"
      by (auto simp: main_install_def platform_post_install_hook_def write_installed_put_file
          split: Option.bind_split_asm if_split_asm prod.split_asm)
    have "resolve (with_log checks_passed w) FOTA_CONFIG_INSTALL_DIR = Some install_loc" using root by simp
    from extract_leaves [OF Z D W ex acc this plain] obtain evs
      where l: "leaves (payload_paths es) w w1" "log w1 = log w @ checks_passed @ evs" "Ev_write version_loc \<notin> set evs"
      by auto
    from rest show ?thesis
    proof (elim disjE exE)
      fix ok assume put: "put_file FOTA_CONFIG_VERSION_FILE (version_text v) w1 = (ok, w')"
      from put_file_log [OF put] show ?thesis
      proof (elim disjE exE conjE)
        fix l2 assume "resolve w1 FOTA_CONFIG_VERSION_FILE = Some l2" "log w' = log w1 @ [Ev_write l2]"
        then show ?thesis using l(2) by (auto simp: resolve_config split: if_split_asm)
      qed (use l in simp)
    qed (use l in simp)
  qed simp
qed

lemma main_log_grows:
  assumes "crypto_contract C" and "zlib_contract Z" and "36 < LENGTH('s)"
    and run: "main TYPE('s::len) Z C alloc argv stdin w = Some (c, w')"
  shows "\<exists>evs. log w' = log w @ evs"
proof -
  have part: "\<exists>evs. log w1 = log w @ evs"
    if "extracted FOTA_CONFIG_INSTALL_DIR tar es r (with_log checks_passed w) w1" for tar es r w1
    using that unfolding extracted_def installs_def by (auto simp: emit_def)
  show ?thesis
    by (rule main_cases [OF assms(1-3), where alloc = alloc and argv = argv and stdin = stdin and w = w])
       (use run in \<open>fastforce dest: part put_file_log\<close>)+
qed

subsection \<open>Any number of attempts\<close>

text \<open>
  An attempt: a run of \<open>main\<close> with its arguments, its input and everything that may go wrong in it.  The faults
  belong to the attempt; what a run leaves in the storage is all that the next one finds.
\<close>

record attempt =
  memory :: allocator
  blocked :: "loc \<Rightarrow> bool"
  stops :: "loc \<Rightarrow> nat option"
  flush_fails :: "loc \<Rightarrow> bool"
  space :: "loc \<Rightarrow> (u64 \<times> u64) option"
  args :: "u8 list list"
  input :: stream

definition beset :: "attempt \<Rightarrow> world \<Rightarrow> world" where
  "beset a w =
     w\<lparr>no_write := blocked a, write_stop := stops a, close_fails := flush_fails a, vfs_space := space a\<rparr>"

definition try_update :: "'s::len itself \<Rightarrow> 'z zlib \<Rightarrow> 'h openssl \<Rightarrow> attempt \<Rightarrow> world \<Rightarrow> (exit_code \<times> world) option" where
  "try_update width Z C a w = main width Z C (memory a) (args a) (input a) (beset a w)"

text \<open>The device \<open>w\<close> in its own state of health, with the storage that \<open>w'\<close> has.\<close>

definition with_storage :: "world \<Rightarrow> world \<Rightarrow> world" where
  "with_storage w' w = w\<lparr>dirs := dirs w', files := files w', log := log w'\<rparr>"

lemma resolve_beset [simp]: "resolve (beset a w) p = resolve w p"
  by (rule resolve_dirs_cwd) (simp_all add: beset_def)

lemma leaves_beset [simp]:
  "leaves ps (beset a w) w' = leaves ps w w'" "leaves ps w (beset a w') = leaves ps w w'" "log (beset a w) = log w"
  by (simp_all add: leaves_def beset_def)

lemma load_key_beset [simp]: "fota_load_private_key C (beset a w) p = fota_load_private_key C w p"
proof -
  have "fopen_rb (beset a w) q = fopen_rb w q" for q
    unfolding fopen_rb_def resolve_beset by (simp add: beset_def split: option.split)
  then show ?thesis by (simp add: fota_load_private_key_def split: option.split)
qed

lemma opens_to_beset [simp]: "opens_to C alloc data (beset a w) pt = opens_to C alloc data w pt"
  by (simp add: opens_to_def)

lemma opens_to_leaves: "leaves ps w w' \<Longrightarrow> opens_to C alloc data w' pt = opens_to C alloc data w pt"
  using leaves_config(2) [of ps w w' FOTA_CONFIG_DEVICE_PRIVATE_KEY_FILE]
  by (simp add: opens_to_def fota_load_private_key_def)

lemma tries_Cons:
  assumes "run_seq (try_update TYPE('s::len) Z C) (a # tries) w = Some (cs, w')"
  obtains c w1 cs1 where "main TYPE('s) Z C (memory a) (args a) (input a) (beset a w) = Some (c, w1)"
    "run_seq (try_update TYPE('s) Z C) tries w1 = Some (cs1, w')"
proof -
  obtain c w1 cs1 where "try_update TYPE('s) Z C a w = Some (c, w1)"
    "run_seq (try_update TYPE('s) Z C) tries w1 = Some (cs1, w')"
    using assms by (auto split: Option.bind_split_asm)
  then show thesis using that by (simp add: try_update_def)
qed

lemma attempts_log_grows:
  assumes "crypto_contract C" and "zlib_contract Z" and "36 < LENGTH('s)"
    and "run_seq (try_update TYPE('s::len) Z C) tries w = Some (cs, w')"
  shows "\<exists>evs. log w' = log w @ evs"
  using assms(4)
proof (induction tries arbitrary: w cs)
  case (Cons a tries)
  obtain c w1 cs1 where "main TYPE('s) Z C (memory a) (args a) (input a) (beset a w) = Some (c, w1)"
      and rest: "run_seq (try_update TYPE('s) Z C) tries w1 = Some (cs1, w')"
    by (rule tries_Cons [OF Cons.prems])
  then have "\<exists>evs. log w1 = log w @ evs" using main_log_grows [OF assms(1-3)] by fastforce
  then show ?case using Cons.IH [OF rest] by auto
qed simp

lemma attempts_leave:
  assumes C: "crypto_contract C" and Z: "zlib_contract Z" and W: "36 < LENGTH('s)"
    and acc: "archive_accepted TYPE('s::len) Z C alloc pt (length pt) tar es" and plain: "\<forall>p \<in> payload_paths es. plain_path p"
    and run: "run_seq (try_update TYPE('s) Z C) tries w = Some (cs, w')"
    and read: "\<forall>a \<in> set tries. \<forall>u d. package_read (memory a) (args a) (input a) u = Some d \<longrightarrow> d = data"
    and opens: "opens_to C alloc data w pt" and root: "resolve w FOTA_CONFIG_INSTALL_DIR = Some install_loc"
  shows "\<exists>evs. log w' = log w @ evs \<and> (Ev_write version_loc \<notin> set evs \<longrightarrow> leaves (payload_paths es) w w')"
  using run read opens root
proof (induction tries arbitrary: w cs)
  case (Cons a tries)
  obtain c w1 cs1 where step: "main TYPE('s) Z C (memory a) (args a) (input a) (beset a w) = Some (c, w1)"
      and rest: "run_seq (try_update TYPE('s) Z C) tries w1 = Some (cs1, w')"
    by (rule tries_Cons [OF Cons.prems(1)])
  obtain evs where evs: "log w1 = log w @ evs" "Ev_write version_loc \<notin> set evs \<longrightarrow> leaves (payload_paths es) w w1"
    using main_leaves [OF C Z W step _ _ acc _ plain, of data] Cons.prems(2-4) by auto
  show ?case
  proof (cases "Ev_write version_loc \<in> set evs")
    case True
    have "\<exists>more. log w' = log w1 @ more" by (rule attempts_log_grows [OF C Z W rest])
    then show ?thesis using True evs(1) by auto
  next
    case False
    then have l: "leaves (payload_paths es) w w1" using evs(2) by simp
    have "opens_to C alloc data w1 pt" using Cons.prems(3) by (simp add: opens_to_leaves [OF l])
    moreover have "resolve w1 FOTA_CONFIG_INSTALL_DIR = Some install_loc" by (rule leaves_resolve [OF l Cons.prems(4)])
    ultimately obtain more
      where "log w' = log w1 @ more" "Ev_write version_loc \<notin> set more \<longrightarrow> leaves (payload_paths es) w1 w'"
      using Cons.IH [OF rest] Cons.prems(2) by auto
    then show ?thesis using evs(1) False leaves_trans [OF l] by auto
  qed
qed simp

subsection \<open>The next attempt succeeds\<close>

lemma leaves_with_storage: "leaves ps w w' \<Longrightarrow> leaves ps w (with_storage w' w)"
  by (simp add: leaves_def with_storage_def)

lemma provisioned_with_storage:
  assumes "leaves ps w w'" and "provisioned w"
  shows "provisioned (with_storage w' w)"
proof -
  note l = leaves_with_storage [OF assms(1)]
  have "no_faults (with_storage w' w) = no_faults w" by (simp add: no_faults_def with_storage_def)
  moreover have "readable (with_storage w' w) FOTA_CONFIG_VERSION_FILE = readable w FOTA_CONFIG_VERSION_FILE"
    using leaves_config(1) [OF l] by (simp add: readable_def resolve_config) (simp add: with_storage_def)
  ultimately show ?thesis
    using assms(2) leaves_config(1) [OF l] leaves_outside(2) [OF l etc_not_installed(5)] by (simp add: provisioned_def)
qed

lemma files_in_place:
  assumes ex: "extracted FOTA_CONFIG_INSTALL_DIR tar es FOTA_INSTALL_OK (with_log evs w) w1"
    and put: "put_file FOTA_CONFIG_VERSION_FILE c w1 = (ok, w')"
    and root: "resolve w FOTA_CONFIG_INSTALL_DIR = Some install_loc" and plain: "\<forall>p \<in> payload_paths es. plain_path p"
    and one: "distinct (map path (filter is_payload_file es))" and e: "e \<in> set es" "is_payload_file e"
  shows "files w' (install_loc @ comps (path e)) = Some (entry_data tar e)"
proof -
  have "installs (resolve (with_log evs w) FOTA_CONFIG_INSTALL_DIR) (emit Ev_validated (with_log evs w)) w1"
    and pl: "all_placed FOTA_CONFIG_INSTALL_DIR tar es w1" using ex by (simp_all add: extracted_def)
  from installs_resolve [OF this(1)] root have r1: "resolve w1 FOTA_CONFIG_INSTALL_DIR = Some install_loc" by simp
  have same: "\<forall>e \<in> set es. \<forall>e' \<in> set es. is_payload_file e \<and> is_payload_file e' \<and> path e = path e' \<longrightarrow>
      entry_data tar e = entry_data tar e'"
    using one by (auto simp: distinct_map inj_on_def)
  have "prefix install_loc (install_loc @ comps (path e))" by simp
  then have "install_loc @ comps (path e) \<noteq> version_loc" using etc_not_installed(5) by metis
  then show ?thesis
    using all_placed_at [OF pl install_dir_not_Nil r1 plain same e] put_version_keeps(2) [OF put] by simp
qed

subsection \<open>An interrupted update to evaluate on\<close>

text \<open>Two attempts on the sample device: one has no memory, in the other one no file can be closed.\<close>

definition no_memory :: attempt where
  "no_memory =
     \<lparr>memory = (\<lambda>_ _. False), blocked = (\<lambda>_. False), stops = (\<lambda>_. None), flush_fails = (\<lambda>_. False),
      space = vfs_space sample_device, args = sample_argv, input = sample_stdin\<rparr>"

definition no_flush :: attempt where
  "no_flush = no_memory\<lparr>memory := unlimited, flush_fails := (\<lambda>_. True)\<rparr>"

lemma sample_entry:
  obtains es e where "archive_accepted TYPE(64) sample_zlib sha256_sample unlimited sample_archive
      (length sample_archive) sample_archive es"
    "filter is_payload_file es = [e]" "path e = ascii ''a''" "is_payload_file e" "entry_data sample_archive e = []"
    "rd_slice sample_archive (data_off e) (esize e) = Some []"
proof -
  obtain es where acc: "archive_accepted TYPE(64) sample_zlib sha256_sample unlimited sample_archive
        (length sample_archive) sample_archive es"
      and fl: "map (\<lambda>e. (path e, entry_data sample_archive e)) (filter is_payload_file es) = [(ascii ''a'', [])]"
    using sample_accepted by (elim exE conjE) (rule that)
  obtain e where e: "filter is_payload_file es = [e]" "path e = ascii ''a''" "entry_data sample_archive e = []"
    using fl by (auto simp: map_eq_Cons_conv)
  have "36 < LENGTH(64) \<and> length sample_archive < 2 ^ LENGTH(64)" using sample_archive_facts(5) by simp
  from tar.accepted [OF this] have wf: "wf_entries sample_archive es"
    using acc unfolding archive_accepted_def by blast
  have "e \<in> set (filter is_payload_file es)" using e(1) by simp
  then have pe: "is_payload_file e" "writable_entry sample_archive e" using wf_entries_writable [OF wf] by auto
  then have "rd_slice sample_archive (data_off e) (esize e) = Some []" using e(3) by (simp add: writable_entry_def)
  then show thesis using that acc e pe(1) by blast
qed

lemma sample_no_memory:
  "main TYPE(64) sample_zlib sha256_sample (memory no_memory) (args no_memory) (input no_memory) w =
    Some (FOTA_EXIT_GENERIC_FAILURE, w)"
proof -
  have "Option.bind x (read_all (\<lambda>_ _. False)) = None" for x by (cases x) (simp_all add: read_all_def)
  then show ?thesis by (simp add: main_eq [OF sample_crypto_contract] no_memory_def)
qed

lemma sample_no_flush:
  assumes w: "leaves {} sample_device w"
  shows "\<exists>w'. main TYPE(64) sample_zlib sha256_sample (memory no_flush) (args no_flush) (input no_flush) (beset no_flush w) =
      Some (FOTA_EXIT_GENERIC_FAILURE, w') \<and>
    log w' = log w @ checks_passed @ [Ev_validated, Ev_write (install_loc @ [ascii ''a''])]"
proof -
  let ?f = "beset no_flush w" and ?w = "emit Ev_validated (with_log checks_passed (beset no_flush w))"
    and ?d = FOTA_CONFIG_INSTALL_DIR and ?at = "install_loc @ [ascii ''a'']"
  obtain es e where es: "archive_accepted TYPE(64) sample_zlib sha256_sample unlimited sample_archive
        (length sample_archive) sample_archive es" "filter is_payload_file es = [e]" "path e = ascii ''a''"
        "is_payload_file e" "entry_data sample_archive e = []" "rd_slice sample_archive (data_off e) (esize e) = Some []"
    by (rule sample_entry)
  have l: "leaves {} sample_device ?f" using w by simp
  have d: "dirs w = dirs sample_device" using w by (auto simp: leaves_def)
  have auth: "authorised sha256_sample unlimited None sample_package ?f (Fota_version 2 0 0 0) sample_archive"
    using sample_authorised
    by (subst authorised_leaves [OF l _ sample_device_state(4)]) (simp_all add: beset_def no_flush_def no_memory_def)
  have root: "resolve ?w ?d = Some install_loc" using leaves_resolve [OF l sample_device_state(4)] by simp
  have "comps (ascii ''a'') = [ascii ''a'']" by (simp add: split_on_no_sep ascii_def)
  then have at: "resolve ?w (?d @ slash # ascii ''a'') = Some ?at"
    unfolding resolve_child [OF install_dir_not_Nil root]
    by (simp add: emit_def beset_def d sample_device_state(5)) (simp add: ascii_def)
  have free: "\<not> dirs ?w ?at" "dirs ?w (butlast ?at)" "\<not> no_write ?w ?at" "write_stop ?w ?at = None" "close_fails ?w ?at"
    using d sample_device_state(5) by (simp_all add: emit_def beset_def no_flush_def no_memory_def)
      (simp add: sample_device_def install_loc_def ascii_def)
  obtain w' where put: "put_file (?d @ slash # ascii ''a'') [] ?w = (False, w')" "log w' = log ?w @ [Ev_write ?at]"
    using at free by (simp add: stdio_defs Let_def)
  have "strchr_from (?d @ slash # ascii ''a'') slash (Suc (length ?d)) = None"
    using strchr_from_miss [of slash "ascii ''a''" "?d @ [slash]"] by (simp add: ascii_def)
  moreover have full: "make_full_path ?d (path e) = Some (?d @ slash # ascii ''a'')"
    by (simp add: make_full_path_def full_path_size_def es(3) FOTA_CONFIG_INSTALL_DIR_def ascii_def)
  ultimately have "ensure_parent_dirs ?d (path e) ?w = (True, ?w)"
    by (simp add: ensure_parent_dirs_def mkdir_loop.simps)
  then have "write_entry_file ?d sample_archive e ?w = Some (False, w')"
    unfolding write_entry_file_eq [OF es(6)] using put(1) full by simp
  then have "install_loop ?d sample_archive es ?w = Some (FOTA_INSTALL_ERR_IO, w')"
    unfolding install_loop_filter [of _ _ es] es(2) using es(4) by (simp add: is_payload_file_def)
  then have ex: "main_install TYPE(64) sample_zlib sha256_sample unlimited (Fota_version 2 0 0 0) (Some sample_archive)
     (length sample_archive) (with_log checks_passed ?f) = Some (FOTA_EXIT_GENERIC_FAILURE, w')"
    using es(1) by (simp add: main_install_def fota_installer_extract_def archive_accepted_def)
  have dec: "decide sha256_sample unlimited None sample_package ?f =
      (checks_passed, Inr (Fota_version 2 0 0 0, sample_archive))" using auth decide_Inr by blast
  have "memory no_flush = unlimited" "args no_flush = sample_argv" "input no_flush = sample_stdin"
    "2 \<le> length sample_argv" by (simp_all add: no_flush_def no_memory_def sample_argv_def)
  then have "main TYPE(64) sample_zlib sha256_sample (memory no_flush) (args no_flush) (input no_flush) ?f =
      Some (FOTA_EXIT_GENERIC_FAILURE, w')"
    using sample_package_read [of ?f] sample_secret dec ex by (simp add: main_eq [OF sample_crypto_contract] perform_def)
  then show ?thesis using put(2) by (simp add: emit_def)
qed

text \<open>
  C3. An interrupted update can be repeated: a package that a healthy device would install is tried any number of times
  while allocations, opens, writes, flushes and the disk space fail in any way; as long as no attempt got to opening the
  version file, the next run on the healthy device with the storage they left installs every file of the package and
  records its version.
\<close>

theorem interrupted_update_can_be_repeated:
  assumes "crypto_contract C" and "zlib_contract Z" and "36 < LENGTH('s)"
    and device: "provisioned w" "resolve w FOTA_CONFIG_INSTALL_DIR = Some install_loc" "dirs w install_loc"
      "room w install_loc (path ` set (filter is_payload_file es))"
    and package: "authorised C alloc (downgrade_secret_arg None (drop 2 argv)) data w v archive"
      "archive_accepted TYPE('s::len) Z C alloc archive (length archive) tar es"
      "\<forall>p \<in> path ` set (filter is_payload_file es). plain_path p"
      "compatible (path ` set (filter is_payload_file es))" "distinct (map path (filter is_payload_file es))"
    and attempts: "run_seq (try_update TYPE('s) Z C) tries w = Some (cs, w1)"
      "\<forall>a \<in> set tries. \<forall>u d.
         Option.bind (main_input (args a ! 1) (input a) u) (read_all (memory a)) = Some d \<longrightarrow> d = data"
      "Ev_write version_loc \<notin> set (drop (length (log w)) (log w1))"
    and again: "2 \<le> length argv"
      "Option.bind (main_input (argv ! 1) stdin (with_storage w1 w)) (read_all alloc) = Some data"
  shows "\<exists>w'. main TYPE('s) Z C alloc argv stdin (with_storage w1 w) = Some (FOTA_EXIT_SUCCESS, w') \<and>
    (\<forall>e \<in> set es. etype e = FOTA_TAR_ENTRY_FILE \<and> path e \<noteq> manifest_name \<longrightarrow>
       files w' (install_loc @ split_on slash (path e)) = Some (entry_data tar e)) \<and>
    installed_version w' = (FOTA_VERSION_READ_OK, v)"
proof -
  let ?w = "with_storage w1 w"
  have "opens_to C alloc data w archive" using package(1) by (simp add: authorised_def)
  from attempts_leave [OF assms(1-3) package(2,3) attempts(1,2) this device(2)] attempts(3)
  have left: "leaves (payload_paths es) w w1" by auto
  note l = leaves_with_storage [OF left]
  have p: "provisioned ?w" by (rule provisioned_with_storage [OF left device(1)])
  have root: "resolve ?w FOTA_CONFIG_INSTALL_DIR = Some install_loc" by (rule leaves_resolve [OF l device(2)])
  have auth: "authorised C alloc (secret_given argv) data ?w v archive"
    using package(1) by (subst authorised_leaves [OF l _ device(2)]) (simp_all add: with_storage_def)
  have d: "dirs ?w install_loc" using l device(3) by (simp add: leaves_def)
  obtain w2 w' where run: "main TYPE('s) Z C alloc argv stdin ?w = Some (FOTA_EXIT_SUCCESS, w')"
      "extracted FOTA_CONFIG_INSTALL_DIR tar es FOTA_INSTALL_OK (with_log checks_passed ?w) w2"
      "put_file FOTA_CONFIG_VERSION_FILE (version_text v) w2 = (True, w')"
    by (rule main_succeeds [OF assms(1-3) again auth package(2) p root d package(3,4) leaves_room [OF l device(4) package(4)]])
  have "installed_version w' = (FOTA_VERSION_READ_OK, v)"
    using version_recorded [OF run(3)] extracted_keeps(8) [OF run(2)] p by (simp add: provisioned_def)
  moreover have "files w' (install_loc @ comps (path e)) = Some (entry_data tar e)"
    if "e \<in> set es" "is_payload_file e" for e
    by (rule files_in_place [OF run(2,3) root package(3,5) that])
  ultimately show ?thesis using run(1) by (auto simp: is_payload_file_def)
qed

theorem interrupted_update_can_be_repeated_witness:
  "\<exists>w1 w'. run_seq (try_update TYPE(64) sample_zlib sha256_sample) [no_memory, no_flush] sample_device =
      Some ([FOTA_EXIT_GENERIC_FAILURE, FOTA_EXIT_GENERIC_FAILURE], w1) \<and>
    Ev_write (install_loc @ [ascii ''a'']) \<in> set (log w1) \<and>
    main TYPE(64) sample_zlib sha256_sample unlimited sample_argv sample_stdin (with_storage w1 sample_device) =
      Some (FOTA_EXIT_SUCCESS, w') \<and>
    files w' (install_loc @ [ascii ''a'']) = Some [] \<and> installed_version w' = (FOTA_VERSION_READ_OK, Fota_version 2 0 0 0)"
proof -
  let ?v = "Fota_version 2 0 0 0" and ?at = "install_loc @ [ascii ''a'']"
  obtain w1 where w1: "main TYPE(64) sample_zlib sha256_sample (memory no_flush) (args no_flush) (input no_flush)
        (beset no_flush (beset no_memory sample_device)) = Some (FOTA_EXIT_GENERIC_FAILURE, w1)"
      "log w1 = checks_passed @ [Ev_validated, Ev_write ?at]"
    using sample_no_flush [of "beset no_memory sample_device"] by (auto simp: sample_device_def)
  have seq: "run_seq (try_update TYPE(64) sample_zlib sha256_sample) [no_memory, no_flush] sample_device =
      Some ([FOTA_EXIT_GENERIC_FAILURE, FOTA_EXIT_GENERIC_FAILURE], w1)"
    using w1(1) by (simp add: try_update_def sample_no_memory)
  obtain es e where es: "archive_accepted TYPE(64) sample_zlib sha256_sample unlimited sample_archive
        (length sample_archive) sample_archive es" "filter is_payload_file es = [e]" "path e = ascii ''a''"
        "is_payload_file e" "entry_data sample_archive e = []" "rd_slice sample_archive (data_off e) (esize e) = Some []"
    by (rule sample_entry)
  have "e \<in> set (filter is_payload_file es)" using es(2) by simp
  then have e: "e \<in> set es" by simp
  have W: "36 < LENGTH(64)" and argv: "2 \<le> length sample_argv" by (simp_all add: sample_argv_def)
  have auth: "authorised sha256_sample unlimited (secret_given sample_argv) sample_package sample_device ?v sample_archive"
    unfolding sample_secret by (rule sample_authorised)
  have "?at \<noteq> version_loc" using etc_not_installed(5) by (metis prefixI)
  then have quiet: "Ev_write version_loc \<notin> set (drop (length (log sample_device)) (log w1))"
    using w1(2) by (simp add: sample_device_def)
  have reads: "\<forall>a \<in> set [no_memory, no_flush]. \<forall>u d. package_read (memory a) (args a) (input a) u = Some d \<longrightarrow>
      d = sample_package"
  proof -
    have "Option.bind x (read_all (\<lambda>_ _. False)) = None" for x by (cases x) (simp_all add: read_all_def)
    then show ?thesis using sample_package_read by (simp add: no_memory_def no_flush_def)
  qed
  obtain w' where run: "main TYPE(64) sample_zlib sha256_sample unlimited sample_argv sample_stdin
        (with_storage w1 sample_device) = Some (FOTA_EXIT_SUCCESS, w')"
      "\<forall>e \<in> set es. etype e = FOTA_TAR_ENTRY_FILE \<and> path e \<noteq> manifest_name \<longrightarrow>
         files w' (install_loc @ split_on slash (path e)) = Some (entry_data sample_archive e)"
      "installed_version w' = (FOTA_VERSION_READ_OK, ?v)"
    using interrupted_update_can_be_repeated [OF sample_main_contracts W sample_device_state(1,4,5) _ auth es(1) _ _ _ seq reads
        quiet argv sample_package_read] es(2,3) sample_plain sample_device_state(6) by auto
  have "comps (ascii ''a'') = [ascii ''a'']" by (simp add: split_on_no_sep ascii_def)
  then have "files w' ?at = Some []" using run(2) e es(3-5) by (auto simp: is_payload_file_def)
  then show ?thesis using seq w1(2) run(1,3) by auto
qed

end
