(* ===== verification/Fota_Torn.thy ===== *)
theory Fota_Torn
  imports Fota_Sample
begin

section \<open>A version file that was written in part\<close>

text \<open>
  \<open>fota_version_write_installed\<close> opens the file with \<open>"wb"\<close>, which empties it, and then writes.  The theory says what the
  reader makes of every prefix of the text that such a write can leave, and what that means for the runs that follow.
\<close>

subsection \<open>Prefixes of decimal text\<close>

lemma dec_digits_prefix:
  assumes "0 < j" and "j < length (dec_digits n)"
  shows "dec_val (take j (dec_digits n)) < n"
  using assms
proof (induction n arbitrary: j rule: dec_digits.induct)
  case (1 n)
  show ?case
  proof (cases "n < 10")
    case True
    then show ?thesis using "1.prems" by (simp add: dec_digits.simps [of n])
  next
    case False
    then have d: "dec_digits n = dec_digits (n div 10) @ [of_nat (48 + n mod 10)]" by (simp add: dec_digits.simps [of n])
    have less: "n div 10 < n" using False by simp
    show ?thesis
    proof (cases "j < length (dec_digits (n div 10))")
      case True
      then show ?thesis using "1.IH" [OF False "1.prems"(1)] less d by simp
    next
      case at_end: False
      then have "take j (dec_digits n) = dec_digits (n div 10)" using "1.prems"(2) d by simp
      then show ?thesis using dec_digits_props [of "n div 10"] less by simp
    qed
  qed
qed

lemma dec_val_prefix_le: "0 < j \<Longrightarrow> dec_val (take j (dec_digits n)) \<le> n"
  using dec_digits_prefix [of j n] dec_digits_props [of n] by (cases "j < length (dec_digits n)") simp_all

subsection \<open>Prefixes of the version text\<close>

text \<open>The first three components with their dots.\<close>

definition version_head :: "fota_version \<Rightarrow> u8 list" where
  "version_head v =
     dec_digits (unat (part0 v)) @ [dot] @ dec_digits (unat (part1 v)) @ [dot] @ dec_digits (unat (part2 v)) @ [dot]"

lemma version_text_head: "version_text v = version_head v @ dec_digits (unat (part3 v)) @ [10]"
  by (simp add: version_text_def version_head_def)

lemma count_list_take: "count_list (take k xs) c \<le> count_list xs c"
  by (induction xs arbitrary: k) (auto simp: take_Cons split: nat.split intro: le_SucI)

lemma digits_count [simp]: "count_list (dec_digits n) dot = 0"
  using dec_digits_no_dot [of n] by (simp add: count_notin)

lemma version_head_count: "count_list (version_head v) dot = 3"
  by (simp add: version_head_def)

lemma head_prefix_refused:
  assumes "k \<le> length (version_head v)"
  shows "version_spec (take k (version_head v)) = None"
proof (cases "k = length (version_head v)")
  case True
  have "split_on dot (version_head v) =
      [dec_digits (unat (part0 v)), dec_digits (unat (part1 v)), dec_digits (unat (part2 v)), []]"
    by (simp add: version_head_def split_on_append_sep split_on_no_sep dec_digits_no_dot)
  then show ?thesis using True by (simp add: version_spec_def component_ok_def)
next
  case False
  obtain x where h: "version_head v = x @ [dot]" "count_list x dot = 2" by (simp add: version_head_def)
  have "take k (version_head v) = take k x" using False assms h(1) by simp
  then have "count_list (take k (version_head v)) dot \<le> 2" using count_list_take [of k x dot] h(2) by simp
  then show ?thesis by (simp add: version_spec_def length_split_on)
qed

lemma head_bytes: "b \<in> set (take k (version_text v)) \<Longrightarrow> k < length (version_text v) \<Longrightarrow> is_digit b \<or> b = dot"
  using version_text_bytes [of b v] set_take_subset [of k "butlast (version_text v)"]
  by (auto simp: take_butlast subset_iff)

lemma torn_content:
  assumes "k < length (version_text v)"
  shows "strip (take k (version_text v)) = take k (version_text v)" "cstr (take k (version_text v)) = take k (version_text v)"
    "length (take k (version_text v)) \<le> 64"
proof -
  let ?t = "take k (version_text v)"
  have b: "is_digit b \<or> b = dot" if "b \<in> set ?t" for b using head_bytes [OF that assms] .
  then have "0 \<notin> set ?t" by force
  then show "cstr ?t = ?t" by (simp add: cstr_id)
  have "\<not> is_ws b" if "b \<in> set ?t" for b using b [OF that] by (auto simp: word_le_nat_alt)
  then show "strip ?t = ?t" by (cases ?t rule: rev_cases) (auto simp: strip_def)
  show "length ?t \<le> 64" using assms version_text_length [of v] by simp
qed

text \<open>The version that a cut in the last component leaves.\<close>

definition cut_version :: "fota_version \<Rightarrow> nat \<Rightarrow> fota_version" where
  "cut_version v j =
     Fota_version (part0 v) (part1 v) (part2 v) (of_nat (dec_val (take j (dec_digits (unat (part3 v))))))"

lemma cut_version_spec:
  assumes "0 < j"
  shows "version_spec (version_head v @ take j (dec_digits (unat (part3 v)))) = Some (cut_version v j)"
proof -
  let ?q = "take j (dec_digits (unat (part3 v)))"
  have q: "dot \<notin> set ?q" "\<forall>b \<in> set ?q. is_digit b"
    using dec_digits_no_dot [of "unat (part3 v)"] dec_digits_props [of "unat (part3 v)"] by (auto dest: in_set_takeD)
  have bnd: "unat w < 2 ^ 32" for w :: u32 using unsigned_less [of w, where 'a = nat] by simp
  have "?q \<noteq> []" using assms dec_digits_props [of "unat (part3 v)"] by simp
  moreover have "dec_val ?q < 2 ^ 32" using dec_val_prefix_le [OF assms] bnd le_less_trans by blast
  ultimately have "component_ok ?q" using q(2) by (simp add: component_ok_def)
  moreover have "split_on dot (version_head v @ ?q) =
      [dec_digits (unat (part0 v)), dec_digits (unat (part1 v)), dec_digits (unat (part2 v)), ?q]"
    using q(1) by (simp add: version_head_def split_on_append_sep split_on_no_sep dec_digits_no_dot)
  ultimately show ?thesis
    using bnd dec_digits_props by (simp add: version_spec_def dec_digits_ok version_of_parts_def cut_version_def)
qed

lemma cut_version_less:
  assumes "0 < j" and "j < length (dec_digits (unat (part3 v)))"
  shows "cut_version v j < v"
proof -
  have "dec_val (take j (dec_digits (unat (part3 v)))) < unat (part3 v)" by (rule dec_digits_prefix [OF assms])
  moreover from this have "dec_val (take j (dec_digits (unat (part3 v)))) < 2 ^ 32"
    using unsigned_less [of "part3 v", where 'a = nat] by simp
  ultimately have "part3 (cut_version v j) < part3 v"
    by (simp add: cut_version_def word_less_nat_alt unat_of_nat take_bit_nat_eq_self)
  then show ?thesis by (simp add: less_fota_version_def cut_version_def)
qed

lemma cut_version_whole: "length (dec_digits (unat (part3 v))) \<le> j \<Longrightarrow> cut_version v j = v"
  using dec_digits_props [of "unat (part3 v)"] by (cases v) (simp add: cut_version_def)

text \<open>What the reader makes of a prefix.\<close>

lemma installed_spec_torn:
  assumes "k < length (version_text v)"
  shows "installed_spec (take k (version_text v)) =
    (if k = 0 then (FOTA_VERSION_READ_OK, Fota_version 0 0 0 0)
     else if k \<le> length (version_head v) then (FOTA_VERSION_READ_ERR_MALFORMED_CONTENTS, Fota_version 0 0 0 0)
     else (FOTA_VERSION_READ_OK, cut_version v (k - length (version_head v))))"
proof (cases "k = 0")
  case True
  then show ?thesis by (simp add: installed_spec_def strip_def)
next
  case False
  let ?t = "take k (version_text v)" and ?h = "version_head v"
  note t = torn_content [OF assms]
  have ne: "?t \<noteq> []" using False assms by auto
  show ?thesis
  proof (cases "k \<le> length ?h")
    case True
    then have "?t = take k ?h" by (simp add: version_text_head)
    then show ?thesis using head_prefix_refused [OF True] t ne False True by (simp add: installed_spec_def)
  next
    case False
    then have "?t = ?h @ take (k - length ?h) (dec_digits (unat (part3 v)))"
      using assms by (simp add: version_text_head)
    then have "version_spec ?t = Some (cut_version v (k - length ?h))" using cut_version_spec False by simp
    then show ?thesis using t ne assms version_text_length [of v] \<open>k \<noteq> 0\<close> False by (simp add: installed_spec_def)
  qed
qed

subsection \<open>Runs on a device whose version file does not parse\<close>

lemma decide_unreadable_version:
  assumes "fst (installed_version w) \<noteq> FOTA_VERSION_READ_OK"
  shows "\<exists>c. decide C alloc secret data w = ([], Inl c) \<and> c \<noteq> FOTA_EXIT_SUCCESS"
  using assms by (auto simp: decide_def decide_version_def split: option.split prod.split)

lemma main_unreadable_version:
  assumes "crypto_contract C" and "fst (installed_version w) \<noteq> FOTA_VERSION_READ_OK"
  shows "\<exists>c. main width Z C alloc argv stdin w = Some (c, w) \<and> c \<noteq> FOTA_EXIT_SUCCESS"
proof -
  have "\<exists>c. perform width Z C alloc (decide C alloc secret data w) w = Some (c, w) \<and> c \<noteq> FOTA_EXIT_SUCCESS"
    for secret data
    using decide_unreadable_version [OF assms(2), of C alloc secret data] by (auto simp: perform_def)
  then show ?thesis by (simp add: main_eq [OF assms(1)] split: option.split)
qed

lemma run_all_stuck:
  assumes "\<And>argv stdin. \<exists>c. main width Z C alloc argv stdin w = Some (c, w) \<and> c \<noteq> FOTA_EXIT_SUCCESS"
  shows "\<exists>cs. run_all width Z C alloc inputs w = Some (cs, w) \<and> length cs = length inputs \<and> FOTA_EXIT_SUCCESS \<notin> set cs"
proof (induction inputs)
  case (Cons i inputs)
  then obtain cs where "run_all width Z C alloc inputs w = Some (cs, w)" "length cs = length inputs"
      "FOTA_EXIT_SUCCESS \<notin> set cs" by blast
  moreover obtain c where "main width Z C alloc (fst i) (snd i) w = Some (c, w)" "c \<noteq> FOTA_EXIT_SUCCESS"
    using assms by blast
  ultimately show ?case by (auto simp: run_all_def case_prod_beta)
qed (simp add: run_all_def)

subsection \<open>Properties\<close>

text \<open>
  C16. What a write of the version file leaves that stops after \<open>k\<close> bytes: it reports -1, and the reader then finds 0.0.0.0
  without an error (\<open>k = 0\<close>), so that every other version passes the downgrade check, or an error (the cut is in the
  first three components), or, silently, a version that is smaller than the one written, unless only the newline is
  missing.
\<close>

theorem partial_write_leaves:
  assumes "resolve w p = Some l" and "\<not> no_write w l" and "\<not> dirs w l" and "dirs w (butlast l)" and "readable w p"
    and "write_stop w l = Some k" and "k < length (version_text v)"
  shows "\<exists>w' r x. fota_version_write_installed (Some p) (Some v) w = (-1, w') \<and>
    fota_version_read_installed w' (Some p) = Some (r, x) \<and>
    (k = 0 \<longrightarrow> r = FOTA_VERSION_READ_OK \<and> x = Fota_version 0 0 0 0 \<and>
       (new \<noteq> x \<longrightarrow> fota_downgrade_check C new x secret n stored = Some FOTA_DOWNGRADE_CHECK_ALLOW)) \<and>
    (0 < k \<and> k \<le> length (version_head v) \<longrightarrow> r = FOTA_VERSION_READ_ERR_MALFORMED_CONTENTS) \<and>
    (length (version_head v) < k \<and> k < length (version_text v) - 1 \<longrightarrow> r = FOTA_VERSION_READ_OK \<and> x < v) \<and>
    (k = length (version_text v) - 1 \<longrightarrow> r = FOTA_VERSION_READ_OK \<and> x = v)"
proof -
  let ?t = "take k (version_text v)" and ?n = "length (version_head v)"
  obtain w' where w': "put_file p (version_text v) w = (False, w')" "files w' l = Some ?t"
    using assms by (simp add: stdio_defs Let_def min_def)
  have "fopen_rb w' p = Some (open_stream ?t None)"
    using assms(1,3,5) put_file_resolve [OF w'(1)] put_file_dirs [OF w'(1)] w'(2)
    by (simp add: fopen_rb_def readable_def)
  then have rd: "fota_version_read_installed w' (Some p) = Some (installed_spec ?t)"
    by (simp add: read_installed_stream open_stream_def)
  have len: "length (version_text v) = Suc (?n + length (dec_digits (unat (part3 v))))" by (simp add: version_text_head)
  have "dec_digits (unat (part3 v)) \<noteq> []" using dec_digits_props by blast
  then have big: "?n < length (version_text v) - 1" using len by simp
  have "cut_version v (k - ?n) < v" if "?n < k" "k < length (version_text v) - 1"
    using that len by (intro cut_version_less) auto
  moreover have "cut_version v (k - ?n) = v" if "k = length (version_text v) - 1"
    using that len by (intro cut_version_whole) auto
  moreover have "fota_downgrade_check C new (Fota_version 0 0 0 0) secret n stored = Some FOTA_DOWNGRADE_CHECK_ALLOW"
    if "new \<noteq> Fota_version 0 0 0 0"
  proof -
    have "0 \<le> fota_version_compare new (Fota_version 0 0 0 0)" by (simp add: compare_cases)
    then have "fota_version_compare new (Fota_version 0 0 0 0) > 0"
      using that compare_eq [of new "Fota_version 0 0 0 0"] by linarith
    then show ?thesis by (simp add: fota_downgrade_check_def)
  qed
  ultimately show ?thesis
    using w'(1) rd big installed_spec_torn [OF assms(7)] by (auto simp: write_installed_put_file)
qed

theorem partial_write_leaves_witness:
  "\<exists>w' x. fota_version_write_installed (Some FOTA_CONFIG_VERSION_FILE) (Some (Fota_version 1 0 0 25))
      (sample_device\<lparr>write_stop := (\<lambda>_. Some 7)\<rparr>) = (-1, w') \<and>
    fota_version_read_installed w' (Some FOTA_CONFIG_VERSION_FILE) = Some (FOTA_VERSION_READ_OK, x) \<and>
    x < Fota_version 1 0 0 25"
proof -
  let ?w = "sample_device\<lparr>write_stop := (\<lambda>_. Some 7)\<rparr>" and ?v = "Fota_version 1 0 0 25"
  have e: "has_etc ?w" by (simp add: has_etc_def sample_device_def)
  then have r: "resolve ?w FOTA_CONFIG_VERSION_FILE = Some version_loc" by (simp add: resolve_config)
  have d: "\<not> no_write ?w version_loc" "\<not> dirs ?w version_loc" "dirs ?w (butlast version_loc)"
      "write_stop ?w version_loc = Some 7"
    by (simp_all add: sample_device_def version_loc_def etc_loc_def install_loc_def ascii_def)
  have rd: "readable ?w FOTA_CONFIG_VERSION_FILE" using r by (simp add: readable_def) (simp add: sample_device_def)
  have t: "length (version_text ?v) = 9" "length (version_head ?v) = 6"
    by (simp_all add: version_text_def version_head_def dec_digits.simps)
  show ?thesis using partial_write_leaves [OF r d(1-3) rd d(4), of ?v] unfolding t by auto
qed

text \<open>
  C15. A torn version file ends all updates: when the write of the version file stopped within the first three components, no
  run on the device, with any package, arguments and memory, succeeds or changes anything; nothing that \<open>main\<close> does
  repairs the file.
\<close>

theorem torn_version_blocks_updates:
  assumes "crypto_contract C" and "has_etc w" and "\<not> dirs w version_loc" and "readable w FOTA_CONFIG_VERSION_FILE"
    and "files w version_loc = Some (take k (version_text v))" and "0 < k" and "k \<le> length (version_head v)"
  shows "\<exists>cs. run_all width Z C alloc inputs w = Some (cs, w) \<and> length cs = length inputs \<and>
    FOTA_EXIT_SUCCESS \<notin> set cs"
proof -
  have k: "k < length (version_text v)" using assms(7) by (simp add: version_text_head)
  have "fopen_rb w FOTA_CONFIG_VERSION_FILE = Some (open_stream (take k (version_text v)) None)"
    using assms(2-5) by (simp add: fopen_rb_def readable_def resolve_config)
  then have "fst (installed_version w) \<noteq> FOTA_VERSION_READ_OK"
    using installed_spec_torn [OF k] assms(6,7) by (simp add: installed_version_def open_stream_def)
  then show ?thesis by (intro run_all_stuck main_unreadable_version [OF assms(1)])
qed

theorem torn_version_blocks_updates_witness:
  "\<exists>w cs. files w version_loc = Some (ascii ''2.'') \<and> authorised sha256_sample unlimited None sample_package
      (w\<lparr>files := (files w)(version_loc := None)\<rparr>) (Fota_version 2 0 0 0) sample_archive \<and>
    run_all TYPE(64) sample_zlib sha256_sample unlimited [(sample_argv, sample_stdin), (sample_argv, sample_stdin)] w =
      Some (cs, w) \<and> FOTA_EXIT_SUCCESS \<notin> set cs"
proof -
  let ?w = "sample_device\<lparr>files := (files sample_device)(version_loc := Some (ascii ''2.''))\<rparr>" and ?v = "Fota_version 2 0 0 0"
  have e: "has_etc ?w" by (simp add: has_etc_def sample_device_def)
  have d: "\<not> dirs ?w version_loc" by (simp add: sample_device_def version_loc_def etc_loc_def install_loc_def ascii_def)
  have rd: "readable ?w FOTA_CONFIG_VERSION_FILE"
    using e by (simp add: readable_def resolve_config) (simp add: sample_device_def)
  have t: "files ?w version_loc = Some (take 2 (version_text ?v))" "2 \<le> length (version_head ?v)"
    by (simp_all add: version_text_def version_head_def dec_digits.simps ascii_def)
  have n: "version_loc \<noteq> etc_loc ''signing_public.pem''" "version_loc \<noteq> etc_loc ''device_private.pem''"
    by (simp_all add: version_loc_def etc_loc_def ascii_def)
  then have "?w\<lparr>files := (files ?w)(version_loc := None)\<rparr> = sample_device"
    by (simp add: sample_device_def fun_upd_twist)
  moreover obtain cs where "run_all TYPE(64) sample_zlib sha256_sample unlimited
      [(sample_argv, sample_stdin), (sample_argv, sample_stdin)] ?w = Some (cs, ?w)" "FOTA_EXIT_SUCCESS \<notin> set cs"
    using torn_version_blocks_updates [OF sample_crypto_contract e d rd t(1) _ t(2), of "TYPE(64)" sample_zlib unlimited
        "[(sample_argv, sample_stdin), (sample_argv, sample_stdin)]"] by auto
  ultimately show ?thesis
    using sample_authorised by (intro exI [of _ ?w] exI [of _ cs]) simp
qed

end
