(* ===== verification/Spec2Isabelle.thy ===== *)
theory Spec2Isabelle
  imports Fota_Keygen Fota_Heap_Props Fota_Retry Fota_Torn
begin

text \<open>
  \<^bold>\<open>fota-secure: the consumer of signed and encrypted firmware packages\<close>

  The repository has a packager in Python (\<open>packager/fota_secure\<close>), which turns a directory into one encrypted and
  signed blob, and a consumer in C (\<open>consumer/src\<close>), which runs on the device, checks the blob and installs the
  files.  A script (\<open>keygen\<close>) makes the keys of both.  This development models the consumer completely, twice: what it
  computes, and what it holds while it computes.  It models the packager from the input directory to the blob and the
  script, so that the three programs can be run one after the other.

  \<^bold>\<open>The parts and the theories that model them\<close>

  \<^item> \<open>Fota_Prelude\<close>: byte words, checked reads and writes of buffers (\<open>rd\<close>, \<open>rd_slice\<close>, \<open>wr_slice\<close>), C strings,
    splitting.  \<open>Fota_World\<close>: the file system, stdio, the allocator and the log of security-relevant calls; the locales
    \<open>file_store\<close> and \<open>file_cell\<close>, with the interpretation of the first on \<open>put_file\<close> and \<open>get_file\<close>.
  \<^item> \<open>Fota_Header\<close>: \<open>header.h\<close>, \<open>header.c\<close> and the writing half of \<open>blob.py\<close>.  \<open>Fota_Blob\<close>: its reading half,
    \<open>parse_header\<close> and \<open>parse_blob\<close>, and the layout of a blob.
  \<^item> \<open>Fota_Crypto\<close>: \<open>fcrypto.h\<close> and \<open>fcrypto.c\<close> over a record of the libcrypto functions.
  \<^item> \<open>Fota_Version\<close>: \<open>version.h\<close> and \<open>version.c\<close>; the order of versions, defined lexicographically as an instance of
    the class \<open>linorder\<close>, whose laws come from the locale \<open>three_way\<close>; the version file as an instance of \<open>file_cell\<close>.
  \<^item> \<open>Fota_Gunzip\<close>: \<open>fota_gunzip\<close> of \<open>installer.c\<close> over a record of the zlib functions.
  \<^item> \<open>Fota_Tar\<close>, \<open>Fota_Tar_Spec\<close>: \<open>fota_tar_path_is_safe\<close>, the field readers and \<open>fota_tar_parse\<close>, generic in
    the width of \<open>size_t\<close>; the abstract parser \<open>tar_items\<close>; the locale \<open>archive_parser\<close>.
  \<^item> \<open>Fota_Manifest\<close>, \<open>Fota_Manifest_Spec\<close>, \<open>Fota_Verify\<close>, \<open>Fota_Manifest_Props\<close>: the manifest reader, its
    list-based specification, \<open>fota_verify_manifest\<close> and what it decides.
  \<^item> \<open>Fota_Manifest_Text\<close>, \<open>Fota_Tar_Writer\<close>, \<open>Fota_Package\<close>: the bytes that \<open>manifest.py\<close> and \<open>tarball.py\<close> write.
    \<open>Fota_Packager\<close>: \<open>pack\<close> of \<open>cli.py\<close> with everything it calls in \<open>manifest.py\<close>, \<open>tarball.py\<close>, \<open>crypto.py\<close> and
    \<open>blob.py\<close>.
  \<^item> \<open>Fota_Installer\<close>, \<open>Fota_Installer_Props\<close>, \<open>Fota_Install_Total\<close>: \<open>ensure_parent_dirs\<close>,
    \<open>write_entry_file\<close> and \<open>fota_installer_extract\<close>; what they may change; when they succeed.
  \<^item> \<open>Fota_Main\<close>, \<open>Fota_Main_Spec\<close>, \<open>Fota_Main_Props\<close>: \<open>config.h\<close> and \<open>main.c\<close>; the decision
    functions \<open>decide\<close> and \<open>perform_update\<close> that \<open>main\<close> refines; the automaton of its calls and the outcomes of a run.
  \<^item> \<open>Fota_Update\<close>, \<open>Fota_Sample\<close>, \<open>Fota_Program\<close>: the device between runs and sequences of runs (the
    locale \<open>versioned_device\<close>, interpreted on \<open>main\<close>), a sample device and package, and the properties of the
    whole program.  \<open>Fota_Delivery\<close>: \<open>pack\<close> and \<open>main\<close> one after the other.  \<open>Fota_Retry\<close>: attempts that fail, and
    the one after them.
    \<open>Fota_Torn\<close>: what a write of the version file that stops early leaves.
  \<^item> \<open>Fota_Keygen\<close>: \<open>generate_keys.py\<close> with the permission bits of the files it writes, and the functions of
    \<open>crypto.py\<close> that undo encryption, key wrap and signature.
  \<^item> \<open>Fota_Heap\<close>, \<open>Fota_Heap_Gunzip\<close>, \<open>Fota_Heap_Tar\<close>, \<open>Fota_Heap_Manifest\<close>, \<open>Fota_Heap_Installer\<close>,
    \<open>Fota_Heap_Crypto\<close>, \<open>Fota_Heap_Main\<close>, \<open>Fota_Heap_Props\<close>: the C functions again, with the suffix \<open>_h\<close>, with every
    \<open>malloc\<close>, \<open>realloc\<close>, \<open>free\<close>, \<open>fopen\<close>, \<open>fclose\<close> and every \<open>new\<close> and \<open>free\<close> of libcrypto and zlib; the locale
    \<open>resources\<close>.

  \<^bold>\<open>How the parts interact\<close>

  \<open>main\<close> reads the whole input, calls \<open>fota_header_parse\<close>, compares the platform tag, parses the version and asks
  \<open>fota_downgrade_check\<close> with the version file and the override hash.  It then splits the sections, checks the disk space,
  verifies the signature over header, wrapped key and ciphertext, unwraps the key, decrypts, and hands the plaintext to
  \<open>fota_installer_extract\<close>, which decompresses, parses the tar archive, verifies the manifest and only then writes.
  Last, \<open>main\<close> writes the version file.  State between runs is the file system only.

  \<^bold>\<open>Conventions\<close>

  A function of the source that reads or writes through pointers is a function into \<open>option\<close>: \<open>None\<close> is an access outside a
  buffer (or a loop that does not end), so every theorem that a function equals \<open>Some\<close> of something is a memory safety and
  termination theorem.  A null pointer argument is \<open>None\<close> of an argument of option type.  Result codes are the
  source's enums; an output parameter is part of the result.  Sizes are natural numbers where the code compares
  before it adds; they are words where it does not: the tar parser at the width \<open>'s\<close> of \<open>size_t\<close>, the capacity and byte
  count of its array included, \<open>avail_in\<close> and \<open>avail_out\<close> of zlib at 32 bits, version parts at 32 and 64 bits, the disk
  space at 64 bits.  The capacities of the other growing buffers are natural numbers, because they cannot wrap:
  \<open>fota_gunzip\<close> stops at its cap, the listings of a manifest are bounded by its length, and \<open>read_all\<close> would need a block of
  half the address space (the theories say so at the definitions).  The loops of the C code are
  recursive functions with a measure, except for the tar loop and the inflate loop, which are partial functions
  because their ending is a theorem.  No fuel is used.

  In the heap theories a block, an open file or a library object is a handle that is never used twice.  Releasing one that
  is not held, or with the wrong function, and touching a freed block are \<open>None\<close>.  Each function with the suffix \<open>_h\<close> is
  shown to return what the function without it returns, and what it holds at the end is stated with \<open>ends\<close>.

  The Python functions return a sum with their errors, an option, or a flag with the state; the exceptions that \<open>main\<close> of \<open>cli.py\<close> catches are \<open>pack_error\<close>.
  Text is the list of its character codes, below 256; \<open>encode ("ascii")\<close> fails on those from 128 on.

  The environment is adversarial: reads may fail after any number of bytes, writes and closes may fail, every
  allocation may fail.  Libraries are parameters.  What the code relies on of them is \<open>pkey_decrypt_contract\<close>,
  \<open>cipher_contract\<close>, \<open>digest_contract\<close> (results no longer than documented) and \<open>zlib_contract\<close> (progress or an error,
  results within the given space).  \<open>decodes\<close> says what \<open>inflate\<close> does on a complete stream, and \<open>keys_match\<close>,
  \<open>ciphers_match\<close>, \<open>digests_match\<close>, \<open>gzip_matches\<close> that the libraries of the packager and of the device implement the same
  algorithms; \<open>keys_load\<close> says the same of the library that makes the keys.  A small instance meets each.

  The bound on the width of \<open>size_t\<close> is \<open>36 < LENGTH('s)\<close>: a size field has at most 12 octal digits, that is 36 bits,
  so on a wider \<open>size_t\<close> no sum of the tar parser wraps, and neither does the size of its array.  For 32 bits the parser
  is shown to accept an entry outside its buffer, and to store one entry over and over until memory is refused or the
  array is overrun.

  \<^bold>\<open>What the lemmas show\<close>

  Per part: the parsers equal list-based specifications (header, version, octal fields, tar, manifest) and never leave the
  announced bytes; the writers of the packager are inverted by the readers of the consumer; the
  cryptographic wrappers succeed exactly when libcrypto does; decompression is bounded by its cap and complete below it; an accepted
  manifest agrees with the archive, and exactly what that means; extraction fails closed, writes only below the
  install directory, and installs every file of an accepted archive, the last one where two lead to the same place.  For the
  program: it returns in every environment, with the exit code that an independent decision gives; nothing
  changes without a valid signature; the calls come in the intended order; versions only grow; success is
  recorded; everything acquired is given back; a directory that the packager packed arrives
  on the device file by file, with the keys that the script made; and however often an installation is interrupted before it
  gets to the version file, the next run completes it.

  Nine theorems show where the code does not do what it says: a manifest that lists one file twice makes
  room for an unlisted file; two wrap-arounds with a 32-bit \<open>size_t\<close>; a version file with a long blank tail is an error,
  which \<open>version.h\<close> excludes; a write of the version file that stops early
  resets or lowers the downgrade protection, or leaves a file that ends all updates; a path of more than 100 bytes is packed,
  but refused by every consumer; a \<open>manifest.json\<close> in the input directory takes the place of the generated one; and a
  private key written over an existing file keeps the permissions of that file.

  \<^bold>\<open>Not modelled\<close>

  Wiping of key material: the temporary copy of the key is released with \<open>OPENSSL_clear_free\<close>, but what memory holds
  after a release is not modelled, nor is the copy in \<open>aes_key\<close> on the stack of \<open>main\<close>, which the code does not clear.
  Timing of comparisons, and messages on \<open>stderr\<close>.  Symbolic links on the device, permissions
  beyond the failures above, and other processes that change the file system during a run.  The heap theories allocate
  at the sites of the C code only: what libcrypto and zlib allocate inside is theirs.

  Of the packager: \<open>argparse\<close>, the creation of the output directory, links in the input directory, and text beyond
  the first 256 characters.  Of the key generation script: \<open>argparse\<close> and its messages.
\<close>

end
